(* ===== verification/Prelude.thy ===== *)
theory Prelude
  imports "HOL-Library.Word" "HOL-Library.AList"
begin

unbundle bit_operations_syntax

text \<open>
  Shared vocabulary of the development: the machine integers of the Rust code, the outcome of
  a fallible operation, hash maps as association lists, byte encodings, and the collections of
  facts (\<open>post_intros\<close>, \<open>wf_simps\<close>) the component theories add to.
\<close>

named_theorems post_intros "introduction rules that push a predicate through a handler"
named_theorems frame_simps "fields an operation leaves alone"

type_synonym byte = "8 word"
type_synonym u16 = "16 word"
type_synonym u32 = "32 word"
type_synonym u64 = "64 word"
type_synonym u128 = "128 word"

section \<open>Outcomes\<close>

text \<open>
  \<open>Ok\<close> and \<open>Err\<close> are the two constructors of \<open>Result\<close>. \<open>Panic\<close> is a failed \<open>expect\<close>, \<open>unwrap\<close>,
  slice index or remainder, with the message of the code: it ends the task. \<open>Hang\<close> is a loop
  that never finishes.
\<close>

datatype ('e, 'a) outcome = Ok 'a | Err 'e | Panic string | Hang

text \<open>
  The \<open>?\<close> operator and sequencing, over an outcome paired with the state reached: an early
  return keeps the mutations made so far.
\<close>

fun then_ok ::
  "('e, 'a) outcome \<times> 's \<Rightarrow> ('a \<Rightarrow> 's \<Rightarrow> ('e, 'b) outcome \<times> 's) \<Rightarrow> ('e, 'b) outcome \<times> 's" where
  "then_ok (Ok a, s) f = f a s"
| "then_ok (Err e, s) f = (Err e, s)"
| "then_ok (Panic m, s) f = (Panic m, s)"
| "then_ok (Hang, s) f = (Hang, s)"

text \<open>The same without a state, for the pure checks.\<close>

fun and_then :: "('e, 'a) outcome \<Rightarrow> ('a \<Rightarrow> ('e, 'b) outcome) \<Rightarrow> ('e, 'b) outcome" where
  "and_then (Ok a) f = f a"
| "and_then (Err e) f = Err e"
| "and_then (Panic m) f = Panic m"
| "and_then Hang f = Hang"

text \<open>The macro \<open>ensure!(cond, err)\<close> of \<open>consensus/src/error.rs\<close>.\<close>

definition ensure :: "bool \<Rightarrow> 'e \<Rightarrow> ('e, unit) outcome" where
  "ensure b e = (if b then Ok () else Err e)"

definition completes :: "('e, 'a) outcome \<Rightarrow> bool" where
  "completes r \<longleftrightarrow> (case r of Ok _ \<Rightarrow> True | Err _ \<Rightarrow> True | _ \<Rightarrow> False)"

lemma completes_simps [simp]:
  "completes (Ok a)" "completes (Err e)" "\<not> completes (Panic m)" "\<not> completes Hang"
  by (simp_all add: completes_def)

lemma ensure_Ok [simp]: "ensure b e = Ok u \<longleftrightarrow> b"
  by (simp add: ensure_def)

lemma ensure_True [simp]: "ensure True e = Ok ()"
  by (simp add: ensure_def)

lemma ensure_False [simp]: "ensure False e = Err e"
  by (simp add: ensure_def)

lemma completes_ensure [simp]: "completes (ensure b e)"
  by (simp add: ensure_def)

lemma and_then_Ok_iff: "and_then m f = Ok b \<longleftrightarrow> (\<exists>a. m = Ok a \<and> f a = Ok b)"
  by (cases m) auto

lemma and_then_ensure_Ok [simp]: "and_then (ensure b e) f = Ok x \<longleftrightarrow> b \<and> f () = Ok x"
  by (simp add: ensure_def)

lemma completes_and_then:
  "completes m \<Longrightarrow> (\<And>a. m = Ok a \<Longrightarrow> completes (f a)) \<Longrightarrow> completes (and_then m f)"
  by (cases m) auto

text \<open>
  A predicate on the state passes a sequencing when the first operation establishes it and the
  second keeps it. Every handler invariant is proved with this rule.
\<close>

lemma post_then_ok [post_intros]:
  assumes "P (snd m)" and "\<And>a s. m = (Ok a, s) \<Longrightarrow> P s \<Longrightarrow> P (snd (f a s))"
  shows "P (snd (then_ok m f))"
proof (cases m)
  case (Pair r s)
  with assms show ?thesis by (cases r) auto
qed

lemma post_if [post_intros]:
  "(b \<Longrightarrow> P (snd x)) \<Longrightarrow> (\<not> b \<Longrightarrow> P (snd y)) \<Longrightarrow> P (snd (if b then x else y))"
  by simp

lemma then_ok_Ok_iff:
  "then_ok m f = (Ok b, s') \<longleftrightarrow> (\<exists>a s. m = (Ok a, s) \<and> f a s = (Ok b, s'))"
proof (cases m)
  case (Pair r s)
  then show ?thesis by (cases r) auto
qed

lemma completes_then_ok:
  assumes "completes (fst m)" and "\<And>a s. m = (Ok a, s) \<Longrightarrow> completes (fst (f a s))"
  shows "completes (fst (then_ok m f))"
proof (cases m)
  case (Pair r s)
  with assms show ?thesis by (cases r) auto
qed

section \<open>Hash maps\<close>

text \<open>
  A \<open>HashMap\<close> is an association list with distinct keys, in the map's (unspecified) iteration
  order: \<open>get\<close> is \<open>map_of\<close>, \<open>insert\<close> is \<open>AList.update\<close>, \<open>remove\<close> is \<open>AList.delete\<close>,
  \<open>entry(k).or_insert(v)\<close> is \<open>hm_entry\<close>, \<open>retain\<close> is \<open>filter\<close>.
\<close>

definition hm_entry :: "('k \<times> 'v) list \<Rightarrow> 'k \<Rightarrow> 'v \<Rightarrow> 'v" where
  "hm_entry m k d = (case map_of m k of None \<Rightarrow> d | Some v \<Rightarrow> v)"

definition distinct_keys :: "('k \<times> 'v) list \<Rightarrow> bool" where
  "distinct_keys m \<longleftrightarrow> distinct (map fst m)"

lemma hm_entry_in: "hm_entry m k d = v \<Longrightarrow> v = d \<or> map_of m k = Some v"
  by (auto simp: hm_entry_def split: option.splits)

lemma map_of_AList_update:
  "map_of (AList.update k v m) k' = (if k' = k then Some v else map_of m k')"
  by (simp add: update_conv')

lemma distinct_keys_update [simp]: "distinct_keys m \<Longrightarrow> distinct_keys (AList.update k v m)"
  by (simp add: distinct_keys_def distinct_update)

lemma distinct_keys_filter [simp]: "distinct_keys m \<Longrightarrow> distinct_keys (filter P m)"
  unfolding distinct_keys_def by (induction m) auto

lemma map_of_filter_key:
  "map_of (filter (\<lambda>kv. P (fst kv)) m) k = (if P k then map_of m k else None)"
  by (induction m) auto

definition hm_keys :: "('k \<times> 'v) list \<Rightarrow> 'k set" where
  "hm_keys m = fst ` set m"

lemma hm_keys_Nil [simp]: "hm_keys [] = {}"
  by (simp add: hm_keys_def)

lemma hm_keys_Cons [simp]: "hm_keys (kv # m) = insert (fst kv) (hm_keys m)"
  by (simp add: hm_keys_def)

lemma hm_keys_update [simp]: "hm_keys (AList.update k v m) = insert k (hm_keys m)"
  by (simp add: hm_keys_def dom_update)

lemma hm_keys_delete [simp]: "hm_keys (AList.delete k m) = hm_keys m - {k}"
  by (induction m) auto

lemma hm_keys_filter_key: "hm_keys (filter (\<lambda>kv. P (fst kv)) m) = {k \<in> hm_keys m. P k}"
  by (induction m) auto

lemma hm_keys_None [simp]: "map_of m k = None \<longleftrightarrow> k \<notin> hm_keys m"
  by (simp add: hm_keys_def map_of_eq_None_iff)

lemma hm_keys_Some: "map_of m k = Some v \<Longrightarrow> k \<in> hm_keys m"
  by (metis hm_keys_None option.distinct(1))

lemma distinct_keys_Cons [simp]:
  "distinct_keys (kv # m) \<longleftrightarrow> fst kv \<notin> hm_keys m \<and> distinct_keys m"
  by (simp add: distinct_keys_def hm_keys_def)

lemma distinct_keys_Nil [simp]: "distinct_keys []"
  by (simp add: distinct_keys_def)

lemma distinct_keys_delete [simp]: "distinct_keys m \<Longrightarrow> distinct_keys (AList.delete k m)"
  by (simp add: distinct_keys_def distinct_delete)

lemma AList_update_fresh: "k \<notin> hm_keys m \<Longrightarrow> AList.update k v m = m @ [(k, v)]"
  by (induction m) (auto simp: hm_keys_def)

lemma set_AList_update:
  "distinct_keys m \<Longrightarrow> (k', v') \<in> set (AList.update k v m) \<Longrightarrow> (k' = k \<and> v' = v) \<or> (k', v') \<in> set m"
  by (induction m) (auto split: if_splits)

lemma set_AList_delete: "set (AList.delete k m) \<subseteq> set m"
  by (induction m) auto

section \<open>Socket addresses and weights\<close>

text \<open>\<open>std::net::SocketAddr\<close>: an IP address and a port.\<close>

datatype IpAddr = V4 u32 | V6 u128

datatype SocketAddr = SocketAddr (sa_ip: IpAddr) (sa_port: u16)

text \<open>
  Adding up machine integers: where the sum of the values fits the width, the wrapping sum is the
  sum.
\<close>

lemma unat_sum_list:
  fixes ws :: "'a::len word list"
  assumes "sum_list (map unat ws) < 2 ^ LENGTH('a)"
  shows "unat (sum_list ws) = sum_list (map unat ws)"
  using assms
proof (induction ws)
  case (Cons w ws)
  then have "unat (sum_list ws) = sum_list (map unat ws)" by simp
  with Cons.prems show ?case by (simp add: unat_word_ariths)
qed simp

lemma sum_list_keys:
  fixes f :: "'k \<times> 'v \<Rightarrow> nat"
  assumes "distinct_keys m"
  shows "sum_list (map f m) = (\<Sum>k \<in> hm_keys m. f (k, the (map_of m k)))"
  using assms
proof (induction m)
  case (Cons kv m)
  obtain k v where kv: "kv = (k, v)" by (cases kv)
  have "(\<Sum>k' \<in> hm_keys m. f (k', the (map_of (kv # m) k')))
      = (\<Sum>k' \<in> hm_keys m. f (k', the (map_of m k')))"
    using Cons.prems kv by (intro sum.cong) auto
  moreover have "finite (hm_keys m)" by (simp add: hm_keys_def)
  ultimately show ?case using Cons kv by simp
qed simp

section \<open>Byte encodings\<close>

text \<open>
  \<open>u64::to_le_bytes\<close>, and byte arrays: a \<open>[u8; 32]\<close> is held as a big-endian 256-bit word (a
  \<open>[u8; 64]\<close> as a 512-bit word), so that the type has exactly the values of the array and its
  lexicographic order is the order of words.
\<close>

definition to_le_bytes :: "u64 \<Rightarrow> byte list" where
  "to_le_bytes x = map (\<lambda>i. ucast (drop_bit (8 * i) x)) [0..<8]"

definition be_bytes :: "nat \<Rightarrow> 'a::len word \<Rightarrow> byte list" where
  "be_bytes n x = map (\<lambda>i. ucast (drop_bit (8 * i) x)) (rev [0..<n])"

definition of_be_bytes :: "byte list \<Rightarrow> 'a::len word" where
  "of_be_bytes bs = foldl (\<lambda>acc b. push_bit 8 acc OR ucast b) 0 bs"

abbreviation bytes32 :: "256 word \<Rightarrow> byte list" where
  "bytes32 \<equiv> be_bytes 32"

abbreviation bytes64 :: "512 word \<Rightarrow> byte list" where
  "bytes64 \<equiv> be_bytes 64"

text \<open>\<open>as_slice()[..32].try_into().unwrap()\<close>: the first 32 bytes as a \<open>[u8; 32]\<close>.\<close>

definition first32 :: "byte list \<Rightarrow> 256 word" where
  "first32 bs = of_be_bytes (take 32 bs)"

lemma length_to_le_bytes [simp]: "length (to_le_bytes x) = 8"
  by (simp add: to_le_bytes_def)

lemma length_be_bytes [simp]: "length (be_bytes n x) = n"
  by (simp add: be_bytes_def)

lemma bit_to_le_bytes:
  assumes "n < 64"
  shows "bit (to_le_bytes x ! (n div 8)) (n mod 8) = bit x n"
proof -
  have "n div 8 < 8" using assms by simp
  moreover have "8 * (n div 8) + n mod 8 = n" by simp
  ultimately show ?thesis
    by (simp add: to_le_bytes_def bit_ucast_iff bit_drop_bit_eq)
qed

lemma to_le_bytes_inject [simp]: "to_le_bytes x = to_le_bytes y \<longleftrightarrow> x = y"
proof
  assume "to_le_bytes x = to_le_bytes y"
  then have "bit x n = bit y n" if "n < 64" for n
    using bit_to_le_bytes [OF that, of x] bit_to_le_bytes [OF that, of y] by simp
  then show "x = y" by (auto intro!: bit_word_eqI)
qed simp

lemma be_bytes_Suc: "be_bytes (Suc n) x = be_bytes n (drop_bit 8 x) @ [ucast x]"
proof -
  have "[0..<Suc n] = 0 # map Suc [0..<n]"
    by (simp add: map_Suc_upt upt_conv_Cons del: upt_Suc)
  then have "rev [0..<Suc n] = map Suc (rev [0..<n]) @ [0]"
    by (simp only: rev.simps rev_map)
  then show ?thesis by (simp add: be_bytes_def comp_def add.commute)
qed

lemma of_be_bytes_be_bytes: "of_be_bytes (be_bytes n (x :: 'a::len word)) = take_bit (8 * n) x"
proof (induction n arbitrary: x)
  case 0
  then show ?case by (simp add: of_be_bytes_def be_bytes_def)
next
  case (Suc n)
  have "of_be_bytes (be_bytes (Suc n) x)
      = push_bit 8 (take_bit (8 * n) (drop_bit 8 x)) OR (ucast (ucast x :: byte) :: 'a word)"
    using Suc [of "drop_bit 8 x"] by (simp add: be_bytes_Suc of_be_bytes_def)
  also have "\<dots> = take_bit (8 * Suc n) x"
    by (rule bit_word_eqI) (auto simp: bit_or_iff bit_push_bit_iff bit_take_bit_iff bit_drop_bit_eq
        bit_ucast_iff)
  finally show ?case .
qed

lemma be_bytes_of_be_bytes:
  assumes "8 * length bs \<le> LENGTH('a::len)"
  shows "be_bytes (length bs) (of_be_bytes bs :: 'a word) = bs"
  using assms
proof (induction bs rule: rev_induct)
  case Nil
  then show ?case by (simp add: be_bytes_def)
next
  case (snoc b bs)
  let ?A = "of_be_bytes bs :: 'a word" and ?y = "of_be_bytes (bs @ [b]) :: 'a word"
  have y: "?y = push_bit 8 ?A OR ucast b" by (simp add: of_be_bytes_def)
  have "ucast (drop_bit (8 * i) (drop_bit 8 ?y)) = (ucast (drop_bit (8 * i) ?A) :: byte)"
    if "i < length bs" for i
    using that snoc.prems
    by (intro bit_word_eqI)
      (auto simp: y bit_or_iff bit_push_bit_iff bit_drop_bit_eq bit_ucast_iff dest: bit_imp_le_length)
  then have "be_bytes (length bs) (drop_bit 8 ?y) = be_bytes (length bs) ?A"
    by (simp add: be_bytes_def)
  moreover have "(ucast ?y :: byte) = b"
    using snoc.prems
    by (intro bit_word_eqI) (auto simp: y bit_or_iff bit_push_bit_iff bit_ucast_iff)
  ultimately show ?case using snoc by (simp add: be_bytes_Suc)
qed

lemma bytes32_first32 [simp]: "length bs = 32 \<Longrightarrow> bytes32 (first32 bs) = bs"
  using be_bytes_of_be_bytes [where 'a = 256, of bs] by (simp add: first32_def)

lemma first32_bytes32 [simp]: "first32 (bytes32 x) = x"
  by (simp add: first32_def of_be_bytes_be_bytes take_bit_word_eq_self)

lemma bytes32_inject [simp]: "bytes32 x = bytes32 y \<longleftrightarrow> x = y"
  by (metis first32_bytes32)

end
