(* ===== verification/Crypto_Model.thy ===== *)
theory Crypto_Model
  imports Prelude
begin

text \<open>
  The crate \<open>crypto\<close> (\<open>crypto/src/lib.rs\<close>): digests, public and secret keys, signatures and the
  signature service. The libraries it calls (\<open>ed25519_dalek\<close>, its \<open>Sha512\<close>, \<open>base64\<close>) are the
  fields of the record \<open>crypto_env\<close>, an argument \<open>E\<close> of every definition that uses them. Later
  theories extend the record with the other libraries.
\<close>

section \<open>Third-party code as parameters\<close>

text \<open>
  \<open>ed_sign\<close> takes the 64 bytes of a keypair and a message and returns the 64 bytes of the
  signature, or \<open>None\<close> where \<open>Keypair::from_bytes\<close> fails; \<open>ed_sig_ok\<close> and \<open>ed_key_ok\<close> say where
  \<open>Signature::from_bytes\<close> and \<open>PublicKey::from_bytes\<close> succeed; \<open>ed_verify_strict\<close> takes key,
  message and signature; \<open>ed_verify_batch\<close> the messages, signatures and keys.
\<close>

datatype DecodeError = InvalidByte nat byte | InvalidLength | InvalidLastSymbol nat byte

datatype CryptoError = SignatureError

record crypto_env =
  sha512 :: "byte list \<Rightarrow> byte list"
  ed_sign :: "byte list \<Rightarrow> byte list \<Rightarrow> byte list option"
  ed_sig_ok :: "byte list \<Rightarrow> bool"
  ed_key_ok :: "byte list \<Rightarrow> bool"
  ed_verify_strict :: "byte list \<Rightarrow> byte list \<Rightarrow> byte list \<Rightarrow> bool"
  ed_verify_batch :: "byte list list \<Rightarrow> byte list list \<Rightarrow> byte list list \<Rightarrow> bool"
  b64_encode :: "byte list \<Rightarrow> string"
  b64_decode :: "string \<Rightarrow> (DecodeError, byte list) outcome"

section \<open>Digests\<close>

datatype Digest = Digest (digest_word: "256 word")

definition Digest_default :: Digest where
  "Digest_default = Digest 0"

definition Digest_to_vec :: "Digest \<Rightarrow> byte list" where
  "Digest_to_vec d = bytes32 (digest_word d)"

definition Digest_size :: "Digest \<Rightarrow> nat" where
  "Digest_size d = length (Digest_to_vec d)"

text \<open>\<open>Digest(hasher.finalize().as_slice()[..32].try_into().unwrap())\<close>, used by every digest.\<close>

definition sha_digest :: "'a crypto_env_scheme \<Rightarrow> byte list \<Rightarrow> Digest" where
  "sha_digest E bs = Digest (first32 (sha512 E bs))"

text \<open>\<open>TryFrom<&[u8]>\<close>: a slice of any other length is refused.\<close>

definition Digest_try_from :: "byte list \<Rightarrow> Digest option" where
  "Digest_try_from bs = (if length bs = 32 then Some (Digest (first32 bs)) else None)"

lemma length_Digest_to_vec [simp]: "length (Digest_to_vec d) = 32"
  by (simp add: Digest_to_vec_def)

lemma Digest_to_vec_inject [simp]: "Digest_to_vec d = Digest_to_vec d' \<longleftrightarrow> d = d'"
  by (cases d; cases d') (simp add: Digest_to_vec_def)

lemma Digest_try_from_to_vec [simp]: "Digest_try_from (Digest_to_vec d) = Some d"
  by (cases d) (simp add: Digest_try_from_def Digest_to_vec_def)

section \<open>Public and secret keys\<close>

datatype PublicKey = PublicKey (pk_word: "256 word")

datatype SecretKey = SecretKey (sk_word: "512 word")

definition pk_bytes :: "PublicKey \<Rightarrow> byte list" where
  "pk_bytes pk = bytes32 (pk_word pk)"

definition sk_bytes :: "SecretKey \<Rightarrow> byte list" where
  "sk_bytes sk = bytes64 (sk_word sk)"

lemma length_pk_bytes [simp]: "length (pk_bytes pk) = 32"
  by (simp add: pk_bytes_def)

lemma pk_bytes_inject [simp]: "pk_bytes a = pk_bytes b \<longleftrightarrow> a = b"
  by (cases a; cases b) (simp add: pk_bytes_def)

text \<open>\<open>derive(Ord, PartialOrd)\<close> on \<open>PublicKey\<close> and \<open>Digest\<close>: the order of the byte arrays.\<close>

instantiation PublicKey :: linorder
begin

definition less_eq_PublicKey :: "PublicKey \<Rightarrow> PublicKey \<Rightarrow> bool" where
  "a \<le> b \<longleftrightarrow> pk_word a \<le> pk_word b"

definition less_PublicKey :: "PublicKey \<Rightarrow> PublicKey \<Rightarrow> bool" where
  "a < b \<longleftrightarrow> pk_word a < pk_word b"

instance
  by standard (auto simp: less_eq_PublicKey_def less_PublicKey_def PublicKey.expand)

end

instantiation Digest :: linorder
begin

definition less_eq_Digest :: "Digest \<Rightarrow> Digest \<Rightarrow> bool" where
  "a \<le> b \<longleftrightarrow> digest_word a \<le> digest_word b"

definition less_Digest :: "Digest \<Rightarrow> Digest \<Rightarrow> bool" where
  "a < b \<longleftrightarrow> digest_word a < digest_word b"

instance
  by standard (auto simp: less_eq_Digest_def less_Digest_def Digest.expand)

end

lemma PublicKey_less_iff [simp]:
  "PublicKey a < PublicKey b \<longleftrightarrow> a < b" "PublicKey a \<le> PublicKey b \<longleftrightarrow> a \<le> b"
  by (simp_all add: less_PublicKey_def less_eq_PublicKey_def)

text \<open>
  \<open>decode_base64\<close> slices the decoded bytes before it converts them: a short input is a panic of
  the slice index, and bytes past the array's length are dropped.
\<close>

definition PublicKey_encode_base64 :: "'a crypto_env_scheme \<Rightarrow> PublicKey \<Rightarrow> string" where
  "PublicKey_encode_base64 E pk = b64_encode E (pk_bytes pk)"

definition PublicKey_decode_base64 ::
  "'a crypto_env_scheme \<Rightarrow> string \<Rightarrow> (DecodeError, PublicKey) outcome" where
  "PublicKey_decode_base64 E s =
     and_then (b64_decode E s) (\<lambda>bytes.
       if length bytes < 32 then Panic ''range end index 32 out of range''
       else Ok (PublicKey (first32 bytes)))"

definition SecretKey_encode_base64 :: "'a crypto_env_scheme \<Rightarrow> SecretKey \<Rightarrow> string" where
  "SecretKey_encode_base64 E sk = b64_encode E (sk_bytes sk)"

definition SecretKey_decode_base64 ::
  "'a crypto_env_scheme \<Rightarrow> string \<Rightarrow> (DecodeError, SecretKey) outcome" where
  "SecretKey_decode_base64 E s =
     and_then (b64_decode E s) (\<lambda>bytes.
       if length bytes < 64 then Panic ''range end index 64 out of range''
       else Ok (SecretKey (of_be_bytes (take 64 bytes))))"

definition SecretKey_drop :: "SecretKey \<Rightarrow> SecretKey" where
  "SecretKey_drop sk = SecretKey 0"

section \<open>Signatures\<close>

record Signature =
  part1 :: "256 word"
  part2 :: "256 word"

definition Signature_default :: Signature where
  "Signature_default = \<lparr>part1 = 0, part2 = 0\<rparr>"

definition Signature_flatten :: "Signature \<Rightarrow> byte list" where
  "Signature_flatten s = bytes32 (part1 s) @ bytes32 (part2 s)"

definition Signature_new ::
  "'a crypto_env_scheme \<Rightarrow> Digest \<Rightarrow> SecretKey \<Rightarrow> (CryptoError, Signature) outcome" where
  "Signature_new E d sk =
     (case ed_sign E (sk_bytes sk) (Digest_to_vec d) of
        None \<Rightarrow> Panic ''Unable to load secret key''
      | Some sig \<Rightarrow> Ok \<lparr>part1 = first32 sig, part2 = first32 (drop 32 sig)\<rparr>)"

definition Signature_verify ::
  "'a crypto_env_scheme \<Rightarrow> Signature \<Rightarrow> Digest \<Rightarrow> PublicKey \<Rightarrow> (CryptoError, unit) outcome" where
  "Signature_verify E s d pk =
     and_then (ensure (ed_sig_ok E (Signature_flatten s)) SignatureError) (\<lambda>_.
     and_then (ensure (ed_key_ok E (pk_bytes pk)) SignatureError) (\<lambda>_.
     ensure (ed_verify_strict E (pk_bytes pk) (Digest_to_vec d) (Signature_flatten s))
       SignatureError))"

text \<open>The loop of \<open>verify_batch\<close> that fills \<open>messages\<close>, \<open>signatures\<close> and \<open>keys\<close>.\<close>

fun batch_inputs ::
  "'a crypto_env_scheme \<Rightarrow> Digest \<Rightarrow> (PublicKey \<times> Signature) list \<Rightarrow> byte list list \<Rightarrow> byte list list
   \<Rightarrow> byte list list
   \<Rightarrow> (CryptoError, byte list list \<times> byte list list \<times> byte list list) outcome" where
  "batch_inputs E d [] ms ss ks = Ok (ms, ss, ks)"
| "batch_inputs E d ((key, s) # votes) ms ss ks =
     and_then (ensure (ed_sig_ok E (Signature_flatten s)) SignatureError) (\<lambda>_.
     and_then (ensure (ed_key_ok E (pk_bytes key)) SignatureError) (\<lambda>_.
     batch_inputs E d votes (ms @ [Digest_to_vec d]) (ss @ [Signature_flatten s])
       (ks @ [pk_bytes key])))"

definition Signature_verify_batch ::
  "'a crypto_env_scheme \<Rightarrow> Digest \<Rightarrow> (PublicKey \<times> Signature) list \<Rightarrow> (CryptoError, unit) outcome" where
  "Signature_verify_batch E d votes =
     and_then (batch_inputs E d votes [] [] []) (\<lambda>(ms, ss, ks).
     ensure (ed_verify_batch E ms ss ks) SignatureError)"

text \<open>
  The signature service is a task that owns the secret key and answers each request with a
  signature over the digest; a request is answered by \<open>Signature::new\<close>.
\<close>

definition request_signature ::
  "'a crypto_env_scheme \<Rightarrow> SecretKey \<Rightarrow> Digest \<Rightarrow> (CryptoError, Signature) outcome" where
  "request_signature E sk d = Signature_new E d sk"

section \<open>What the code relies on, and what follows\<close>

text \<open>
  Documented behaviour of the libraries, as named hypotheses. \<open>sign_correct\<close>: what a keypair
  signs verifies under its public key. \<open>batch_complete\<close>: a batch of signatures that verify one
  by one is accepted. \<open>base64_inverse\<close>: decoding undoes encoding.
\<close>

definition sign_correct :: "'a crypto_env_scheme \<Rightarrow> SecretKey \<Rightarrow> PublicKey \<Rightarrow> bool" where
  "sign_correct E sk pk \<longleftrightarrow>
     (\<forall>m. \<exists>sig. ed_sign E (sk_bytes sk) m = Some sig \<and> length sig = 64
        \<and> ed_sig_ok E sig \<and> ed_key_ok E (pk_bytes pk) \<and> ed_verify_strict E (pk_bytes pk) m sig)"

definition batch_complete :: "'a crypto_env_scheme \<Rightarrow> bool" where
  "batch_complete E \<longleftrightarrow>
     (\<forall>ms ss ks. length ms = length ss \<and> length ss = length ks
        \<and> list_all (\<lambda>(m, s, k). ed_verify_strict E k m s) (zip ms (zip ss ks))
        \<longrightarrow> ed_verify_batch E ms ss ks)"

definition base64_inverse :: "'a crypto_env_scheme \<Rightarrow> bool" where
  "base64_inverse E \<longleftrightarrow> (\<forall>bs. b64_decode E (b64_encode E bs) = Ok bs)"

lemma Signature_verify_iff:
  "Signature_verify E s d pk = Ok () \<longleftrightarrow>
     ed_sig_ok E (Signature_flatten s) \<and> ed_key_ok E (pk_bytes pk)
     \<and> ed_verify_strict E (pk_bytes pk) (Digest_to_vec d) (Signature_flatten s)"
  by (simp add: Signature_verify_def)

lemma completes_Signature_verify [simp]: "completes (Signature_verify E s d pk)"
  by (simp add: Signature_verify_def ensure_def)

lemma flatten_of_bytes:
  assumes "length sig = 64"
  shows "Signature_flatten \<lparr>part1 = first32 sig, part2 = first32 (drop 32 sig)\<rparr> = sig"
proof -
  have "bytes32 (first32 sig) = take 32 sig"
    using assms bytes32_first32 [of "take 32 sig"] by (simp add: first32_def)
  then show ?thesis using assms by (simp add: Signature_flatten_def)
qed

text \<open>A signature made by \<open>Signature::new\<close> verifies under the public key of its keypair.\<close>

lemma Signature_new_verifies:
  assumes "sign_correct E sk pk"
  obtains s where "Signature_new E d sk = Ok s" "Signature_verify E s d pk = Ok ()"
proof -
  from assms obtain sig where sig: "ed_sign E (sk_bytes sk) (Digest_to_vec d) = Some sig"
    "length sig = 64" "ed_sig_ok E sig" "ed_key_ok E (pk_bytes pk)"
    "ed_verify_strict E (pk_bytes pk) (Digest_to_vec d) sig"
    unfolding sign_correct_def by blast
  let ?s = "\<lparr>part1 = first32 sig, part2 = first32 (drop 32 sig)\<rparr>"
  have "Signature_new E d sk = Ok ?s" using sig(1) by (simp add: Signature_new_def)
  moreover have "Signature_verify E ?s d pk = Ok ()"
    using sig flatten_of_bytes [OF sig(2)] by (simp add: Signature_verify_iff)
  ultimately show ?thesis by (rule that)
qed

text \<open>\<open>verify_batch\<close> accepts every list of signatures that \<open>verify\<close> accepts one by one.\<close>

lemma batch_inputs_ok:
  assumes "\<forall>(pk, s) \<in> set votes. Signature_verify E s d pk = Ok ()"
  shows "batch_inputs E d votes ms ss ks =
    Ok (ms @ map (\<lambda>_. Digest_to_vec d) votes, ss @ map (Signature_flatten \<circ> snd) votes,
        ks @ map (pk_bytes \<circ> fst) votes)"
  using assms
proof (induction votes arbitrary: ms ss ks)
  case (Cons v votes)
  then show ?case by (cases v) (simp add: Signature_verify_iff)
qed simp

lemma Signature_verify_batch_ok:
  assumes "batch_complete E"
    and "\<forall>(pk, s) \<in> set votes. Signature_verify E s d pk = Ok ()"
  shows "Signature_verify_batch E d votes = Ok ()"
proof -
  have "list_all (\<lambda>(m, s, k). ed_verify_strict E k m s)
      (zip (map (\<lambda>_. Digest_to_vec d) votes)
        (zip (map (Signature_flatten \<circ> snd) votes) (map (pk_bytes \<circ> fst) votes)))"
    using assms(2) by (induction votes) (auto simp: Signature_verify_iff)
  then have "ed_verify_batch E (map (\<lambda>_. Digest_to_vec d) votes)
      (map (Signature_flatten \<circ> snd) votes) (map (pk_bytes \<circ> fst) votes)"
    using assms(1) unfolding batch_complete_def by simp
  then show ?thesis
    using batch_inputs_ok [OF assms(2), of "[]" "[]" "[]"]
    by (simp add: Signature_verify_batch_def)
qed

lemma completes_batch_inputs [simp]: "completes (batch_inputs E d votes ms ss ks)"
proof (induction votes arbitrary: ms ss ks)
  case (Cons v votes)
  then show ?case by (cases v) (simp add: ensure_def)
qed simp

lemma completes_Signature_verify_batch [simp]: "completes (Signature_verify_batch E d votes)"
  unfolding Signature_verify_batch_def by (rule completes_and_then) (auto split: prod.split)

end
