(* ===== verification/Quorum_System.thy ===== *)
theory Quorum_System
  imports Main
begin

text \<open>
  The contract between a committee and the code that counts stake: the sets that count as a
  quorum are the sets of members that hold more than two thirds of the stake. Both committees of
  the program (\<open>consensus/src/config.rs\<close> and \<open>mempool/src/config.rs\<close>) provide it; certificates
  and the safety arguments use it.
\<close>

locale quorum_system =
  fixes valid :: "'c \<Rightarrow> bool"
    and members :: "'c \<Rightarrow> 'p set"
    and weight :: "'c \<Rightarrow> 'p \<Rightarrow> nat"
    and quorum :: "'c \<Rightarrow> 'p set \<Rightarrow> bool"
  assumes finite_members: "valid c \<Longrightarrow> finite (members c)"
    and quorum_iff: "valid c \<Longrightarrow>
      quorum c S \<longleftrightarrow> S \<subseteq> members c \<and> 2 * sum (weight c) (members c) < 3 * sum (weight c) S"
begin

lemma finite_subset_members: "valid c \<Longrightarrow> S \<subseteq> members c \<Longrightarrow> finite S"
  using finite_members finite_subset by blast

text \<open>Two quorums share more than a third of the stake.\<close>

lemma intersection_weight:
  assumes v: "valid c" and S: "quorum c S" and T: "quorum c T"
  shows "sum (weight c) (members c) < 3 * sum (weight c) (S \<inter> T)"
proof -
  have sub: "S \<subseteq> members c" "T \<subseteq> members c"
    and big: "2 * sum (weight c) (members c) < 3 * sum (weight c) S"
      "2 * sum (weight c) (members c) < 3 * sum (weight c) T"
    using S T quorum_iff [OF v] by auto
  have fin: "finite S" "finite T" using finite_subset_members [OF v] sub by auto
  have "sum (weight c) (S \<union> T) \<le> sum (weight c) (members c)"
    using sub finite_members [OF v] by (intro sum_mono2) auto
  moreover have "sum (weight c) S + sum (weight c) T
      = sum (weight c) (S \<union> T) + sum (weight c) (S \<inter> T)"
    using fin by (simp add: sum.union_inter)
  ultimately show ?thesis using big by linarith
qed

text \<open>If at most a third of the stake is faulty, two quorums share a correct member.\<close>

lemma correct_in_both:
  assumes v: "valid c" and S: "quorum c S" and T: "quorum c T"
    and B: "B \<subseteq> members c" "3 * sum (weight c) B \<le> sum (weight c) (members c)"
  shows "\<exists>p. p \<in> S \<and> p \<in> T \<and> p \<notin> B"
proof (rule ccontr)
  assume "\<not> ?thesis"
  then have "S \<inter> T \<subseteq> B" by blast
  then have "sum (weight c) (S \<inter> T) \<le> sum (weight c) B"
    using finite_subset_members [OF v B(1)] by (intro sum_mono2) auto
  with intersection_weight [OF v S T] B(2) show False by linarith
qed

text \<open>If less than a third of the stake is faulty, the correct members are a quorum.\<close>

lemma correct_quorum:
  assumes v: "valid c"
    and B: "B \<subseteq> members c" "3 * sum (weight c) B < sum (weight c) (members c)"
  shows "quorum c (members c - B)"
proof -
  have "sum (weight c) (members c - B) + sum (weight c) B = sum (weight c) (members c)"
    using finite_members [OF v] B(1)
    by (metis add.commute sum.subset_diff)
  then show ?thesis using B quorum_iff [OF v] by auto
qed

lemma quorum_mono:
  assumes "valid c" "quorum c S" "S \<subseteq> T" "T \<subseteq> members c"
  shows "quorum c T"
proof -
  have "sum (weight c) S \<le> sum (weight c) T"
    using assms finite_subset_members by (intro sum_mono2) auto
  with assms show ?thesis using quorum_iff [OF assms(1)] by auto
qed

text \<open>A set that misses a quorum is not one: what is left after a quorum never makes another.\<close>

lemma disjoint_not_quorum:
  assumes "valid c" "quorum c S" "S \<inter> T = {}"
  shows "\<not> quorum c T"
proof
  assume "quorum c T"
  from intersection_weight [OF assms(1,2) this] assms(3) show False by simp
qed

end

end
