(* ===== verification/Committee_Model.thy ===== *)
theory Committee_Model
  imports Crypto_Model Quorum_System
begin

text \<open>
  The consensus committee (\<open>consensus/src/config.rs\<close>) and the round-robin leader election
  (\<open>consensus/src/leader.rs\<close>). Stake is a \<open>u32\<close> and its arithmetic wraps, as in a release build;
  \<open>committee_valid\<close> is the condition under which nothing wraps.
\<close>

type_synonym Stake = u32
type_synonym EpochNumber = u128
type_synonym Round = u64

record Parameters =
  timeout_delay :: u64
  sync_retry_delay :: u64

definition Parameters_default :: Parameters where
  "Parameters_default = \<lparr>timeout_delay = 5000, sync_retry_delay = 10000\<rparr>"

record Authority =
  au_stake :: Stake
  au_address :: SocketAddr

record Committee =
  authorities :: "(PublicKey \<times> Authority) list"
  epoch :: EpochNumber

definition Committee_new ::
  "(PublicKey \<times> Stake \<times> SocketAddr) list \<Rightarrow> EpochNumber \<Rightarrow> Committee" where
  "Committee_new info ep =
     \<lparr>authorities =
        fold (\<lambda>(name, stake, address) m.
          AList.update name \<lparr>au_stake = stake, au_address = address\<rparr> m) info [],
      epoch = ep\<rparr>"

definition committee_size :: "Committee \<Rightarrow> nat" where
  "committee_size com = length (authorities com)"

definition committee_stake :: "Committee \<Rightarrow> PublicKey \<Rightarrow> Stake" where
  "committee_stake com name = (case map_of (authorities com) name of None \<Rightarrow> 0 | Some x \<Rightarrow> au_stake x)"

definition total_votes :: "Committee \<Rightarrow> Stake" where
  "total_votes com = sum_list (map (\<lambda>(_, x). au_stake x) (authorities com))"

definition quorum_threshold :: "Committee \<Rightarrow> Stake" where
  "quorum_threshold com = 2 * total_votes com div 3 + 1"

definition committee_address :: "Committee \<Rightarrow> PublicKey \<Rightarrow> SocketAddr option" where
  "committee_address com name = map_option au_address (map_of (authorities com) name)"

definition broadcast_addresses :: "Committee \<Rightarrow> PublicKey \<Rightarrow> (PublicKey \<times> SocketAddr) list" where
  "broadcast_addresses com myself =
     map (\<lambda>(name, x). (name, au_address x))
       (filter (\<lambda>(name, _). name \<noteq> myself) (authorities com))"

text \<open>\<open>RRLeaderElector::get_leader\<close>: the remainder by the size panics for an empty committee.\<close>

definition get_leader :: "Committee \<Rightarrow> Round \<Rightarrow> ('e, PublicKey) outcome" where
  "get_leader com round =
     (let keys = sort (map fst (authorities com))
      in if committee_size com = 0
         then Panic ''attempt to calculate the remainder with a divisor of zero''
         else Ok (keys ! (unat round mod committee_size com)))"

section \<open>Stake without overflow\<close>

definition total_stake :: "Committee \<Rightarrow> nat" where
  "total_stake com = sum_list (map (\<lambda>(_, x). unat (au_stake x)) (authorities com))"

definition committee_valid :: "Committee \<Rightarrow> bool" where
  "committee_valid com \<longleftrightarrow> distinct_keys (authorities com) \<and> 2 * total_stake com < 2 ^ 32"

definition committee_members :: "Committee \<Rightarrow> PublicKey set" where
  "committee_members com = hm_keys (authorities com)"

definition stake_of :: "Committee \<Rightarrow> PublicKey \<Rightarrow> nat" where
  "stake_of com name = unat (committee_stake com name)"

definition stake_quorum :: "Committee \<Rightarrow> PublicKey set \<Rightarrow> bool" where
  "stake_quorum com S \<longleftrightarrow>
     S \<subseteq> committee_members com \<and> unat (quorum_threshold com) \<le> sum (stake_of com) S"

lemma finite_committee_members [simp]: "finite (committee_members com)"
  by (simp add: committee_members_def hm_keys_def)

lemma stake_pos_member: "committee_stake com name > 0 \<Longrightarrow> name \<in> committee_members com"
  by (auto simp: committee_stake_def committee_members_def split: option.splits dest: hm_keys_Some)

lemma unat_total_votes_fits:
  assumes "total_stake com < 2 ^ 32"
  shows "unat (total_votes com) = total_stake com"
proof -
  have "sum_list (map unat (map (\<lambda>(_, x). au_stake x) (authorities com))) = total_stake com"
    by (simp add: total_stake_def comp_def case_prod_unfold)
  then show ?thesis
    using assms unat_sum_list [of "map (\<lambda>(_, x). au_stake x) (authorities com)"] by (simp add: total_votes_def)
qed

lemma unat_total_votes: "committee_valid com \<Longrightarrow> unat (total_votes com) = total_stake com"
  by (rule unat_total_votes_fits) (simp add: committee_valid_def)

lemma unat_quorum_threshold:
  assumes "committee_valid com"
  shows "unat (quorum_threshold com) = 2 * total_stake com div 3 + 1"
proof -
  have "unat (2 * total_votes com) = 2 * total_stake com"
    using assms unat_total_votes [OF assms]
    by (simp add: unat_word_ariths committee_valid_def)
  moreover have "2 * total_stake com div 3 + 1 < 2 ^ 32"
    using assms by (simp add: committee_valid_def) linarith
  ultimately show ?thesis
    by (simp add: quorum_threshold_def unat_word_ariths unat_div)
qed

lemma sum_members:
  assumes "committee_valid com"
  shows "sum (stake_of com) (committee_members com) = total_stake com"
proof -
  have "the (map_of (authorities com) k) = x \<Longrightarrow> k \<in> committee_members com \<Longrightarrow>
      stake_of com k = unat (au_stake x)" for k x
    by (auto simp: stake_of_def committee_stake_def committee_members_def
        split: option.splits)
  then show ?thesis
    using assms sum_list_keys [of "authorities com" "\<lambda>(_, x). unat (au_stake x)"]
    by (simp add: total_stake_def committee_valid_def committee_members_def cong: sum.cong)
qed

text \<open>The committee provides the quorum contract.\<close>

interpretation committee_quorums:
  quorum_system committee_valid committee_members stake_of stake_quorum
proof unfold_locales
  fix c S
  assume v: "committee_valid c"
  then show "finite (committee_members c)" by simp
  have "2 * t div 3 + 1 \<le> w \<longleftrightarrow> 2 * t < 3 * w" for t w :: nat by presburger
  then show "stake_quorum c S \<longleftrightarrow> S \<subseteq> committee_members c
      \<and> 2 * sum (stake_of c) (committee_members c) < 3 * sum (stake_of c) S"
    using unat_quorum_threshold [OF v] sum_members [OF v] by (simp add: stake_quorum_def)
qed

text \<open>
  What the checks of the code establish for a list of names: distinct names whose wrapping
  stake reaches the threshold are a quorum.
\<close>

definition names_weight :: "Committee \<Rightarrow> PublicKey list \<Rightarrow> Stake" where
  "names_weight com names = sum_list (map (committee_stake com) names)"

lemma names_weight_simps [simp]:
  "names_weight com [] = 0"
  "names_weight com (names @ [x]) = names_weight com names + committee_stake com x"
  by (simp_all add: names_weight_def)

lemma unat_names_weight:
  assumes v: "committee_valid com" and d: "distinct names"
    and sub: "set names \<subseteq> committee_members com"
  shows "unat (names_weight com names) = sum (stake_of com) (set names)"
proof -
  have "sum_list (map unat (map (committee_stake com) names)) = sum (stake_of com) (set names)"
    using d by (simp add: comp_def stake_of_def sum_list_distinct_conv_sum_set)
  moreover have "sum (stake_of com) (set names) \<le> total_stake com"
    unfolding sum_members [OF v, symmetric] using sub by (intro sum_mono2) auto
  then have "sum (stake_of com) (set names) < 2 ^ 32"
    using v by (simp add: committee_valid_def)
  ultimately show ?thesis
    using unat_sum_list [of "map (committee_stake com) names"] by (simp add: names_weight_def)
qed

lemma names_quorum_iff:
  assumes "committee_valid com" "distinct names" "set names \<subseteq> committee_members com"
  shows "quorum_threshold com \<le> names_weight com names \<longleftrightarrow> stake_quorum com (set names)"
  using unat_names_weight [OF assms] assms(3) by (simp add: stake_quorum_def word_le_nat_alt)

lemma quorum_threshold_pos: "committee_valid com \<Longrightarrow> quorum_threshold com > 0"
  by (metis Suc_eq_plus1 Zero_not_Suc unat_0 unat_quorum_threshold word_gt_0)

section \<open>Leaders\<close>

lemma sort_perm_eq:
  assumes "distinct (map fst (authorities com))"
    and "set (authorities com) = set (authorities com')"
    and "distinct (map fst (authorities com'))"
  shows "sort (map fst (authorities com)) = sort (map fst (authorities com'))"
proof -
  have "set (map fst (authorities com)) = set (map fst (authorities com'))"
    using assms(2) by (metis list.set_map)
  then show ?thesis
    using assms(1,3) by (metis distinct_sort set_sort sorted_distinct_set_unique sorted_sort)
qed

lemma get_leader_member:
  assumes "get_leader com r = Ok pk"
  shows "pk \<in> committee_members com"
proof -
  let ?keys = "sort (map fst (authorities com))"
  have n: "committee_size com \<noteq> 0" and pk: "pk = ?keys ! (unat r mod committee_size com)"
    using assms by (auto simp: get_leader_def Let_def split: if_splits)
  have "unat r mod committee_size com < length ?keys"
    using n by (simp add: committee_size_def)
  then have "pk \<in> set ?keys" unfolding pk by (rule nth_mem)
  then show ?thesis by (simp add: committee_members_def hm_keys_def)
qed

end
