(* ===== verification/Messages.thy ===== *)
theory Messages
  imports Committee_Model
begin

text \<open>
  The messages of the protocol (\<open>consensus/src/messages.rs\<close>), their digests and their checks, and
  the errors of \<open>consensus/src/error.rs\<close>. A field \<open>f\<close> of the struct \<open>Block\<close> is \<open>b_f\<close>, of \<open>Vote\<close>
  \<open>v_f\<close>, of \<open>QC\<close> \<open>qc_f\<close>, of \<open>Timeout\<close> \<open>t_f\<close>, of \<open>TC\<close> \<open>tc_f\<close>.
\<close>

datatype ConsensusError =
    NetworkError string
  | SerializationError string
  | StoreError string
  | NotInCommittee PublicKey
  | InvalidSignature CryptoError
  | AuthorityReuse PublicKey
  | UnknownAuthority PublicKey
  | QCRequiresQuorum
  | TCRequiresQuorum
  | MalformedBlock Digest
  | WrongLeader Digest PublicKey Round
  | InvalidPayload

record QC =
  qc_hash :: Digest
  qc_round :: Round
  qc_votes :: "(PublicKey \<times> Signature) list"

record TC =
  tc_round :: Round
  tc_votes :: "(PublicKey \<times> Signature \<times> Round) list"

record Block =
  b_qc :: QC
  b_tc :: "TC option"
  b_author :: PublicKey
  b_round :: Round
  b_payload :: "Digest list"
  b_signature :: Signature

record Vote =
  v_hash :: Digest
  v_round :: Round
  v_author :: PublicKey
  v_signature :: Signature

record Timeout =
  t_high_qc :: QC
  t_round :: Round
  t_author :: PublicKey
  t_signature :: Signature

section \<open>Conversion of errors\<close>

text \<open>\<open>?\<close> on a \<open>CryptoError\<close> inside a \<open>ConsensusResult\<close>: the \<open>From\<close> instance of \<open>InvalidSignature\<close>.\<close>

fun from_crypto :: "(CryptoError, 'a) outcome \<Rightarrow> (ConsensusError, 'a) outcome" where
  "from_crypto (Ok a) = Ok a"
| "from_crypto (Err e) = Err (InvalidSignature e)"
| "from_crypto (Panic m) = Panic m"
| "from_crypto Hang = Hang"

lemma from_crypto_Ok [simp]: "from_crypto m = Ok a \<longleftrightarrow> m = Ok a"
  by (cases m) auto

lemma completes_from_crypto [simp]: "completes (from_crypto m) = completes m"
  by (cases m) auto

section \<open>Quorum certificates\<close>

definition QC_genesis :: QC where
  "QC_genesis = \<lparr>qc_hash = Digest_default, qc_round = 0, qc_votes = []\<rparr>"

text \<open>\<open>PartialEq for QC\<close> compares hash and round only.\<close>

definition QC_eq :: "QC \<Rightarrow> QC \<Rightarrow> bool" where
  "QC_eq a b \<longleftrightarrow> qc_hash a = qc_hash b \<and> qc_round a = qc_round b"

definition QC_timeout :: "QC \<Rightarrow> bool" where
  "QC_timeout qc \<longleftrightarrow> qc_hash qc = Digest_default \<and> qc_round qc \<noteq> 0"

definition QC_preimage :: "QC \<Rightarrow> byte list" where
  "QC_preimage qc = Digest_to_vec (qc_hash qc) @ to_le_bytes (qc_round qc)"

definition QC_digest :: "'a crypto_env_scheme \<Rightarrow> QC \<Rightarrow> Digest" where
  "QC_digest E qc = sha_digest E (QC_preimage qc)"

text \<open>
  The loop over the voters, shared word for word by \<open>QC::verify\<close> and \<open>TC::verify\<close>: \<open>used\<close> and
  \<open>weight\<close> are the loop's variables.
\<close>

fun check_voters ::
  "Committee \<Rightarrow> PublicKey list \<Rightarrow> PublicKey set \<Rightarrow> Stake \<Rightarrow> (ConsensusError, Stake) outcome" where
  "check_voters com [] used weight = Ok weight"
| "check_voters com (name # names) used weight =
     and_then (ensure (name \<notin> used) (AuthorityReuse name)) (\<lambda>_.
     and_then (ensure (committee_stake com name > 0) (UnknownAuthority name)) (\<lambda>_.
     check_voters com names (insert name used) (weight + committee_stake com name)))"

definition QC_verify ::
  "'a crypto_env_scheme \<Rightarrow> QC \<Rightarrow> Committee \<Rightarrow> (ConsensusError, unit) outcome" where
  "QC_verify E qc com =
     and_then (check_voters com (map fst (qc_votes qc)) {} 0) (\<lambda>weight.
     and_then (ensure (weight \<ge> quorum_threshold com) QCRequiresQuorum) (\<lambda>_.
     from_crypto (Signature_verify_batch E (QC_digest E qc) (qc_votes qc))))"

section \<open>Timeout certificates\<close>

text \<open>The digest a timeout's author signed: the round and the round of its highest QC.\<close>

definition timeout_preimage :: "Round \<Rightarrow> Round \<Rightarrow> byte list" where
  "timeout_preimage round high_qc_round = to_le_bytes round @ to_le_bytes high_qc_round"

fun check_tc_signatures ::
  "'a crypto_env_scheme \<Rightarrow> Round \<Rightarrow> (PublicKey \<times> Signature \<times> Round) list \<Rightarrow>
   (ConsensusError, unit) outcome" where
  "check_tc_signatures E round [] = Ok ()"
| "check_tc_signatures E round ((author, signature, high_qc_round) # votes) =
     and_then (from_crypto (Signature_verify E signature
       (sha_digest E (timeout_preimage round high_qc_round)) author)) (\<lambda>_.
     check_tc_signatures E round votes)"

definition TC_verify ::
  "'a crypto_env_scheme \<Rightarrow> TC \<Rightarrow> Committee \<Rightarrow> (ConsensusError, unit) outcome" where
  "TC_verify E tc com =
     and_then (check_voters com (map fst (tc_votes tc)) {} 0) (\<lambda>weight.
     and_then (ensure (weight \<ge> quorum_threshold com) TCRequiresQuorum) (\<lambda>_.
     check_tc_signatures E (tc_round tc) (tc_votes tc)))"

definition high_qc_rounds :: "TC \<Rightarrow> Round list" where
  "high_qc_rounds tc = map (\<lambda>(_, _, r). r) (tc_votes tc)"

section \<open>Blocks\<close>

definition Block_genesis :: Block where
  "Block_genesis = \<lparr>b_qc = QC_genesis, b_tc = None, b_author = PublicKey 0, b_round = 0,
     b_payload = [], b_signature = Signature_default\<rparr>"

definition Block_parent :: "Block \<Rightarrow> Digest" where
  "Block_parent b = qc_hash (b_qc b)"

definition Block_preimage :: "Block \<Rightarrow> byte list" where
  "Block_preimage b = pk_bytes (b_author b) @ to_le_bytes (b_round b)
     @ concat (map Digest_to_vec (b_payload b)) @ Digest_to_vec (qc_hash (b_qc b))"

definition Block_digest :: "'a crypto_env_scheme \<Rightarrow> Block \<Rightarrow> Digest" where
  "Block_digest E b = sha_digest E (Block_preimage b)"

definition Block_new ::
  "'a crypto_env_scheme \<Rightarrow> QC \<Rightarrow> TC option \<Rightarrow> PublicKey \<Rightarrow> Round \<Rightarrow> Digest list \<Rightarrow> SecretKey \<Rightarrow>
   (ConsensusError, Block) outcome" where
  "Block_new E qc tc author round payload sk =
     (let block = \<lparr>b_qc = qc, b_tc = tc, b_author = author, b_round = round,
                   b_payload = payload, b_signature = Signature_default\<rparr>
      in and_then (from_crypto (request_signature E sk (Block_digest E block))) (\<lambda>signature.
         Ok (block\<lparr>b_signature := signature\<rparr>)))"

definition Block_verify ::
  "'a crypto_env_scheme \<Rightarrow> Block \<Rightarrow> Committee \<Rightarrow> (ConsensusError, unit) outcome" where
  "Block_verify E b com =
     and_then (ensure (committee_stake com (b_author b) > 0) (UnknownAuthority (b_author b))) (\<lambda>_.
     and_then (from_crypto
       (Signature_verify E (b_signature b) (Block_digest E b) (b_author b))) (\<lambda>_.
     and_then (if \<not> QC_eq (b_qc b) QC_genesis then QC_verify E (b_qc b) com else Ok ()) (\<lambda>_.
     (case b_tc b of
        Some tc \<Rightarrow> TC_verify E tc com
      | None \<Rightarrow> if b_round b > 5 \<and> b_payload b = [] then Err InvalidPayload else Ok ()))))"

section \<open>Votes\<close>

definition Vote_preimage :: "Vote \<Rightarrow> byte list" where
  "Vote_preimage v = Digest_to_vec (v_hash v) @ to_le_bytes (v_round v)"

definition Vote_digest :: "'a crypto_env_scheme \<Rightarrow> Vote \<Rightarrow> Digest" where
  "Vote_digest E v = sha_digest E (Vote_preimage v)"

definition Vote_new ::
  "'a crypto_env_scheme \<Rightarrow> Block \<Rightarrow> PublicKey \<Rightarrow> SecretKey \<Rightarrow> (ConsensusError, Vote) outcome" where
  "Vote_new E b author sk =
     (let vote = \<lparr>v_hash = Block_digest E b, v_round = b_round b, v_author = author,
                  v_signature = Signature_default\<rparr>
      in and_then (from_crypto (request_signature E sk (Vote_digest E vote))) (\<lambda>signature.
         Ok (vote\<lparr>v_signature := signature\<rparr>)))"

definition Vote_verify ::
  "'a crypto_env_scheme \<Rightarrow> Vote \<Rightarrow> Committee \<Rightarrow> (ConsensusError, unit) outcome" where
  "Vote_verify E v com =
     and_then (ensure (committee_stake com (v_author v) > 0) (UnknownAuthority (v_author v))) (\<lambda>_.
     from_crypto (Signature_verify E (v_signature v) (Vote_digest E v) (v_author v)))"

section \<open>Timeouts\<close>

definition Timeout_digest :: "'a crypto_env_scheme \<Rightarrow> Timeout \<Rightarrow> Digest" where
  "Timeout_digest E t = sha_digest E (timeout_preimage (t_round t) (qc_round (t_high_qc t)))"

definition Timeout_new ::
  "'a crypto_env_scheme \<Rightarrow> QC \<Rightarrow> Round \<Rightarrow> PublicKey \<Rightarrow> SecretKey \<Rightarrow>
   (ConsensusError, Timeout) outcome" where
  "Timeout_new E high_qc round author sk =
     (let timeout = \<lparr>t_high_qc = high_qc, t_round = round, t_author = author,
                     t_signature = Signature_default\<rparr>
      in and_then (from_crypto (request_signature E sk (Timeout_digest E timeout))) (\<lambda>signature.
         Ok (timeout\<lparr>t_signature := signature\<rparr>)))"

definition Timeout_verify ::
  "'a crypto_env_scheme \<Rightarrow> Timeout \<Rightarrow> Committee \<Rightarrow> (ConsensusError, unit) outcome" where
  "Timeout_verify E t com =
     and_then (ensure (committee_stake com (t_author t) > 0) (UnknownAuthority (t_author t))) (\<lambda>_.
     and_then (from_crypto
       (Signature_verify E (t_signature t) (Timeout_digest E t) (t_author t))) (\<lambda>_.
     if \<not> QC_eq (t_high_qc t) QC_genesis then QC_verify E (t_high_qc t) com else Ok ()))"

section \<open>What the checks accept\<close>

lemma check_voters_Ok_iff:
  "check_voters com names used w = Ok w' \<longleftrightarrow>
     distinct names \<and> set names \<inter> used = {}
     \<and> (\<forall>n \<in> set names. committee_stake com n > 0) \<and> w' = w + names_weight com names"
  by (induction names arbitrary: used w)
    (auto simp: names_weight_def add.assoc)

lemma completes_check_voters [simp]: "completes (check_voters com names used w)"
  by (induction names arbitrary: used w) (simp_all add: ensure_def)

lemma check_voters_members:
  assumes "check_voters com names used w = Ok w'"
  shows "set names \<subseteq> committee_members com"
  using assms stake_pos_member by (auto simp: check_voters_Ok_iff)

lemma QC_verify_Ok_iff:
  "QC_verify E qc com = Ok () \<longleftrightarrow>
     distinct (map fst (qc_votes qc))
     \<and> (\<forall>n \<in> fst ` set (qc_votes qc). committee_stake com n > 0)
     \<and> quorum_threshold com \<le> names_weight com (map fst (qc_votes qc))
     \<and> Signature_verify_batch E (QC_digest E qc) (qc_votes qc) = Ok ()"
  by (auto simp: QC_verify_def and_then_Ok_iff check_voters_Ok_iff)

lemma check_tc_signatures_Ok_iff:
  "check_tc_signatures E round votes = Ok () \<longleftrightarrow>
     (\<forall>(a, s, r) \<in> set votes.
        Signature_verify E s (sha_digest E (timeout_preimage round r)) a = Ok ())"
  by (induction votes) (auto simp: and_then_Ok_iff)

lemma TC_verify_Ok_iff:
  "TC_verify E tc com = Ok () \<longleftrightarrow>
     distinct (map fst (tc_votes tc))
     \<and> (\<forall>n \<in> fst ` set (tc_votes tc). committee_stake com n > 0)
     \<and> quorum_threshold com \<le> names_weight com (map fst (tc_votes tc))
     \<and> check_tc_signatures E (tc_round tc) (tc_votes tc) = Ok ()"
  by (auto simp: TC_verify_def and_then_Ok_iff check_voters_Ok_iff)

lemma completes_check_tc_signatures [simp]: "completes (check_tc_signatures E round votes)"
  by (induction E round votes rule: check_tc_signatures.induct) (auto intro: completes_and_then)

lemma completes_QC_verify [simp]: "completes (QC_verify E qc com)"
  by (auto simp: QC_verify_def intro!: completes_and_then)

lemma completes_TC_verify [simp]: "completes (TC_verify E tc com)"
  by (auto simp: TC_verify_def intro!: completes_and_then)

lemma completes_Block_verify [simp]: "completes (Block_verify E b com)"
  by (auto simp: Block_verify_def intro!: completes_and_then split: option.split)

lemma completes_Vote_verify [simp]: "completes (Vote_verify E v com)"
  by (auto simp: Vote_verify_def intro!: completes_and_then)

lemma completes_Timeout_verify [simp]: "completes (Timeout_verify E t com)"
  by (auto simp: Timeout_verify_def intro!: completes_and_then)

lemma Vote_verify_Ok_iff:
  "Vote_verify E v com = Ok () \<longleftrightarrow>
     committee_stake com (v_author v) > 0
     \<and> Signature_verify E (v_signature v) (Vote_digest E v) (v_author v) = Ok ()"
  by (simp add: Vote_verify_def)

lemma Timeout_verify_Ok_iff:
  "Timeout_verify E t com = Ok () \<longleftrightarrow>
     committee_stake com (t_author t) > 0
     \<and> Signature_verify E (t_signature t) (Timeout_digest E t) (t_author t) = Ok ()
     \<and> (QC_eq (t_high_qc t) QC_genesis \<or> QC_verify E (t_high_qc t) com = Ok ())"
  by (auto simp: Timeout_verify_def and_then_Ok_iff)

lemma Block_verify_Ok_iff:
  "Block_verify E b com = Ok () \<longleftrightarrow>
     committee_stake com (b_author b) > 0
     \<and> Signature_verify E (b_signature b) (Block_digest E b) (b_author b) = Ok ()
     \<and> (QC_eq (b_qc b) QC_genesis \<or> QC_verify E (b_qc b) com = Ok ())
     \<and> (case b_tc b of Some tc \<Rightarrow> TC_verify E tc com = Ok ()
         | None \<Rightarrow> b_round b \<le> 5 \<or> b_payload b \<noteq> [])"
  by (auto simp: Block_verify_def and_then_Ok_iff linorder_not_less split: option.split)

text \<open>A certificate that passes its check is signed by a quorum of the committee.\<close>

definition qc_signers :: "QC \<Rightarrow> PublicKey set" where
  "qc_signers qc = fst ` set (qc_votes qc)"

definition tc_signers :: "TC \<Rightarrow> PublicKey set" where
  "tc_signers tc = fst ` set (tc_votes tc)"

lemma QC_verify_quorum:
  assumes "committee_valid com" and "QC_verify E qc com = Ok ()"
  shows "stake_quorum com (qc_signers qc)"
proof -
  from assms(2) have "distinct (map fst (qc_votes qc))"
    and "quorum_threshold com \<le> names_weight com (map fst (qc_votes qc))"
    and "set (map fst (qc_votes qc)) \<subseteq> committee_members com"
    using stake_pos_member by (auto simp: QC_verify_Ok_iff)
  with names_quorum_iff [OF assms(1)] show ?thesis by (simp add: qc_signers_def)
qed

lemma TC_verify_quorum:
  assumes "committee_valid com" and "TC_verify E tc com = Ok ()"
  shows "stake_quorum com (tc_signers tc)"
proof -
  from assms(2) have "distinct (map fst (tc_votes tc))"
    and "quorum_threshold com \<le> names_weight com (map fst (tc_votes tc))"
    and "set (map fst (tc_votes tc)) \<subseteq> committee_members com"
    using stake_pos_member by (auto simp: TC_verify_Ok_iff)
  with names_quorum_iff [OF assms(1)] show ?thesis by (simp add: tc_signers_def)
qed

text \<open>The \<open>expect("Empty TC")\<close> of \<open>make_vote\<close> cannot fail on a certificate that was checked.\<close>

lemma TC_verify_nonempty:
  assumes "committee_valid com" and "TC_verify E tc com = Ok ()"
  shows "high_qc_rounds tc \<noteq> []"
  using TC_verify_quorum [OF assms] quorum_threshold_pos [OF assms(1)] assms(2)
  by (auto simp: high_qc_rounds_def TC_verify_Ok_iff)

section \<open>Messages made by this node pass the checks\<close>

lemma Vote_new_Ok:
  "Vote_new E b author sk = Ok v \<Longrightarrow>
     v_hash v = Block_digest E b \<and> v_round v = b_round b \<and> v_author v = author"
  by (auto simp: Vote_new_def Let_def and_then_Ok_iff)

lemma Timeout_new_Ok:
  "Timeout_new E qc round author sk = Ok t \<Longrightarrow>
     t_high_qc t = qc \<and> t_round t = round \<and> t_author t = author"
  by (auto simp: Timeout_new_def Let_def and_then_Ok_iff)

lemma Block_new_Ok:
  "Block_new E qc tc author round payload sk = Ok b \<Longrightarrow>
     b_qc b = qc \<and> b_tc b = tc \<and> b_author b = author \<and> b_round b = round \<and> b_payload b = payload"
  by (auto simp: Block_new_def Let_def and_then_Ok_iff)

lemma digest_ignores_signature [simp]:
  "Vote_digest E (v\<lparr>v_signature := s\<rparr>) = Vote_digest E v"
  "Block_digest E (b\<lparr>b_signature := s\<rparr>) = Block_digest E b"
  "Timeout_digest E (t\<lparr>t_signature := s\<rparr>) = Timeout_digest E t"
  by (simp_all add: Vote_digest_def Vote_preimage_def Block_digest_def Block_preimage_def
      Timeout_digest_def)

lemma Vote_new_verifies:
  assumes "sign_correct E sk author" and "committee_stake com author > 0"
  obtains v where "Vote_new E b author sk = Ok v" "Vote_verify E v com = Ok ()"
proof -
  let ?v = "\<lparr>v_hash = Block_digest E b, v_round = b_round b, v_author = author,
            v_signature = Signature_default\<rparr>"
  from assms(1) obtain s where "Signature_new E (Vote_digest E ?v) sk = Ok s"
    "Signature_verify E s (Vote_digest E ?v) author = Ok ()"
    by (rule Signature_new_verifies)
  then show ?thesis
    using assms(2) that [of "?v\<lparr>v_signature := s\<rparr>"]
    by (simp add: Vote_new_def request_signature_def Let_def Vote_verify_Ok_iff
        Vote_digest_def Vote_preimage_def)
qed

lemma Timeout_new_verifies:
  assumes "sign_correct E sk author" and "committee_stake com author > 0"
    and "QC_eq qc QC_genesis \<or> QC_verify E qc com = Ok ()"
  obtains t where "Timeout_new E qc round author sk = Ok t" "Timeout_verify E t com = Ok ()"
proof -
  let ?t = "\<lparr>t_high_qc = qc, t_round = round, t_author = author,
            t_signature = Signature_default\<rparr>"
  from assms(1) obtain s where "Signature_new E (Timeout_digest E ?t) sk = Ok s"
    "Signature_verify E s (Timeout_digest E ?t) author = Ok ()"
    by (rule Signature_new_verifies)
  then show ?thesis
    using assms(2,3) that [of "?t\<lparr>t_signature := s\<rparr>"]
    by (simp add: Timeout_new_def request_signature_def Let_def Timeout_verify_Ok_iff
        Timeout_digest_def)
qed

lemma Block_new_verifies:
  assumes "sign_correct E sk author" and "committee_stake com author > 0"
    and "QC_eq qc QC_genesis \<or> QC_verify E qc com = Ok ()"
    and "case tc of Some tc \<Rightarrow> TC_verify E tc com = Ok () | None \<Rightarrow> round \<le> 5 \<or> payload \<noteq> []"
  obtains b where "Block_new E qc tc author round payload sk = Ok b" "Block_verify E b com = Ok ()"
proof -
  let ?b = "\<lparr>b_qc = qc, b_tc = tc, b_author = author, b_round = round, b_payload = payload,
            b_signature = Signature_default\<rparr>"
  from assms(1) obtain s where "Signature_new E (Block_digest E ?b) sk = Ok s"
    "Signature_verify E s (Block_digest E ?b) author = Ok ()"
    by (rule Signature_new_verifies)
  then show ?thesis
    using assms(2-) that [of "?b\<lparr>b_signature := s\<rparr>"]
    by (simp add: Block_new_def request_signature_def Let_def Block_verify_Ok_iff
        Block_digest_def Block_preimage_def cong: option.case_cong)
qed

section \<open>Preimages\<close>

lemma concat_to_vec_inject:
  "concat (map Digest_to_vec xs) = concat (map Digest_to_vec ys) \<longleftrightarrow> xs = ys"
proof
  assume "concat (map Digest_to_vec xs) = concat (map Digest_to_vec ys)"
  then show "xs = ys"
  proof (induction xs arbitrary: ys)
    case Nil
    then show ?case
      by (cases ys) (auto dest: arg_cong [where f = length])
  next
    case (Cons x xs)
    from Cons.prems have "ys \<noteq> []"
      by (auto dest: arg_cong [where f = length])
    then obtain y ys' where ys: "ys = y # ys'" by (cases ys) auto
    have "Digest_to_vec x = Digest_to_vec y"
      and "concat (map Digest_to_vec xs) = concat (map Digest_to_vec ys')"
      using Cons.prems by (simp_all add: ys append_eq_append_conv)
    with Cons.IH show ?case by (simp add: ys)
  qed
qed simp

lemma length_preimages [simp]:
  "length (Vote_preimage v) = 40" "length (QC_preimage qc) = 40"
  "length (timeout_preimage r q) = 16"
  "length (Block_preimage b) = 72 + 32 * length (b_payload b)"
  by (simp_all add: Vote_preimage_def QC_preimage_def timeout_preimage_def Block_preimage_def
      length_concat comp_def sum_list_triv)

lemma Block_preimage_inject:
  "Block_preimage b = Block_preimage b' \<longleftrightarrow>
     b_author b = b_author b' \<and> b_round b = b_round b' \<and> b_payload b = b_payload b'
     \<and> qc_hash (b_qc b) = qc_hash (b_qc b')"
  by (auto simp: Block_preimage_def append_eq_append_conv concat_to_vec_inject)

end
