(* ===== verification/Cert_Maker.thy ===== *)
theory Cert_Maker
  imports Committee_Model Messages
begin

text \<open>
  The contract shared by \<open>QCMaker\<close> and \<open>TCMaker\<close> of \<open>consensus/src/aggregator.rs\<close>, as a locale: a
  maker collects one entry per authority and hands out a certificate when the stake collected
  since the last certificate reaches the quorum threshold. Proved once for both: the certificate
  lists distinct voters that are a quorum, and a maker hands out at most one.
\<close>

text \<open>Feeding a list of messages to a maker, collecting the results.\<close>

fun feed :: "('v \<Rightarrow> 'm \<Rightarrow> 'r \<times> 'm) \<Rightarrow> 'v list \<Rightarrow> 'm \<Rightarrow> 'r list" where
  "feed f [] m = []"
| "feed f (v # vs) m = (case f v m of (r, m') \<Rightarrow> r # feed f vs m')"

definition made :: "('e, 'c option) outcome \<Rightarrow> bool" where
  "made r \<longleftrightarrow> (\<exists>c. r = Ok (Some c))"

lemma made_simps [simp]: "made (Ok (Some c))" "\<not> made (Ok None)" "\<not> made (Err e)"
  by (simp_all add: made_def)

locale cert_maker =
  fixes append :: "'v \<Rightarrow> Committee \<Rightarrow> 'm \<Rightarrow> (ConsensusError, 'c option) outcome \<times> 'm"
    and fresh :: 'm
    and weight :: "'m \<Rightarrow> Stake"
    and used :: "'m \<Rightarrow> PublicKey set"
    and entries :: "'m \<Rightarrow> 'e list"
    and author :: "'v \<Rightarrow> PublicKey"
    and entry :: "'v \<Rightarrow> 'e"
    and voter :: "'e \<Rightarrow> PublicKey"
    and cert :: "'v \<Rightarrow> 'e list \<Rightarrow> 'c"
  assumes fresh: "weight fresh = 0" "used fresh = {}" "entries fresh = []"
    and voter_entry: "voter (entry v) = author v"
    and append_reuse: "author v \<in> used m \<Longrightarrow> append v com m = (Err (AuthorityReuse (author v)), m)"
    and append_below: "author v \<notin> used m \<Longrightarrow>
      \<not> quorum_threshold com \<le> weight m + committee_stake com (author v) \<Longrightarrow>
      \<exists>m'. append v com m = (Ok None, m') \<and> used m' = insert (author v) (used m)
        \<and> entries m' = entries m @ [entry v]
        \<and> weight m' = weight m + committee_stake com (author v)"
    and append_reached: "author v \<notin> used m \<Longrightarrow>
      quorum_threshold com \<le> weight m + committee_stake com (author v) \<Longrightarrow>
      \<exists>m'. append v com m = (Ok (Some (cert v (entries m @ [entry v]))), m')
        \<and> used m' = insert (author v) (used m)
        \<and> entries m' = entries m @ [entry v] \<and> weight m' = 0"
begin

text \<open>
  The invariant of a maker: the voters are distinct members, \<open>used\<close> is their set, and \<open>weight\<close>
  counts those that came after the last certificate (all of them when \<open>fin\<close> is false).
\<close>

definition minv :: "Committee \<Rightarrow> bool \<Rightarrow> 'm \<Rightarrow> bool" where
  "minv com fin m \<longleftrightarrow>
     distinct (map voter (entries m)) \<and> used m = set (map voter (entries m))
     \<and> used m \<subseteq> committee_members com
     \<and> (\<exists>pre post. map voter (entries m) = pre @ post
          \<and> weight m = names_weight com post
          \<and> (if fin then stake_quorum com (set pre) else pre = []))"

lemma minvE:
  assumes "minv com fin m"
  obtains pre post where "map voter (entries m) = pre @ post" "weight m = names_weight com post"
    "if fin then stake_quorum com (set pre) else pre = []"
    "distinct (map voter (entries m))" "used m = set (map voter (entries m))"
    "used m \<subseteq> committee_members com"
  using assms unfolding minv_def by blast

lemma minvI:
  assumes "map voter (entries m) = pre @ post" "weight m = names_weight com post"
    "if fin then stake_quorum com (set pre) else pre = []"
    "distinct (pre @ post)" "used m = set (pre @ post)"
    "used m \<subseteq> committee_members com"
  shows "minv com fin m"
  using assms unfolding minv_def by metis

lemma minv_fresh: "minv com False fresh"
  by (simp add: minv_def fresh)

lemma minv_no_second:
  assumes "committee_valid com" "minv com True m"
    "author v \<notin> used m" "author v \<in> committee_members com"
  shows "\<not> quorum_threshold com \<le> weight m + committee_stake com (author v)"
proof
  assume ge: "quorum_threshold com \<le> weight m + committee_stake com (author v)"
  from assms(2) obtain pre post where pp: "map voter (entries m) = pre @ post"
    and w: "weight m = names_weight com post" and q': "if True then stake_quorum com (set pre) else pre = []"
    and d': "distinct (map voter (entries m))" and u': "used m = set (map voter (entries m))"
    and mem: "used m \<subseteq> committee_members com"
    by (rule minvE)
  have q: "stake_quorum com (set pre)" using q' by simp
  have d: "distinct (pre @ post)" and u: "used m = set (pre @ post)"
    using d' u' unfolding pp by simp_all
  have "distinct (post @ [author v])" and "set (post @ [author v]) \<subseteq> committee_members com"
    using d u mem assms(3,4) by auto
  moreover have "quorum_threshold com \<le> names_weight com (post @ [author v])"
    using ge w by simp
  ultimately have "stake_quorum com (set (post @ [author v]))"
    using names_quorum_iff [OF assms(1)] by blast
  moreover have "set pre \<inter> set (post @ [author v]) = {}" using d u assms(3) by auto
  ultimately show False
    using committee_quorums.disjoint_not_quorum [OF assms(1) q] by blast
qed

text \<open>One append: the invariant is kept, and what a certificate consists of.\<close>

lemma append_minv:
  assumes v: "committee_valid com" and i: "minv com fin m"
    and a: "author x \<in> committee_members com" and r: "append x com m = (r, m')"
  shows "minv com (fin \<or> made r) m'" and "made r \<Longrightarrow> \<not> fin"
    and "r = Err (AuthorityReuse (author x)) \<or> r = Ok None
      \<or> (\<exists>es. r = Ok (Some (cert x es)) \<and> es = entries m @ [entry x]
          \<and> distinct (map voter es) \<and> set (map voter es) \<subseteq> committee_members com
          \<and> stake_quorum com (set (map voter es)))"
proof -
  let ?w = "weight m + committee_stake com (author x)"
  from i obtain pre post where pp: "map voter (entries m) = pre @ post"
    and w: "weight m = names_weight com post"
    and q: "if fin then stake_quorum com (set pre) else pre = []"
    and d: "distinct (map voter (entries m))" and u: "used m = set (map voter (entries m))"
    and mem: "used m \<subseteq> committee_members com"
    by (rule minvE)
  consider (reuse) "author x \<in> used m"
    | (below) "author x \<notin> used m" "\<not> quorum_threshold com \<le> ?w"
    | (reached) "author x \<notin> used m" "quorum_threshold com \<le> ?w"
    by blast
  then have "minv com (fin \<or> made r) m' \<and> (made r \<longrightarrow> \<not> fin)
    \<and> (r = Err (AuthorityReuse (author x)) \<or> r = Ok None
      \<or> (\<exists>es. r = Ok (Some (cert x es)) \<and> es = entries m @ [entry x]
          \<and> distinct (map voter es) \<and> set (map voter es) \<subseteq> committee_members com
          \<and> stake_quorum com (set (map voter es))))"
  proof cases
    case reuse
    then show ?thesis using r i append_reuse [of x m com] by auto
  next
    case below
    from append_below [OF this] r
    have m': "r = Ok None" "used m' = insert (author x) (used m)"
      "entries m' = entries m @ [entry x]" "weight m' = ?w" by auto
    have "minv com fin m'"
      by (rule minvI [of _ pre "post @ [author x]"])
        (use d u mem a below(1) m' pp w q voter_entry in auto)
    then show ?thesis using m' by simp
  next
    case reached
    from append_reached [OF this] r
    have m': "r = Ok (Some (cert x (entries m @ [entry x])))"
      "used m' = insert (author x) (used m)"
      "entries m' = entries m @ [entry x]" "weight m' = 0" by auto
    have nd: "\<not> fin" using minv_no_second [OF v _ reached(1) a] i reached(2) by auto
    let ?ns = "map voter (entries m) @ [author x]"
    have d': "distinct ?ns" and sub: "set ?ns \<subseteq> committee_members com"
      using d u mem a reached(1) by auto
    have "quorum_threshold com \<le> names_weight com ?ns"
      using reached(2) nd q pp w by simp
    then have sq: "stake_quorum com (set ?ns)" using names_quorum_iff [OF v d' sub] by simp
    have "minv com True m'"
      by (rule minvI [of _ ?ns "[]"]) (use d' u sub sq m' voter_entry in auto)
    then show ?thesis using m' nd d' sub sq voter_entry by auto
  qed
  then show "minv com (fin \<or> made r) m'" and "made r \<Longrightarrow> \<not> fin"
    and "r = Err (AuthorityReuse (author x)) \<or> r = Ok None
      \<or> (\<exists>es. r = Ok (Some (cert x es)) \<and> es = entries m @ [entry x]
          \<and> distinct (map voter es) \<and> set (map voter es) \<subseteq> committee_members com
          \<and> stake_quorum com (set (map voter es)))"
    by blast+
qed

text \<open>A maker hands out at most one certificate, whatever it is fed.\<close>

lemma feed_once:
  assumes "committee_valid com" "minv com fin m" "author ` set vs \<subseteq> committee_members com"
  shows "length (filter made (feed (\<lambda>v. append v com) vs m)) \<le> (if fin then 0 else 1)"
  using assms(2,3)
proof (induction vs arbitrary: m fin)
  case (Cons v vs)
  obtain r m' where r: "append v com m = (r, m')" by (cases "append v com m")
  from Cons.prems(2) have a: "author v \<in> committee_members com" by simp
  note step = append_minv [OF assms(1) Cons.prems(1) a r]
  from Cons.IH [OF step(1)] Cons.prems(2)
  have "length (filter made (feed (\<lambda>v. append v com) vs m')) \<le> (if fin \<or> made r then 0 else 1)"
    by simp
  then show ?case using r step(2) by (auto split: if_splits)
qed simp

lemma feed_fresh_once:
  assumes "committee_valid com" "author ` set vs \<subseteq> committee_members com"
  shows "length (filter made (feed (\<lambda>v. append v com) vs fresh)) \<le> 1"
  using feed_once [OF assms(1) minv_fresh assms(2)] by simp

end

end
