(* ===== verification/Aggregator_Model.thy ===== *)
theory Aggregator_Model
  imports Cert_Maker
begin

text \<open>
  The aggregator of votes and timeouts (\<open>consensus/src/aggregator.rs\<close>): its makers, its two hash
  maps, and the proof that the certificates it hands out pass \<open>QC::verify\<close> and \<open>TC::verify\<close>.
\<close>

section \<open>Makers\<close>

record QCMaker =
  qm_weight :: Stake
  qm_votes :: "(PublicKey \<times> Signature) list"
  qm_used :: "PublicKey set"

definition QCMaker_new :: QCMaker where
  "QCMaker_new = \<lparr>qm_weight = 0, qm_votes = [], qm_used = {}\<rparr>"

definition QCMaker_append ::
  "Vote \<Rightarrow> Committee \<Rightarrow> QCMaker \<Rightarrow> (ConsensusError, QC option) outcome \<times> QCMaker" where
  "QCMaker_append vote com m =
     (let author = v_author vote
      in if author \<in> qm_used m then (Err (AuthorityReuse author), m)
         else
           let m1 = m\<lparr>qm_used := insert author (qm_used m),
                      qm_votes := qm_votes m @ [(author, v_signature vote)],
                      qm_weight := qm_weight m + committee_stake com author\<rparr>
           in if qm_weight m1 \<ge> quorum_threshold com
              then (Ok (Some \<lparr>qc_hash = v_hash vote, qc_round = v_round vote,
                              qc_votes = qm_votes m1\<rparr>),
                    m1\<lparr>qm_weight := 0\<rparr>)
              else (Ok None, m1))"

record TCMaker =
  tm_weight :: Stake
  tm_votes :: "(PublicKey \<times> Signature \<times> Round) list"
  tm_used :: "PublicKey set"

definition TCMaker_new :: TCMaker where
  "TCMaker_new = \<lparr>tm_weight = 0, tm_votes = [], tm_used = {}\<rparr>"

definition TCMaker_append ::
  "Timeout \<Rightarrow> Committee \<Rightarrow> TCMaker \<Rightarrow> (ConsensusError, TC option) outcome \<times> TCMaker" where
  "TCMaker_append timeout com m =
     (let author = t_author timeout
      in if author \<in> tm_used m then (Err (AuthorityReuse author), m)
         else
           let m1 = m\<lparr>tm_used := insert author (tm_used m),
                      tm_votes := tm_votes m
                        @ [(author, t_signature timeout, qc_round (t_high_qc timeout))],
                      tm_weight := tm_weight m + committee_stake com author\<rparr>
           in if tm_weight m1 \<ge> quorum_threshold com
              then (Ok (Some \<lparr>tc_round = t_round timeout, tc_votes = tm_votes m1\<rparr>),
                    m1\<lparr>tm_weight := 0\<rparr>)
              else (Ok None, m1))"

section \<open>The aggregator\<close>

record Aggregator =
  ag_committee :: Committee
  votes_aggregators :: "(Round \<times> (Digest \<times> QCMaker) list) list"
  timeouts_aggregators :: "(Round \<times> TCMaker) list"

definition Aggregator_new :: "Committee \<Rightarrow> Aggregator" where
  "Aggregator_new com =
     \<lparr>ag_committee = com, votes_aggregators = [], timeouts_aggregators = []\<rparr>"

definition add_vote ::
  "'a crypto_env_scheme \<Rightarrow> Vote \<Rightarrow> Aggregator \<Rightarrow>
   (ConsensusError, QC option) outcome \<times> Aggregator" where
  "add_vote E vote agg =
     (let by_digest = hm_entry (votes_aggregators agg) (v_round vote) [];
          maker = hm_entry by_digest (Vote_digest E vote) QCMaker_new
      in case QCMaker_append vote (ag_committee agg) maker of (result, maker') \<Rightarrow>
         (result, agg\<lparr>votes_aggregators :=
            AList.update (v_round vote) (AList.update (Vote_digest E vote) maker' by_digest)
              (votes_aggregators agg)\<rparr>))"

definition add_timeout ::
  "Timeout \<Rightarrow> Aggregator \<Rightarrow> (ConsensusError, TC option) outcome \<times> Aggregator" where
  "add_timeout timeout agg =
     (let maker = hm_entry (timeouts_aggregators agg) (t_round timeout) TCMaker_new
      in case TCMaker_append timeout (ag_committee agg) maker of (result, maker') \<Rightarrow>
         (result, agg\<lparr>timeouts_aggregators :=
            AList.update (t_round timeout) maker' (timeouts_aggregators agg)\<rparr>))"

definition Aggregator_cleanup :: "Round \<Rightarrow> Aggregator \<Rightarrow> Aggregator" where
  "Aggregator_cleanup round agg =
     agg\<lparr>votes_aggregators := filter (\<lambda>(k, _). k \<ge> round) (votes_aggregators agg),
         timeouts_aggregators := filter (\<lambda>(k, _). k \<ge> round) (timeouts_aggregators agg)\<rparr>"

section \<open>Both makers satisfy the contract\<close>

definition tc_voter :: "PublicKey \<times> Signature \<times> Round \<Rightarrow> PublicKey" where
  "tc_voter e = fst e"

interpretation qcm: cert_maker QCMaker_append QCMaker_new qm_weight qm_used qm_votes v_author
  "\<lambda>v. (v_author v, v_signature v)" fst
  "\<lambda>v es. \<lparr>qc_hash = v_hash v, qc_round = v_round v, qc_votes = es\<rparr>"
  by unfold_locales (auto simp: QCMaker_append_def QCMaker_new_def Let_def)

interpretation tcm: cert_maker TCMaker_append TCMaker_new tm_weight tm_used tm_votes t_author
  "\<lambda>t. (t_author t, t_signature t, qc_round (t_high_qc t))" tc_voter
  "\<lambda>t es. \<lparr>tc_round = t_round t, tc_votes = es\<rparr>"
  by unfold_locales (auto simp: TCMaker_append_def TCMaker_new_def Let_def tc_voter_def)

section \<open>Well-formed aggregators\<close>

text \<open>
  A maker of the vote table under round \<open>r\<close> and digest \<open>d\<close> satisfies the maker invariant, and its
  signatures are valid for \<open>d\<close>; a maker of the timeout table under round \<open>r\<close> likewise, for the
  timeout digests at \<open>r\<close>. All its voters have stake.
\<close>

definition qc_maker_ok :: "'a crypto_env_scheme \<Rightarrow> Committee \<Rightarrow> Digest \<Rightarrow> QCMaker \<Rightarrow> bool" where
  "qc_maker_ok E com d m \<longleftrightarrow>
     (\<exists>fin. qcm.minv com fin m)
     \<and> (\<forall>(a, s) \<in> set (qm_votes m). committee_stake com a > 0
          \<and> Signature_verify E s d a = Ok ())"

definition tc_maker_ok :: "'a crypto_env_scheme \<Rightarrow> Committee \<Rightarrow> Round \<Rightarrow> TCMaker \<Rightarrow> bool" where
  "tc_maker_ok E com r m \<longleftrightarrow>
     (\<exists>fin. tcm.minv com fin m)
     \<and> (\<forall>(a, s, q) \<in> set (tm_votes m). committee_stake com a > 0
          \<and> Signature_verify E s (sha_digest E (timeout_preimage r q)) a = Ok ())"

definition aggregator_ok :: "'a crypto_env_scheme \<Rightarrow> Aggregator \<Rightarrow> bool" where
  "aggregator_ok E agg \<longleftrightarrow>
     (\<forall>r inner d m. map_of (votes_aggregators agg) r = Some inner \<longrightarrow> map_of inner d = Some m
        \<longrightarrow> qc_maker_ok E (ag_committee agg) d m)
     \<and> (\<forall>r m. map_of (timeouts_aggregators agg) r = Some m \<longrightarrow> tc_maker_ok E (ag_committee agg) r m)"

lemma qc_maker_ok_new [simp]: "qc_maker_ok E com d QCMaker_new"
  using qcm.minv_fresh by (auto simp: qc_maker_ok_def QCMaker_new_def)

lemma tc_maker_ok_new [simp]: "tc_maker_ok E com r TCMaker_new"
  using tcm.minv_fresh by (auto simp: tc_maker_ok_def TCMaker_new_def)

lemma aggregator_ok_new [simp]: "aggregator_ok E (Aggregator_new com)"
  by (simp add: aggregator_ok_def Aggregator_new_def)

lemma ag_committee_frame [simp]:
  "ag_committee (Aggregator_new com) = com"
  "ag_committee (snd (add_vote E v agg)) = ag_committee agg"
  "ag_committee (snd (add_timeout t agg)) = ag_committee agg"
  "ag_committee (Aggregator_cleanup r agg) = ag_committee agg"
  by (simp_all add: Aggregator_new_def add_vote_def add_timeout_def Aggregator_cleanup_def Let_def
      split: prod.split)

lemma map_of_filter_ge:
  "map_of (filter (\<lambda>(k, _). k \<ge> (r :: Round)) m) k = (if k \<ge> r then map_of m k else None)"
  using map_of_filter_key [of "\<lambda>k. k \<ge> r" m k] by (simp add: case_prod_unfold)

lemma aggregator_ok_cleanup [simp]: "aggregator_ok E agg \<Longrightarrow> aggregator_ok E (Aggregator_cleanup r agg)"
  by (auto simp: aggregator_ok_def Aggregator_cleanup_def map_of_filter_ge split: if_splits)

text \<open>One append of a checked vote.\<close>

lemma QCMaker_append_ok:
  assumes v: "committee_valid com" and m: "qc_maker_ok E com (Vote_digest E vote) m"
    and ok: "Vote_verify E vote com = Ok ()" and b: "batch_complete E"
    and r: "QCMaker_append vote com m = (result, m')"
  shows "qc_maker_ok E com (Vote_digest E vote) m'"
    and "result = Err (AuthorityReuse (v_author vote)) \<or> result = Ok None
      \<or> (\<exists>qc. result = Ok (Some qc) \<and> QC_verify E qc com = Ok ()
          \<and> qc_hash qc = v_hash vote \<and> qc_round qc = v_round vote)"
proof -
  let ?d = "Vote_digest E vote" and ?e = "(v_author vote, v_signature vote)"
  from m obtain fin where i: "qcm.minv com fin m"
    and sigs: "\<forall>(a, s) \<in> set (qm_votes m). committee_stake com a > 0 \<and> Signature_verify E s ?d a = Ok ()"
    unfolding qc_maker_ok_def by blast
  from ok have st: "committee_stake com (v_author vote) > 0"
    and sg: "Signature_verify E (v_signature vote) ?d (v_author vote) = Ok ()"
    by (simp_all add: Vote_verify_Ok_iff)
  have mem: "v_author vote \<in> committee_members com" using st by (rule stake_pos_member)
  note step = qcm.append_minv [OF v i mem r]
  have ent: "set (qm_votes m') \<subseteq> insert ?e (set (qm_votes m))"
    using r by (auto simp: QCMaker_append_def Let_def split: if_splits)
  then have sigs': "\<forall>(a, s) \<in> set (qm_votes m').
      committee_stake com a > 0 \<and> Signature_verify E s ?d a = Ok ()"
    using sigs st sg by blast
  show "qc_maker_ok E com ?d m'" unfolding qc_maker_ok_def using step(1) sigs' by blast
  show "result = Err (AuthorityReuse (v_author vote)) \<or> result = Ok None
      \<or> (\<exists>qc. result = Ok (Some qc) \<and> QC_verify E qc com = Ok ()
          \<and> qc_hash qc = v_hash vote \<and> qc_round qc = v_round vote)"
    using step(3)
  proof (elim disjE exE conjE)
    fix es
    let ?qc = "\<lparr>qc_hash = v_hash vote, qc_round = v_round vote, qc_votes = es\<rparr>"
    assume es: "result = Ok (Some ?qc)" "es = qm_votes m @ [?e]" "distinct (map fst es)"
      "set (map fst es) \<subseteq> committee_members com" "stake_quorum com (set (map fst es))"
    have all: "\<forall>(a, s) \<in> set es. committee_stake com a > 0 \<and> Signature_verify E s ?d a = Ok ()"
      using sigs st sg es(2) by auto
    have dig: "QC_digest E ?qc = ?d"
      by (simp add: QC_digest_def QC_preimage_def Vote_digest_def Vote_preimage_def)
    have "Signature_verify_batch E ?d es = Ok ()"
      by (rule Signature_verify_batch_ok [OF b]) (use all in auto)
    moreover have "quorum_threshold com \<le> names_weight com (map fst es)"
      using names_quorum_iff [OF v es(3,4)] es(5) by simp
    ultimately have "QC_verify E ?qc com = Ok ()"
      using es(3) all dig by (auto simp: QC_verify_Ok_iff)
    then show ?thesis using es(1) by auto
  qed auto
qed

lemma TCMaker_append_ok:
  assumes v: "committee_valid com" and m: "tc_maker_ok E com (t_round t) m"
    and ok: "Timeout_verify E t com = Ok ()"
    and r: "TCMaker_append t com m = (result, m')"
  shows "tc_maker_ok E com (t_round t) m'"
    and "result = Err (AuthorityReuse (t_author t)) \<or> result = Ok None
      \<or> (\<exists>tc. result = Ok (Some tc) \<and> TC_verify E tc com = Ok () \<and> tc_round tc = t_round t)"
proof -
  let ?q = "qc_round (t_high_qc t)" and ?e = "(t_author t, t_signature t, qc_round (t_high_qc t))"
  let ?d = "\<lambda>q. sha_digest E (timeout_preimage (t_round t) q)"
  from m obtain fin where i: "tcm.minv com fin m"
    and sigs: "\<forall>(a, s, q) \<in> set (tm_votes m). committee_stake com a > 0
      \<and> Signature_verify E s (?d q) a = Ok ()"
    unfolding tc_maker_ok_def by blast
  from ok have st: "committee_stake com (t_author t) > 0"
    and sg: "Signature_verify E (t_signature t) (?d ?q) (t_author t) = Ok ()"
    by (simp_all add: Timeout_verify_Ok_iff Timeout_digest_def)
  have mem: "t_author t \<in> committee_members com" using st by (rule stake_pos_member)
  note step = tcm.append_minv [OF v i mem r]
  have ent: "set (tm_votes m') \<subseteq> insert ?e (set (tm_votes m))"
    using r by (auto simp: TCMaker_append_def Let_def split: if_splits)
  then have sigs': "\<forall>(a, s, q) \<in> set (tm_votes m'). committee_stake com a > 0
      \<and> Signature_verify E s (?d q) a = Ok ()"
    using sigs st sg by blast
  show "tc_maker_ok E com (t_round t) m'" unfolding tc_maker_ok_def using step(1) sigs' by blast
  show "result = Err (AuthorityReuse (t_author t)) \<or> result = Ok None
      \<or> (\<exists>tc. result = Ok (Some tc) \<and> TC_verify E tc com = Ok () \<and> tc_round tc = t_round t)"
    using step(3)
  proof (elim disjE exE conjE)
    fix es
    let ?tc = "\<lparr>tc_round = t_round t, tc_votes = es\<rparr>"
    assume es: "result = Ok (Some ?tc)" "es = tm_votes m @ [?e]" "distinct (map tc_voter es)"
      "set (map tc_voter es) \<subseteq> committee_members com" "stake_quorum com (set (map tc_voter es))"
    have vf: "tc_voter = fst" by (simp add: fun_eq_iff tc_voter_def)
    have all: "\<forall>(a, s, q) \<in> set es. committee_stake com a > 0 \<and> Signature_verify E s (?d q) a = Ok ()"
      using sigs st sg es(2) by auto
    have "quorum_threshold com \<le> names_weight com (map fst es)"
      using names_quorum_iff [OF v, of "map fst es"] es(3-5) by (simp add: vf)
    moreover have "check_tc_signatures E (t_round t) es = Ok ()"
      using all by (auto simp: check_tc_signatures_Ok_iff)
    ultimately have "TC_verify E ?tc com = Ok ()"
      using es(3) all by (auto simp: TC_verify_Ok_iff vf)
    then show ?thesis using es(1) by auto
  qed auto
qed

lemma completes_add_vote [simp]: "completes (fst (add_vote E v agg))"
  by (simp add: add_vote_def QCMaker_append_def Let_def)

lemma completes_add_timeout [simp]: "completes (fst (add_timeout t agg))"
  by (simp add: add_timeout_def TCMaker_append_def Let_def)

text \<open>
  A checked vote added to a well-formed aggregator leaves it well formed, and a certificate it
  completes passes \<open>QC::verify\<close> and is for the vote's hash and round.
\<close>

lemma add_vote_ok:
  assumes "committee_valid (ag_committee agg)" "aggregator_ok E agg" "batch_complete E"
    "Vote_verify E vote (ag_committee agg) = Ok ()" "add_vote E vote agg = (result, agg')"
  shows "aggregator_ok E agg'"
    and "result = Err (AuthorityReuse (v_author vote)) \<or> result = Ok None
      \<or> (\<exists>qc. result = Ok (Some qc) \<and> QC_verify E qc (ag_committee agg) = Ok ()
          \<and> qc_hash qc = v_hash vote \<and> qc_round qc = v_round vote)"
proof -
  let ?inner = "hm_entry (votes_aggregators agg) (v_round vote) []"
  let ?m = "hm_entry ?inner (Vote_digest E vote) QCMaker_new"
  obtain r m' where ap: "QCMaker_append vote (ag_committee agg) ?m = (r, m')"
    by (cases "QCMaker_append vote (ag_committee agg) ?m")
  have inner_ok: "qc_maker_ok E (ag_committee agg) d mk" if "map_of ?inner d = Some mk" for d mk
    using assms(2) that by (auto simp: aggregator_ok_def hm_entry_def split: option.splits)
  then have "qc_maker_ok E (ag_committee agg) (Vote_digest E vote) ?m"
    by (auto simp: hm_entry_def split: option.split)
  note step = QCMaker_append_ok [OF assms(1) this assms(4,3) ap]
  have eq: "result = r"
    and agg': "agg' = agg\<lparr>votes_aggregators := AList.update (v_round vote)
      (AList.update (Vote_digest E vote) m' ?inner) (votes_aggregators agg)\<rparr>"
    using assms(5) ap by (simp_all add: add_vote_def Let_def)
  show "aggregator_ok E agg'"
    using assms(2) step(1) inner_ok
    by (auto simp: agg' aggregator_ok_def map_of_AList_update split: if_splits)
  show "result = Err (AuthorityReuse (v_author vote)) \<or> result = Ok None
      \<or> (\<exists>qc. result = Ok (Some qc) \<and> QC_verify E qc (ag_committee agg) = Ok ()
          \<and> qc_hash qc = v_hash vote \<and> qc_round qc = v_round vote)"
    using step(2) eq by simp
qed

lemma add_timeout_ok:
  assumes "committee_valid (ag_committee agg)" "aggregator_ok E agg"
    "Timeout_verify E t (ag_committee agg) = Ok ()" "add_timeout t agg = (result, agg')"
  shows "aggregator_ok E agg'"
    and "result = Err (AuthorityReuse (t_author t)) \<or> result = Ok None
      \<or> (\<exists>tc. result = Ok (Some tc) \<and> TC_verify E tc (ag_committee agg) = Ok ()
          \<and> tc_round tc = t_round t)"
proof -
  let ?m = "hm_entry (timeouts_aggregators agg) (t_round t) TCMaker_new"
  obtain r m' where ap: "TCMaker_append t (ag_committee agg) ?m = (r, m')"
    by (cases "TCMaker_append t (ag_committee agg) ?m")
  have "tc_maker_ok E (ag_committee agg) (t_round t) ?m"
    using assms(2) by (auto simp: aggregator_ok_def hm_entry_def split: option.split)
  note step = TCMaker_append_ok [OF assms(1) this assms(3) ap]
  have eq: "result = r"
    and agg': "agg' = agg\<lparr>timeouts_aggregators :=
      AList.update (t_round t) m' (timeouts_aggregators agg)\<rparr>"
    using assms(4) ap by (simp_all add: add_timeout_def Let_def)
  show "aggregator_ok E agg'"
    using assms(2) step(1)
    by (auto simp: agg' aggregator_ok_def map_of_AList_update split: if_splits)
  show "result = Err (AuthorityReuse (t_author t)) \<or> result = Ok None
      \<or> (\<exists>tc. result = Ok (Some tc) \<and> TC_verify E tc (ag_committee agg) = Ok ()
          \<and> tc_round tc = t_round t)"
    using step(2) eq by simp
qed

end
