(* ===== verification/Store_Model.thy ===== *)
theory Store_Model
  imports Crypto_Model "HOL-Library.Multiset"
begin

text \<open>
  The crate \<open>store\<close> (\<open>store/src/lib.rs\<close>): a task that owns a RocksDB database and serves write,
  read and notify-read commands. RocksDB is a parameter: the state keeps the history of the puts
  the program made (latest first), and \<open>db_get\<close> is RocksDB's answer to a \<open>get\<close> after that history
  (\<open>Inl\<close> an error). The result of \<open>put\<close> is ignored by the code, so it is not part of the model.
\<close>

type_synonym Key = "byte list"
type_synonym Value = "byte list"
type_synonym puts = "(Key \<times> Value) list"
type_synonym SenderId = nat

record store_env = crypto_env +
  db_get :: "puts \<Rightarrow> Key \<Rightarrow> string + Value option"

section \<open>The task\<close>

datatype StoreCommand = Write Key Value | Read Key SenderId | NotifyRead Key SenderId

datatype StoreReply =
    ReadReply SenderId "string + Value option"
  | NotifyReply SenderId "string + Value"

record StoreTask =
  st_db :: puts
  st_obligations :: "(Key \<times> SenderId list) list"

definition Store_new :: StoreTask where
  "Store_new = \<lparr>st_db = [], st_obligations = []\<rparr>"

fun store_step ::
  "'a store_env_scheme \<Rightarrow> StoreCommand \<Rightarrow> StoreTask \<Rightarrow> StoreReply list \<times> StoreTask" where
  "store_step E (Write key value) st =
     (let st1 = st\<lparr>st_db := (key, value) # st_db st\<rparr>
      in case map_of (st_obligations st) key of
           None \<Rightarrow> ([], st1)
         | Some senders \<Rightarrow>
             (map (\<lambda>s. NotifyReply s (Inr value)) senders,
              st1\<lparr>st_obligations := AList.delete key (st_obligations st)\<rparr>))"
| "store_step E (Read key sender) st = ([ReadReply sender (db_get E (st_db st) key)], st)"
| "store_step E (NotifyRead key sender) st =
     (case db_get E (st_db st) key of
        Inr None \<Rightarrow>
          ([], st\<lparr>st_obligations := AList.update key
             (hm_entry (st_obligations st) key [] @ [sender]) (st_obligations st)\<rparr>)
      | Inr (Some value) \<Rightarrow> ([NotifyReply sender (Inr value)], st)
      | Inl e \<Rightarrow> ([NotifyReply sender (Inl e)], st))"

fun store_run ::
  "'a store_env_scheme \<Rightarrow> StoreCommand list \<Rightarrow> StoreTask \<Rightarrow> StoreReply list \<times> StoreTask" where
  "store_run E [] st = ([], st)"
| "store_run E (c # cs) st =
     (case store_step E c st of (rs, st1) \<Rightarrow>
      case store_run E cs st1 of (rs', st2) \<Rightarrow> (rs @ rs', st2))"

section \<open>The client side\<close>

text \<open>
  \<open>Store::write\<close> and \<open>Store::read\<close> as the other tasks see them: the command is sent to the task and
  its reply awaited.
\<close>

definition Store_write :: "Key \<Rightarrow> Value \<Rightarrow> puts \<Rightarrow> puts" where
  "Store_write key value db = (key, value) # db"

definition Store_read :: "'a store_env_scheme \<Rightarrow> puts \<Rightarrow> Key \<Rightarrow> (string, Value option) outcome" where
  "Store_read E db key = (case db_get E db key of Inl e \<Rightarrow> Err e | Inr v \<Rightarrow> Ok v)"

lemma Store_read_reply:
  "fst (store_step E (Read key s) st) = [ReadReply s r] \<Longrightarrow>
     Store_read E (st_db st) key = (case r of Inl e \<Rightarrow> Err e | Inr v \<Rightarrow> Ok v)"
  by (simp add: Store_read_def)

lemma Store_write_step:
  "st_db (snd (store_step E (Write key value) st)) = Store_write key value (st_db st)"
  by (simp add: Store_write_def Let_def split: option.split)

lemma completes_Store_read [simp]: "completes (Store_read E db key)"
  by (simp add: Store_read_def split: sum.split)

section \<open>The contract of a key-value store\<close>

text \<open>
  What the other components rely on: reads see the latest write. The law is the provider's; the
  facts about presence after many writes are proved here once for every client.
\<close>

locale kv_store =
  fixes sound :: "'e \<Rightarrow> bool"
    and kv_read :: "'e \<Rightarrow> 's \<Rightarrow> 'k \<Rightarrow> (string, 'v option) outcome"
    and kv_write :: "'k \<Rightarrow> 'v \<Rightarrow> 's \<Rightarrow> 's"
  assumes kv_total: "sound e \<Longrightarrow> \<exists>r. kv_read e s k = Ok r"
    and kv_same: "sound e \<Longrightarrow> kv_read e (kv_write k v s) k = Ok (Some v)"
    and kv_other: "sound e \<Longrightarrow> k' \<noteq> k \<Longrightarrow> kv_read e (kv_write k v s) k' = kv_read e s k'"
begin

definition present :: "'e \<Rightarrow> 's \<Rightarrow> 'k \<Rightarrow> bool" where
  "present e s k \<longleftrightarrow> (\<exists>v. kv_read e s k = Ok (Some v))"

lemma present_same: "sound e \<Longrightarrow> present e (kv_write k v s) k"
  by (simp add: present_def kv_same)

lemma present_mono: "sound e \<Longrightarrow> present e s k \<Longrightarrow> present e (kv_write k' v s) k"
  by (cases "k = k'") (auto simp: present_def kv_same kv_other)

lemma absent_other: "sound e \<Longrightarrow> \<not> present e (kv_write k v s) k' \<Longrightarrow> k' \<noteq> k"
  using present_same by blast

lemma present_fold: "sound e \<Longrightarrow> present e s k \<Longrightarrow> present e (fold (case_prod kv_write) ws s) k"
  by (induction ws arbitrary: s) (auto simp: present_mono)

lemma present_written:
  "sound e \<Longrightarrow> k \<in> fst ` set ws \<Longrightarrow> present e (fold (case_prod kv_write) ws s) k"
proof (induction ws arbitrary: s)
  case (Cons w ws)
  then show ?case by (cases w) (auto simp: present_same present_fold)
qed simp

lemma absent_read: "sound e \<Longrightarrow> \<not> present e s k \<Longrightarrow> kv_read e s k = Ok None"
  using kv_total [of e s k] by (auto simp: present_def)

text \<open>A key whose writes all carry one value keeps it: the stores of this program are addressed by
  the digest of what they hold.\<close>

lemma read_fold_stable:
  "sound e \<Longrightarrow> kv_read e s k = Ok (Some v) \<Longrightarrow> \<forall>(k', v') \<in> set ws. k' = k \<longrightarrow> v' = v \<Longrightarrow>
    kv_read e (fold (case_prod kv_write) ws s) k = Ok (Some v)"
proof (induction ws arbitrary: s)
  case (Cons w ws)
  obtain k' v' where w: "w = (k', v')" by (cases w)
  have "kv_read e (kv_write k' v' s) k = Ok (Some v)"
    using Cons.prems w by (cases "k' = k") (auto simp: kv_same kv_other)
  with Cons w show ?case by simp
qed simp

end

text \<open>
  Documented behaviour of RocksDB: \<open>get\<close> returns what the latest \<open>put\<close> on the key stored, without
  an I/O error. \<open>rocks_fresh\<close> says that the database was empty when it was opened.
\<close>

definition rocks_ok :: "'a store_env_scheme \<Rightarrow> bool" where
  "rocks_ok E \<longleftrightarrow>
     (\<forall>h k. \<exists>r. db_get E h k = Inr r)
     \<and> (\<forall>h k v. db_get E ((k, v) # h) k = Inr (Some v))
     \<and> (\<forall>h k v k'. k' \<noteq> k \<longrightarrow> db_get E ((k, v) # h) k' = db_get E h k')"

definition rocks_fresh :: "'a store_env_scheme \<Rightarrow> bool" where
  "rocks_fresh E \<longleftrightarrow> (\<forall>k. db_get E [] k = Inr None)"

interpretation db: kv_store rocks_ok Store_read Store_write
proof unfold_locales
  fix e :: "'a store_env_scheme" and s k k' v
  assume ok: "rocks_ok e"
  then obtain r where "db_get e s k = Inr r" unfolding rocks_ok_def by blast
  then show "\<exists>r. Store_read e s k = Ok r" by (simp add: Store_read_def)
  show "Store_read e (Store_write k v s) k = Ok (Some v)"
    using ok by (simp add: Store_read_def Store_write_def rocks_ok_def)
  assume "k' \<noteq> k"
  then show "Store_read e (Store_write k v s) k' = Store_read e s k'"
    using ok by (simp add: Store_read_def Store_write_def rocks_ok_def)
qed

section \<open>Obligations\<close>

text \<open>
  Senders waiting for a key. A registered sender is answered exactly once, by the first write to
  its key after it registered, in the order of registration; the table never holds a key that is
  present in the database.
\<close>

fun notified :: "StoreReply list \<Rightarrow> SenderId multiset" where
  "notified [] = {#}"
| "notified (NotifyReply s r # rs) = add_mset s (notified rs)"
| "notified (ReadReply s r # rs) = notified rs"

fun asked :: "StoreCommand list \<Rightarrow> SenderId multiset" where
  "asked [] = {#}"
| "asked (NotifyRead k s # cs) = add_mset s (asked cs)"
| "asked (Write k v # cs) = asked cs"
| "asked (Read k s # cs) = asked cs"

definition waiting_senders :: "StoreTask \<Rightarrow> SenderId multiset" where
  "waiting_senders st = mset (concat (map snd (st_obligations st)))"

definition store_inv :: "'a store_env_scheme \<Rightarrow> StoreTask \<Rightarrow> bool" where
  "store_inv E st \<longleftrightarrow> distinct_keys (st_obligations st)
     \<and> (\<forall>k \<in> hm_keys (st_obligations st). db_get E (st_db st) k = Inr None)"

lemma notified_append [simp]: "notified (xs @ ys) = notified xs + notified ys"
  by (induction xs rule: notified.induct) auto

lemma notified_map [simp]: "notified (map (\<lambda>s. NotifyReply s r) ss) = mset ss"
  by (induction ss) auto

lemma obligations_update:
  assumes "distinct_keys m"
  shows "mset (concat (map snd (AList.update k (hm_entry m k [] @ [s]) m)))
    = add_mset s (mset (concat (map snd m)))"
  using assms
proof (induction m)
  case Nil
  then show ?case by (simp add: hm_entry_def)
next
  case (Cons kv m)
  then show ?case
    by (cases kv) (auto simp: hm_entry_def split: option.splits)
qed

lemma obligations_delete:
  assumes "distinct_keys m" "map_of m k = Some ss"
  shows "mset (concat (map snd m)) = mset ss + mset (concat (map snd (AList.delete k m)))"
  using assms
proof (induction m)
  case (Cons kv m)
  obtain k' v' where kv: "kv = (k', v')" by (cases kv)
  show ?case
  proof (cases "k' = k")
    case True
    then have "k \<notin> hm_keys m" using Cons.prems(1) kv by auto
    then have "AList.delete k m = m" by (simp add: hm_keys_def delete_id)
    then show ?thesis using Cons.prems(2) kv True by simp
  next
    case False
    then show ?thesis using Cons kv by (simp add: union_assoc union_lcomm)
  qed
qed simp

lemma store_step_conserves:
  assumes "store_inv E st" "store_step E c st = (rs, st')"
  shows "asked [c] + waiting_senders st = notified rs + waiting_senders st'"
proof (cases c)
  case (Write k v)
  then show ?thesis
    using assms obligations_delete [of "st_obligations st" k]
    by (auto simp: Let_def waiting_senders_def store_inv_def split: option.splits)
next
  case (NotifyRead k s)
  then show ?thesis
    using assms obligations_update [of "st_obligations st" k s]
    by (auto simp: waiting_senders_def store_inv_def split: sum.splits option.splits)
qed (use assms in auto)

lemma store_step_inv:
  assumes "rocks_ok E" "store_inv E st" "store_step E c st = (rs, st')"
  shows "store_inv E st'"
proof (cases c)
  case (Write k v)
  have still: "db_get E ((k, v) # st_db st) k' = Inr None"
    if "k' \<in> hm_keys (st_obligations st)" "k' \<noteq> k" for k'
    using assms(1,2) that by (auto simp: rocks_ok_def store_inv_def)
  then show ?thesis
    using assms(2,3) Write
    by (auto simp: store_inv_def Let_def split: option.splits) (metis still)
next
  case (NotifyRead k s)
  then show ?thesis
    using assms by (auto simp: store_inv_def split: sum.splits option.splits)
qed (use assms in auto)

lemma store_inv_new [simp]: "store_inv E Store_new"
  by (simp add: store_inv_def Store_new_def)

lemma asked_Cons: "asked (c # cs) = asked [c] + asked cs"
  by (cases c) auto

lemma store_run_inv:
  assumes "rocks_ok E" "store_inv E st" "store_run E cs st = (rs, st')"
  shows "store_inv E st' \<and> asked cs + waiting_senders st = notified rs + waiting_senders st'"
  using assms(2,3)
proof (induction cs arbitrary: st rs)
  case (Cons c cs)
  obtain rs1 st1 where s1: "store_step E c st = (rs1, st1)" by (cases "store_step E c st")
  obtain rs2 where s2: "store_run E cs st1 = (rs2, st')" and rs: "rs = rs1 @ rs2"
    using Cons.prems(2) s1 by (auto split: prod.splits)
  note step = store_step_inv [OF assms(1) Cons.prems(1) s1]
    store_step_conserves [OF Cons.prems(1) s1]
  from Cons.IH [OF step(1) s2] step(2) show ?case
    by (simp only: asked_Cons [of c cs] rs notified_append) (metis union_assoc union_commute)
qed simp

text \<open>
  C19. Every sender that asked to be notified of a key is, at any time, either answered or waiting,
  exactly once (as multisets: nothing is lost, nothing is answered twice), and a key with waiting
  senders is absent from the database: the write that stores it has not happened yet.
\<close>

theorem notify_read_exactly_once:
  assumes "rocks_ok E" and "store_run E cs Store_new = (rs, st)"
  shows "asked cs = notified rs + waiting_senders st
    \<and> (\<forall>k \<in> hm_keys (st_obligations st). db_get E (st_db st) k = Inr None)"
  using store_run_inv [OF assms(1) store_inv_new assms(2)]
  by (auto simp: store_inv_def waiting_senders_def Store_new_def)

end
