(* ===== verification/Consensus_Channels.thy ===== *)
theory Consensus_Channels
  imports Messages Store_Model
begin

text \<open>
  What the tasks of the consensus crate send each other: the messages of the network
  (\<open>consensus/src/consensus.rs\<close>), of the proposer, of the mempool and of the payload waiter. The
  effects of a handler are collected in order in a list of type \<open>Effect\<close>.

  The serializer \<open>bincode\<close> is a parameter where its result is stored and read back; messages on the
  network are kept as values, since serializing these types cannot fail.
\<close>

record env = store_env +
  ser_block :: "Block \<Rightarrow> byte list"
  de_block :: "byte list \<Rightarrow> string + Block"

definition CHANNEL_CAPACITY :: nat where
  "CHANNEL_CAPACITY = 1000"

datatype ConsensusMessage =
    MPropose Block
  | MVote Vote
  | MTimeout Timeout
  | MTC TC
  | MSyncRequest Digest PublicKey

datatype ProposerMessage = PMake Round QC "TC option" | PCleanup "Digest list"

datatype ConsensusMempoolMessage = Synchronize "Digest list" PublicKey | MempoolCleanup Round

datatype PayloadWaiterMessage = PWait "Digest list" Block | PWCleanup Round

text \<open>
  \<open>CreatedVote\<close> and \<open>CreatedTimeout\<close> are the log lines \<open>Created ...\<close> that follow the signing of a
  vote and of a timeout: they record what this node signed.
\<close>

datatype Effect =
    NetSend SocketAddr ConsensusMessage
  | NetBroadcast "SocketAddr list" ConsensusMessage
  | ToProposer ProposerMessage
  | ToMempool ConsensusMempoolMessage
  | ToPayloadWaiter PayloadWaiterMessage
  | ToSynchronizer Block
  | ToCommit Block
  | ResetTimer
  | CreatedVote Vote
  | CreatedTimeout Timeout

text \<open>Documented behaviour of \<open>bincode\<close>: deserializing undoes serializing.\<close>

definition bincode_ok :: "'a env_scheme \<Rightarrow> bool" where
  "bincode_ok E \<longleftrightarrow> (\<forall>b. de_block E (ser_block E b) = Inr b)"

section \<open>Incoming messages\<close>

text \<open>
  \<open>ConsensusReceiverHandler::dispatch\<close>, on a message that deserialized: a sync request goes to the
  helper, everything else to the core, and a proposal is acknowledged first.
\<close>

datatype DispatchEffect = Ack | ToHelper Digest PublicKey | ToCore ConsensusMessage

fun consensus_dispatch :: "string + ConsensusMessage \<Rightarrow> (ConsensusError, DispatchEffect list) outcome" where
  "consensus_dispatch (Inl e) = Err (SerializationError e)"
| "consensus_dispatch (Inr (MSyncRequest missing origin)) = Ok [ToHelper missing origin]"
| "consensus_dispatch (Inr (MPropose b)) = Ok [Ack, ToCore (MPropose b)]"
| "consensus_dispatch (Inr message) = Ok [ToCore message]"

text \<open>
  The handler of a connection with its channels, the messages sent so far or \<open>None\<close> once the receiving
  task has stopped: each \<open>expect\<close> panics on a closed channel. The result of sending \<open>Ack\<close> is ignored.
\<close>

record HandlerChannels =
  hc_core :: "ConsensusMessage list option"
  hc_helper :: "(Digest \<times> PublicKey) list option"

fun deliver_effects ::
  "DispatchEffect list \<Rightarrow> HandlerChannels \<Rightarrow> (ConsensusError, unit) outcome \<times> HandlerChannels" where
  "deliver_effects [] hc = (Ok (), hc)"
| "deliver_effects (Ack # es) hc = deliver_effects es hc"
| "deliver_effects (ToCore message # es) hc =
     (case hc_core hc of
        None \<Rightarrow> (Panic ''Failed to consensus message'', hc)
      | Some sent \<Rightarrow> deliver_effects es (hc\<lparr>hc_core := Some (sent @ [message])\<rparr>))"
| "deliver_effects (ToHelper missing origin # es) hc =
     (case hc_helper hc of
        None \<Rightarrow> (Panic ''Failed to send consensus message'', hc)
      | Some sent \<Rightarrow> deliver_effects es (hc\<lparr>hc_helper := Some (sent @ [(missing, origin)])\<rparr>))"

definition handler_dispatch ::
  "string + ConsensusMessage \<Rightarrow> HandlerChannels \<Rightarrow> (ConsensusError, unit) outcome \<times> HandlerChannels" where
  "handler_dispatch m hc = then_ok (consensus_dispatch m, hc) deliver_effects"

text \<open>The core's \<open>panic!("Unexpected protocol message")\<close> is unreachable through the receiver.\<close>

lemma dispatch_no_sync_request:
  "consensus_dispatch m = Ok es \<Longrightarrow> ToCore (MSyncRequest d pk) \<notin> set es"
  by (cases m rule: consensus_dispatch.cases) auto

end
