(* ===== verification/Synchronizer_Model.thy ===== *)
theory Synchronizer_Model
  imports Consensus_Channels
begin

text \<open>
  The consensus synchronizer (\<open>consensus/src/synchronizer.rs\<close>): looking up the ancestors of a block
  in the store, and the task that asks other nodes for missing parents and hands suspended blocks
  back to the core.
\<close>

section \<open>Ancestors\<close>

text \<open>The second component lists the blocks sent to the task through \<open>inner_channel\<close>.\<close>

definition get_parent_block ::
  "'a env_scheme \<Rightarrow> puts \<Rightarrow> Block \<Rightarrow> (ConsensusError, Block option) outcome \<times> Effect list" where
  "get_parent_block E db block =
     (if QC_eq (b_qc block) QC_genesis then (Ok (Some Block_genesis), [])
      else
        case Store_read E db (Digest_to_vec (Block_parent block)) of
          Ok (Some bytes) \<Rightarrow>
            (case de_block E bytes of
               Inl e \<Rightarrow> (Err (SerializationError e), [])
             | Inr parent \<Rightarrow> (Ok (Some parent), []))
        | Ok None \<Rightarrow> (Ok None, [ToSynchronizer block])
        | Err e \<Rightarrow> (Err (StoreError e), [])
        | Panic m \<Rightarrow> (Panic m, [])
        | Hang \<Rightarrow> (Hang, []))"

definition get_ancestors ::
  "'a env_scheme \<Rightarrow> puts \<Rightarrow> Block \<Rightarrow> (ConsensusError, (Block \<times> Block) option) outcome \<times> Effect list" where
  "get_ancestors E db block =
     then_ok (get_parent_block E db block) (\<lambda>r es.
       case r of
         None \<Rightarrow> (Ok None, es)
       | Some b1 \<Rightarrow>
           (case get_parent_block E db b1 of (r', es') \<Rightarrow>
             then_ok (r', es @ es') (\<lambda>r' es.
               case r' of
                 None \<Rightarrow> (Panic ''We should have all ancestors of delivered blocks'', es)
               | Some b0 \<Rightarrow> (Ok (Some (b0, b1)), es))))"

text \<open>The parent a store holds for a block, when the lookup succeeds.\<close>

definition parent_in :: "'a env_scheme \<Rightarrow> puts \<Rightarrow> Block \<Rightarrow> Block option" where
  "parent_in E db b = (case fst (get_parent_block E db b) of Ok r \<Rightarrow> r | _ \<Rightarrow> None)"

lemma get_parent_block_Some:
  "get_parent_block E db b = (Ok (Some p), es) \<longleftrightarrow> parent_in E db b = Some p \<and> es = []"
  by (auto simp: get_parent_block_def parent_in_def split: outcome.splits option.splits sum.splits)

lemma get_parent_block_None:
  "get_parent_block E db b = (Ok None, es) \<Longrightarrow> es = [ToSynchronizer b]"
  by (auto simp: get_parent_block_def split: outcome.splits option.splits sum.splits if_splits)

lemma get_ancestors_Some:
  "get_ancestors E db b = (Ok (Some (b0, b1)), es) \<longleftrightarrow>
     parent_in E db b = Some b1 \<and> parent_in E db b1 = Some b0 \<and> es = []"
proof -
  obtain r1 e1 where p1: "get_parent_block E db b = (r1, e1)" by (cases "get_parent_block E db b")
  show ?thesis
  proof (cases "\<exists>y. r1 = Ok (Some y)")
    case True
    then obtain y where r1: "r1 = Ok (Some y)" by blast
    with p1 have e1: "e1 = []" and y: "parent_in E db b = Some y"
      by (simp_all add: get_parent_block_Some)
    obtain r2 e2 where p2: "get_parent_block E db y = (r2, e2)" by (cases "get_parent_block E db y")
    show ?thesis
    proof (cases "\<exists>z. r2 = Ok (Some z)")
      case True
      then obtain z where r2: "r2 = Ok (Some z)" by blast
      with p2 have "e2 = []" and "parent_in E db y = Some z"
        by (simp_all add: get_parent_block_Some)
      then show ?thesis using p1 p2 r1 r2 e1 y by (auto simp: get_ancestors_def)
    next
      case False
      then have "parent_in E db y = None"
        using p2 by (auto simp: parent_in_def split: outcome.split)
      then show ?thesis using p1 p2 r1 e1 y False
        by (cases r2) (auto simp: get_ancestors_def split: option.splits)
    qed
  next
    case False
    then have "parent_in E db b = None"
      using p1 by (auto simp: parent_in_def split: outcome.split)
    then show ?thesis using p1 False
      by (cases r1) (auto simp: get_ancestors_def split: option.splits)
  qed
qed

lemma get_ancestors_None:
  assumes "get_ancestors E db b = (Ok None, es)"
  shows "get_parent_block E db b = (Ok None, es) \<and> es = [ToSynchronizer b]"
proof -
  from assms obtain r es1 where r: "get_parent_block E db b = (Ok r, es1)"
    unfolding get_ancestors_def by (auto simp: then_ok_Ok_iff)
  with assms have "r = None \<and> es1 = es"
    unfolding get_ancestors_def
    by (cases r) (auto simp: then_ok_Ok_iff split: prod.splits option.splits)
  with r show ?thesis using get_parent_block_None by auto
qed

lemma parent_in_genesis [simp]: "QC_eq (b_qc b) QC_genesis \<Longrightarrow> parent_in E db b = Some Block_genesis"
  by (simp add: parent_in_def get_parent_block_def)

lemma parent_in_read:
  "\<not> QC_eq (b_qc b) QC_genesis \<Longrightarrow> parent_in E db b = Some p \<Longrightarrow>
    \<exists>bytes. Store_read E db (Digest_to_vec (Block_parent b)) = Ok (Some bytes) \<and> de_block E bytes = Inr p"
  by (auto simp: parent_in_def get_parent_block_def split: outcome.splits option.splits sum.splits)

text \<open>
  The panic \<open>We should have all ancestors of delivered blocks\<close> cannot happen while the store is
  closed: every block it delivers as a parent has its own parent there.
\<close>

definition store_closed :: "'a env_scheme \<Rightarrow> puts \<Rightarrow> bool" where
  "store_closed E db \<longleftrightarrow>
     (\<forall>b p. parent_in E db b = Some p \<longrightarrow> (\<exists>g. parent_in E db p = Some g))"

lemma get_ancestors_completes:
  assumes "rocks_ok E" "store_closed E db"
  shows "completes (fst (get_ancestors E db b))"
proof -
  have reads: "\<exists>r. Store_read E db k = Ok r" for k using db.kv_total [OF assms(1)] .
  have parent: "completes (fst (get_parent_block E db x))" for x
    using reads [of "Digest_to_vec (Block_parent x)"]
    by (auto simp: get_parent_block_def split: option.split sum.split)
  show ?thesis
    unfolding get_ancestors_def
  proof (rule completes_then_ok)
    fix r es
    assume r: "get_parent_block E db b = (Ok r, es)"
    show "completes (fst (case r of None \<Rightarrow> (Ok None, es)
       | Some b1 \<Rightarrow> (case get_parent_block E db b1 of (r', es') \<Rightarrow> then_ok (r', es @ es') (\<lambda>r' es.
               case r' of None \<Rightarrow> (Panic ''We should have all ancestors of delivered blocks'', es)
               | Some b0 \<Rightarrow> (Ok (Some (b0, b1)), es)))))"
    proof (cases r)
      case (Some b1)
      then have "parent_in E db b = Some b1" using r by (simp add: get_parent_block_Some)
      then obtain b0 where "parent_in E db b1 = Some b0"
        using assms(2) unfolding store_closed_def by blast
      then have "get_parent_block E db b1 = (Ok (Some b0), [])" by (simp add: get_parent_block_Some)
      then show ?thesis using Some by simp
    qed simp
  qed (rule parent)
qed

end
