(* ===== verification/Mempool_Driver.thy ===== *)
theory Mempool_Driver
  imports Consensus_Channels
begin

text \<open>
  The mempool driver (\<open>consensus/src/mempool.rs\<close>): the availability check of a block's payload.
\<close>

text \<open>The loop of \<open>verify\<close> over the payload: it stops at the first error of the store.\<close>

fun missing_payload ::
  "'a env_scheme \<Rightarrow> puts \<Rightarrow> Digest list \<Rightarrow> Digest list \<Rightarrow> (ConsensusError, Digest list) outcome" where
  "missing_payload E db [] missing = Ok missing"
| "missing_payload E db (x # xs) missing =
     (case Store_read E db (Digest_to_vec x) of
        Ok None \<Rightarrow> missing_payload E db xs (missing @ [x])
      | Ok (Some _) \<Rightarrow> missing_payload E db xs missing
      | Err e \<Rightarrow> Err (StoreError e)
      | Panic m \<Rightarrow> Panic m
      | Hang \<Rightarrow> Hang)"

definition MempoolDriver_verify ::
  "'a env_scheme \<Rightarrow> puts \<Rightarrow> Block \<Rightarrow> (ConsensusError, bool) outcome \<times> Effect list" where
  "MempoolDriver_verify E db block =
     then_ok (missing_payload E db (b_payload block) [], []) (\<lambda>missing es.
       if missing = [] then (Ok True, es)
       else (Ok False, es @ [ToMempool (Synchronize missing (b_author block)),
                             ToPayloadWaiter (PWait missing block)]))"

definition MempoolDriver_cleanup :: "Round \<Rightarrow> Effect list" where
  "MempoolDriver_cleanup round = [ToMempool (MempoolCleanup round), ToPayloadWaiter (PWCleanup round)]"

lemma missing_payload_eq:
  assumes "rocks_ok E"
  shows "missing_payload E db xs acc =
    Ok (acc @ filter (\<lambda>x. \<not> db.present E db (Digest_to_vec x)) xs)"
proof (induction xs arbitrary: acc)
  case (Cons x xs)
  from db.kv_total [OF assms] obtain r where "Store_read E db (Digest_to_vec x) = Ok r" by blast
  with Cons show ?case by (cases r) (auto simp: db.present_def)
qed simp

text \<open>
  The check answers true exactly when every batch of the payload is in the store; otherwise it asks
  the mempool for exactly the missing batches, from the block's author, and registers the block
  with the payload waiter.
\<close>

lemma MempoolDriver_verify_eq:
  assumes "rocks_ok E"
  shows "MempoolDriver_verify E db b =
    (let missing = filter (\<lambda>x. \<not> db.present E db (Digest_to_vec x)) (b_payload b)
     in if missing = [] then (Ok True, [])
        else (Ok False, [ToMempool (Synchronize missing (b_author b)), ToPayloadWaiter (PWait missing b)]))"
  by (simp add: MempoolDriver_verify_def missing_payload_eq [OF assms] Let_def del: filter_empty_conv)

lemma MempoolDriver_verify_effects:
  "MempoolDriver_verify E db b = (r, es) \<Longrightarrow>
     \<forall>e \<in> set es. (\<exists>m. e = ToMempool m) \<or> (\<exists>m. e = ToPayloadWaiter (PWait m b))"
  unfolding MempoolDriver_verify_def
  by (cases "missing_payload E db (b_payload b) []") (auto split: if_splits)

end
