(* ===== verification/Core_Model.thy ===== *)
theory Core_Model
  imports Aggregator_Model Synchronizer_Model Mempool_Driver
begin

text \<open>
  The consensus core (\<open>consensus/src/core.rs\<close>): one definition per method, in the order of the
  code. A handler takes the state of the core and returns the \<open>ConsensusResult\<close> of the method and
  the state it leaves; mutations made before an early return are kept. What a handler sends is
  appended to \<open>c_out\<close>. The leader elector and the aggregator hold clones of the committee of the
  core, so the model has one committee. The store is shared with the other tasks: \<open>c_db\<close> is the
  history of the puts, and another task's write is an event of its own (\<open>EvStoreWrite\<close>).
\<close>

record Core =
  c_name :: PublicKey
  c_committee :: Committee
  c_secret :: SecretKey
  c_db :: puts
  c_round :: Round
  last_voted_round :: Round
  last_committed_round :: Round
  c_high_qc :: QC
  c_aggregator :: Aggregator
  c_out :: "Effect list"

definition Core_new :: "PublicKey \<Rightarrow> Committee \<Rightarrow> SecretKey \<Rightarrow> puts \<Rightarrow> Core" where
  "Core_new name com sk db =
     \<lparr>c_name = name, c_committee = com, c_secret = sk, c_db = db, c_round = 1,
      last_voted_round = 0, last_committed_round = 0, c_high_qc = QC_genesis,
      c_aggregator = Aggregator_new com, c_out = []\<rparr>"

definition emit :: "Effect \<Rightarrow> Core \<Rightarrow> Core" where
  "emit e c = c\<lparr>c_out := c_out c @ [e]\<rparr>"

definition with_effects :: "'r \<times> Effect list \<Rightarrow> Core \<Rightarrow> 'r \<times> Core" where
  "with_effects re c = (fst re, c\<lparr>c_out := c_out c @ snd re\<rparr>)"

definition store_block :: "'a env_scheme \<Rightarrow> Block \<Rightarrow> Core \<Rightarrow> Core" where
  "store_block E block c =
     c\<lparr>c_db := Store_write (Digest_to_vec (Block_digest E block)) (ser_block E block) (c_db c)\<rparr>"

definition increase_last_voted_round :: "Round \<Rightarrow> Core \<Rightarrow> Core" where
  "increase_last_voted_round target c = c\<lparr>last_voted_round := max (last_voted_round c) target\<rparr>"

text \<open>
  The second safety rule of \<open>make_vote\<close>: \<open>&=\<close> does not short-circuit, so the maximum over the
  certificate's rounds is always taken, and its \<open>expect\<close> panics on an empty certificate.
\<close>

definition safety_rule_2 :: "Block \<Rightarrow> (ConsensusError, bool) outcome" where
  "safety_rule_2 block =
     (case b_tc block of
        None \<Rightarrow> Ok (qc_round (b_qc block) + 1 = b_round block)
      | Some tc \<Rightarrow>
          if high_qc_rounds tc = [] then Panic ''Empty TC''
          else Ok (qc_round (b_qc block) + 1 = b_round block
            \<or> (tc_round tc + 1 = b_round block
               \<and> qc_round (b_qc block) \<ge> Max (set (high_qc_rounds tc)))))"

definition make_vote ::
  "'a env_scheme \<Rightarrow> Block \<Rightarrow> Core \<Rightarrow> (ConsensusError, Vote option) outcome \<times> Core" where
  "make_vote E block c =
     then_ok (safety_rule_2 block, c) (\<lambda>rule_2 c.
       let rule_1 = b_round block > last_voted_round c
       in if \<not> (rule_1 \<and> rule_2) then (Ok None, c)
          else
            let c1 = increase_last_voted_round (b_round block) c
            in then_ok (Vote_new E block (c_name c1) (c_secret c1), c1) (\<lambda>vote c. (Ok (Some vote), c)))"

text \<open>
  The loop of \<open>commit\<close> that walks from the block to the last committed round. \<open>to_commit\<close> is the
  deque, front first. \<open>None\<close> is a loop that never ends.
\<close>

partial_function (option) commit_ancestors ::
  "'a env_scheme \<Rightarrow> Round \<Rightarrow> Block \<Rightarrow> Block list \<Rightarrow> Core \<Rightarrow>
   ((ConsensusError, Block list) outcome \<times> Core) option" where
  "commit_ancestors E last_committed parent to_commit c =
     (if last_committed + 1 < b_round parent then
        (case with_effects (get_parent_block E (c_db c) parent) c of (r, c') \<Rightarrow>
           (case r of
              Ok (Some ancestor) \<Rightarrow> commit_ancestors E last_committed ancestor (ancestor # to_commit) c'
            | Ok None \<Rightarrow> Some (Panic ''We should have all the ancestors by now'', c')
            | Err e \<Rightarrow> Some (Err e, c')
            | Panic m \<Rightarrow> Some (Panic m, c')
            | Hang \<Rightarrow> Some (Hang, c')))
      else Some (Ok to_commit, c))"

declare commit_ancestors.simps [code]

definition commit :: "'a env_scheme \<Rightarrow> Block \<Rightarrow> Core \<Rightarrow> (ConsensusError, unit) outcome \<times> Core" where
  "commit E block c =
     (if last_committed_round c \<ge> b_round block then (Ok (), c)
      else
        then_ok (case commit_ancestors E (last_committed_round c) block [] c of
                   None \<Rightarrow> (Hang, c) | Some rc \<Rightarrow> rc) (\<lambda>to_commit c.
          let to_commit = block # to_commit;
              c1 = c\<lparr>last_committed_round := b_round block\<rparr>
          in (Ok (), c1\<lparr>c_out := c_out c1 @ map ToCommit (rev to_commit)\<rparr>)))"

definition update_high_qc :: "QC \<Rightarrow> Core \<Rightarrow> Core" where
  "update_high_qc qc c = (if qc_round qc > qc_round (c_high_qc c) then c\<lparr>c_high_qc := qc\<rparr> else c)"

definition advance_round :: "Round \<Rightarrow> Core \<Rightarrow> Core" where
  "advance_round round c =
     (if round < c_round c then c
      else
        let c1 = emit ResetTimer c;
            c2 = c1\<lparr>c_round := round + 1\<rparr>
        in c2\<lparr>c_aggregator := Aggregator_cleanup (c_round c2) (c_aggregator c2)\<rparr>)"

definition process_qc :: "QC \<Rightarrow> Core \<Rightarrow> Core" where
  "process_qc qc c = update_high_qc qc (advance_round (qc_round qc) c)"

definition generate_proposal :: "TC option \<Rightarrow> Core \<Rightarrow> Core" where
  "generate_proposal tc c = emit (ToProposer (PMake (c_round c) (c_high_qc c) tc)) c"

definition cleanup_proposer :: "Block \<Rightarrow> Block \<Rightarrow> Block \<Rightarrow> Core \<Rightarrow> Core" where
  "cleanup_proposer b0 b1 block c =
     emit (ToProposer (PCleanup (b_payload b0 @ b_payload b1 @ b_payload block))) c"

text \<open>\<open>if self.name == self.leader_elector.get_leader(self.round) { self.generate_proposal(tc) }\<close>\<close>

definition propose_if_leader ::
  "TC option \<Rightarrow> Core \<Rightarrow> (ConsensusError, unit) outcome \<times> Core" where
  "propose_if_leader tc c =
     then_ok (get_leader (c_committee c) (c_round c), c) (\<lambda>leader c.
       if c_name c = leader then (Ok (), generate_proposal tc c) else (Ok (), c))"

definition handle_vote ::
  "'a env_scheme \<Rightarrow> Vote \<Rightarrow> Core \<Rightarrow> (ConsensusError, unit) outcome \<times> Core" where
  "handle_vote E vote c =
     (if v_round vote < c_round c then (Ok (), c)
      else
        then_ok (Vote_verify E vote (c_committee c), c) (\<lambda>_ c.
        then_ok (case add_vote E vote (c_aggregator c) of (r, agg) \<Rightarrow> (r, c\<lparr>c_aggregator := agg\<rparr>))
          (\<lambda>qc c.
            case qc of
              None \<Rightarrow> (Ok (), c)
            | Some qc \<Rightarrow> propose_if_leader None (process_qc qc c))))"

text \<open>The addresses of all other authorities, in the order of the committee's map.\<close>

definition other_addresses :: "Core \<Rightarrow> SocketAddr list" where
  "other_addresses c = map snd (broadcast_addresses (c_committee c) (c_name c))"

definition handle_timeout ::
  "'a env_scheme \<Rightarrow> Timeout \<Rightarrow> Core \<Rightarrow> (ConsensusError, unit) outcome \<times> Core" where
  "handle_timeout E timeout c =
     (if t_round timeout < c_round c then (Ok (), c)
      else
        then_ok (Timeout_verify E timeout (c_committee c), c) (\<lambda>_ c.
        let c = process_qc (t_high_qc timeout) c
        in then_ok (case add_timeout timeout (c_aggregator c) of (r, agg) \<Rightarrow> (r, c\<lparr>c_aggregator := agg\<rparr>))
          (\<lambda>tc c.
            case tc of
              None \<Rightarrow> (Ok (), c)
            | Some tc \<Rightarrow>
                let c = advance_round (tc_round tc) c;
                    c = emit (NetBroadcast (other_addresses c) (MTC tc)) c
                in propose_if_leader (Some tc) c)))"

definition local_timeout_round ::
  "'a env_scheme \<Rightarrow> Core \<Rightarrow> (ConsensusError, unit) outcome \<times> Core" where
  "local_timeout_round E c =
     (let c = increase_last_voted_round (c_round c) c
      in then_ok (Timeout_new E (c_high_qc c) (c_round c) (c_name c) (c_secret c), c) (\<lambda>timeout c.
         let c = emit (CreatedTimeout timeout) c;
             c = emit ResetTimer c;
             c = emit (NetBroadcast (other_addresses c) (MTimeout timeout)) c
         in handle_timeout E timeout c))"

text \<open>What \<open>process_block\<close> does with the vote it made.\<close>

definition deliver_vote ::
  "'a env_scheme \<Rightarrow> Vote \<Rightarrow> Core \<Rightarrow> (ConsensusError, unit) outcome \<times> Core" where
  "deliver_vote E vote c =
     then_ok (get_leader (c_committee c) (c_round c + 1), c) (\<lambda>next_leader c.
       if next_leader = c_name c then handle_vote E vote c
       else
         case committee_address (c_committee c) next_leader of
           None \<Rightarrow> (Panic ''The next leader is not in the committee'', c)
         | Some address \<Rightarrow> (Ok (), emit (NetSend address (MVote vote)) c))"

text \<open>The end of \<open>process_block\<close>: vote for the block if it is of the current round and safe.\<close>

definition vote_block ::
  "'a env_scheme \<Rightarrow> Block \<Rightarrow> Core \<Rightarrow> (ConsensusError, unit) outcome \<times> Core" where
  "vote_block E block c =
     (if b_round block \<noteq> c_round c then (Ok (), c)
      else
        then_ok (make_vote E block c) (\<lambda>vote c.
          case vote of
            None \<Rightarrow> (Ok (), c)
          | Some vote \<Rightarrow> deliver_vote E vote (emit (CreatedVote vote) c)))"

text \<open>\<open>process_block\<close> once the ancestors \<open>b0\<close> and \<open>b1\<close> of the block are known.\<close>

definition process_delivered ::
  "'a env_scheme \<Rightarrow> Block \<Rightarrow> Block \<Rightarrow> Block \<Rightarrow> Core \<Rightarrow> (ConsensusError, unit) outcome \<times> Core" where
  "process_delivered E b0 b1 block c =
     (let c = store_block E block c;
          c = cleanup_proposer b0 b1 block c
      in then_ok
           (if b_round b0 + 1 = b_round b1
            then commit E b0 (c\<lparr>c_out := c_out c @ MempoolDriver_cleanup (b_round b0)\<rparr>)
            else (Ok (), c)) (\<lambda>_ c. vote_block E block c))"

definition process_block ::
  "'a env_scheme \<Rightarrow> Block \<Rightarrow> Core \<Rightarrow> (ConsensusError, unit) outcome \<times> Core" where
  "process_block E block c =
     then_ok (with_effects (get_ancestors E (c_db c) block) c) (\<lambda>ancestors c.
       case ancestors of
         None \<Rightarrow> (Ok (), c)
       | Some (b0, b1) \<Rightarrow> process_delivered E b0 b1 block c)"

text \<open>\<open>handle_proposal\<close> after the checks: advance the round, then check the payload.\<close>

definition process_verified ::
  "'a env_scheme \<Rightarrow> Block \<Rightarrow> Core \<Rightarrow> (ConsensusError, unit) outcome \<times> Core" where
  "process_verified E block c =
     (let c = process_qc (b_qc block) c;
          c = (case b_tc block of Some tc \<Rightarrow> advance_round (tc_round tc) c | None \<Rightarrow> c)
      in then_ok (with_effects (MempoolDriver_verify E (c_db c) block) c) (\<lambda>available c.
           if \<not> available then (Ok (), c) else process_block E block c))"

definition handle_proposal ::
  "'a env_scheme \<Rightarrow> Block \<Rightarrow> Core \<Rightarrow> (ConsensusError, unit) outcome \<times> Core" where
  "handle_proposal E block c =
     then_ok (get_leader (c_committee c) (b_round block), c) (\<lambda>leader c.
     then_ok (ensure (b_author block = leader)
         (WrongLeader (Block_digest E block) (b_author block) (b_round block)), c) (\<lambda>_ c.
     then_ok (Block_verify E block (c_committee c), c) (\<lambda>_ c.
     process_verified E block c)))"

definition handle_tc :: "TC \<Rightarrow> Core \<Rightarrow> (ConsensusError, unit) outcome \<times> Core" where
  "handle_tc tc c = propose_if_leader (Some tc) (advance_round (tc_round tc) c)"

section \<open>The main loop\<close>

text \<open>
  The branches of \<open>select!\<close>: a message from the network, a block handed back by another task, the
  timer. \<open>EvStoreWrite\<close> is a write to the shared store by another task between two handlers.
\<close>

datatype CoreEvent =
    EvMessage ConsensusMessage
  | EvLoopback Block
  | EvTimer
  | EvStoreWrite Key Value

fun core_handle :: "'a env_scheme \<Rightarrow> CoreEvent \<Rightarrow> Core \<Rightarrow> (ConsensusError, unit) outcome \<times> Core" where
  "core_handle E (EvMessage (MPropose block)) c = handle_proposal E block c"
| "core_handle E (EvMessage (MVote vote)) c = handle_vote E vote c"
| "core_handle E (EvMessage (MTimeout timeout)) c = handle_timeout E timeout c"
| "core_handle E (EvMessage (MTC tc)) c = handle_tc tc c"
| "core_handle E (EvMessage (MSyncRequest d pk)) c = (Panic ''Unexpected protocol message'', c)"
| "core_handle E (EvLoopback block) c = process_block E block c"
| "core_handle E EvTimer c = local_timeout_round E c"
| "core_handle E (EvStoreWrite key value) c = (Ok (), c\<lparr>c_db := Store_write key value (c_db c)\<rparr>)"

text \<open>Booting: the first lines of \<open>run\<close>.\<close>

definition core_boot :: "Core \<Rightarrow> (ConsensusError, unit) outcome \<times> Core" where
  "core_boot c = propose_if_leader None (emit ResetTimer c)"

text \<open>
  The loop logs an error and goes on; a panic or a hang ends the task, and the remaining events are
  not handled.
\<close>

fun core_run :: "'a env_scheme \<Rightarrow> CoreEvent list \<Rightarrow> Core \<Rightarrow> (ConsensusError, unit) outcome \<times> Core" where
  "core_run E [] c = (Ok (), c)"
| "core_run E (ev # evs) c =
     (case core_handle E ev c of
        (Panic m, c') \<Rightarrow> (Panic m, c')
      | (Hang, c') \<Rightarrow> (Hang, c')
      | (_, c') \<Rightarrow> core_run E evs c')"

text \<open>
  The reachable states of a core: boot, then any events. The state a panicking handler leaves is
  included and steps from it are admitted, which only makes what is proved of reachable states
  stronger.
\<close>

inductive core_step :: "'a env_scheme \<Rightarrow> Core \<Rightarrow> Core \<Rightarrow> bool" for E where
  step: "core_handle E ev c = (r, c') \<Longrightarrow> core_step E c c'"

inductive core_reachable :: "'a env_scheme \<Rightarrow> Core \<Rightarrow> Core \<Rightarrow> bool" for E c0 where
  boot: "core_boot c0 = (r, c) \<Longrightarrow> core_reachable E c0 c"
| step: "core_reachable E c0 c \<Longrightarrow> core_step E c c' \<Longrightarrow> core_reachable E c0 c'"

inductive_cases core_stepE: "core_step E c c'"

text \<open>
  The block whose return an effect asks for: the synchronizer and the payload waiter loop it back.
  The proposer loops back the blocks it makes, each in answer to one \<open>PMake\<close>. In the states of a live
  core every handler has completed, and only such blocks are looped back.
\<close>

fun requested :: "Effect \<Rightarrow> Block option" where
  "requested (ToSynchronizer b) = Some b"
| "requested (ToPayloadWaiter (PWait missing b)) = Some b"
| "requested e = None"

definition own_proposal :: "Core \<Rightarrow> Block \<Rightarrow> bool" where
  "own_proposal c b \<longleftrightarrow> b_author b = c_name c
     \<and> ToProposer (PMake (b_round b) (b_qc b) (b_tc b)) \<in> set (c_out c)"

fun admissible :: "Core \<Rightarrow> CoreEvent \<Rightarrow> bool" where
  "admissible c (EvLoopback b) \<longleftrightarrow>
     (\<exists>e \<in> set (c_out c). requested e = Some b) \<or> own_proposal c b"
| "admissible c ev \<longleftrightarrow> True"

inductive core_live :: "'a env_scheme \<Rightarrow> Core \<Rightarrow> Core \<Rightarrow> bool" for E c0 where
  boot: "core_boot c0 = (r, c) \<Longrightarrow> completes r \<Longrightarrow> core_live E c0 c"
| step: "core_live E c0 c \<Longrightarrow> admissible c ev \<Longrightarrow> core_handle E ev c = (r, c') \<Longrightarrow> completes r \<Longrightarrow>
    core_live E c0 c'"

lemma core_step_iff: "core_step E c c' \<longleftrightarrow> (\<exists>ev. c' = snd (core_handle E ev c))"
  by (metis core_step.simps snd_conv surj_pair)

end
