(* ===== verification/Core_Relation.thy ===== *)
theory Core_Relation
  imports Core_Model
begin

text \<open>
  The contract between the handlers of the core and what is proved about them: a preorder on states
  that contains the elementary mutations of the core contains every handler. The handlers are
  walked through once, here; an invariant or a monotonicity property is then an interpretation that
  checks the elementary mutations, under the guards the code has passed when it makes them.
\<close>

section \<open>Elementary mutations\<close>

fun plain_effect :: "Effect \<Rightarrow> bool" where
  "plain_effect (CreatedVote v) = False"
| "plain_effect (CreatedTimeout t) = False"
| "plain_effect (ToCommit b) = False"
| "plain_effect (ToProposer (PMake round qc tc)) = False"
| "plain_effect e \<longleftrightarrow> requested e = None"

definition checked_qc :: "'a env_scheme \<Rightarrow> Committee \<Rightarrow> QC \<Rightarrow> bool" where
  "checked_qc E com qc \<longleftrightarrow> QC_eq qc QC_genesis \<or> QC_verify E qc com = Ok ()"

definition absorb_vote :: "'a env_scheme \<Rightarrow> Vote \<Rightarrow> Core \<Rightarrow> Core" where
  "absorb_vote E vote c =
     (case add_vote E vote (c_aggregator c) of
        (Ok (Some qc), agg) \<Rightarrow> process_qc qc (c\<lparr>c_aggregator := agg\<rparr>)
      | (_, agg) \<Rightarrow> c\<lparr>c_aggregator := agg\<rparr>)"

definition absorb_timeout :: "Timeout \<Rightarrow> Core \<Rightarrow> Core" where
  "absorb_timeout timeout c =
     (case add_timeout timeout (c_aggregator c) of
        (Ok (Some tc), agg) \<Rightarrow> advance_round (tc_round tc) (c\<lparr>c_aggregator := agg\<rparr>)
      | (_, agg) \<Rightarrow> c\<lparr>c_aggregator := agg\<rparr>)"

definition sign_vote :: "Block \<Rightarrow> Vote \<Rightarrow> Core \<Rightarrow> Core" where
  "sign_vote block vote c = emit (CreatedVote vote) (increase_last_voted_round (b_round block) c)"

definition sign_timeout :: "Timeout \<Rightarrow> Core \<Rightarrow> Core" where
  "sign_timeout timeout c = emit (CreatedTimeout timeout) (increase_last_voted_round (c_round c) c)"

definition deliver_commits :: "Block \<Rightarrow> Block list \<Rightarrow> Core \<Rightarrow> Core" where
  "deliver_commits block blocks c =
     c\<lparr>last_committed_round := b_round block, c_out := c_out c @ map ToCommit blocks\<rparr>"

text \<open>The block has been put into the store under its digest.\<close>

definition block_stored :: "'a env_scheme \<Rightarrow> Core \<Rightarrow> Block \<Rightarrow> bool" where
  "block_stored E c b \<longleftrightarrow> (Digest_to_vec (Block_digest E b), ser_block E b) \<in> set (c_db c)"

text \<open>
  Looking up ancestors asks only for the block itself, unless it ends in a panic; the loop of
  \<open>commit\<close> asks for nothing unless it ends in a panic.
\<close>

lemma get_parent_block_effects: "set (snd (get_parent_block E db b)) \<subseteq> {ToSynchronizer b}"
  by (auto simp: get_parent_block_def split: outcome.splits option.splits sum.splits)

lemma get_parent_block_quiet: "get_parent_block E db b = (r, es) \<Longrightarrow> r \<noteq> Ok None \<Longrightarrow> es = []"
  by (auto simp: get_parent_block_def split: outcome.splits option.splits sum.splits if_splits)

lemma get_ancestors_effects:
  "set (snd (get_ancestors E db b)) \<subseteq> range ToSynchronizer
   \<and> (completes (fst (get_ancestors E db b)) \<longrightarrow> set (snd (get_ancestors E db b)) \<subseteq> {ToSynchronizer b})"
proof -
  obtain r es where r: "get_parent_block E db b = (r, es)" by (cases "get_parent_block E db b")
  have es: "set es \<subseteq> {ToSynchronizer b}" using get_parent_block_effects [of E db b] r by simp
  show ?thesis
  proof (cases "\<exists>y. r = Ok (Some y)")
    case True
    then obtain y where y: "r = Ok (Some y)" by blast
    then have "es = []" using r by (simp add: get_parent_block_Some)
    obtain r2 es2 where r2: "get_parent_block E db y = (r2, es2)" by (cases "get_parent_block E db y")
    have es2: "set es2 \<subseteq> {ToSynchronizer y}" using get_parent_block_effects [of E db y] r2 by simp
    have eq: "get_ancestors E db b = then_ok (r2, es2) (\<lambda>r' es.
               case r' of
                 None \<Rightarrow> (Panic ''We should have all ancestors of delivered blocks'', es)
               | Some b0 \<Rightarrow> (Ok (Some (b0, y)), es))"
      using r y \<open>es = []\<close> r2 by (simp add: get_ancestors_def)
    show ?thesis
      unfolding eq using es2 get_parent_block_quiet [OF r2]
      by (cases r2) (auto split: option.splits)
  next
    case False
    then show ?thesis using es r by (cases r) (auto simp: get_ancestors_def split: option.splits)
  qed
qed

lemma commit_ancestors_frame:
  assumes "commit_ancestors E lcr parent acc c = Some rc"
  shows "\<exists>es. snd rc = c\<lparr>c_out := c_out c @ es\<rparr> \<and> set es \<subseteq> range ToSynchronizer
    \<and> (completes (fst rc) \<longrightarrow> es = [])"
  using assms
proof (rule commit_ancestors.raw_induct [where P = "\<lambda>E lcr parent acc c rc.
    \<exists>es. snd rc = c\<lparr>c_out := c_out c @ es\<rparr> \<and> set es \<subseteq> range ToSynchronizer
      \<and> (completes (fst rc) \<longrightarrow> es = [])", rotated])
  fix ca and E :: "'a env_scheme" and lcr parent acc c rc
  assume IH: "\<And>E lcr parent acc c rc. ca E lcr parent acc c = Some rc \<Longrightarrow>
      \<exists>es. snd rc = c\<lparr>c_out := c_out c @ es\<rparr> \<and> set es \<subseteq> range ToSynchronizer
        \<and> (completes (fst rc) \<longrightarrow> es = [])"
    and eq: "(if lcr + 1 < b_round parent then
        (case with_effects (get_parent_block E (c_db c) parent) c of (r, c') \<Rightarrow>
           (case r of
              Ok (Some ancestor) \<Rightarrow> ca E lcr ancestor (ancestor # acc) c'
            | Ok None \<Rightarrow> Some (Panic ''We should have all the ancestors by now'', c')
            | Err e \<Rightarrow> Some (Err e, c')
            | Panic m \<Rightarrow> Some (Panic m, c')
            | Hang \<Rightarrow> Some (Hang, c')))
      else Some (Ok acc, c)) = Some rc"
  obtain r es where p: "get_parent_block E (c_db c) parent = (r, es)"
    by (cases "get_parent_block E (c_db c) parent")
  have es: "set es \<subseteq> range ToSynchronizer"
    using get_parent_block_effects [of E "c_db c" parent] p by auto
  have err: "r = Err e \<Longrightarrow> es = []" for e
    using p by (auto simp: get_parent_block_def split: outcome.splits option.splits sum.splits if_splits)
  show "\<exists>es. snd rc = c\<lparr>c_out := c_out c @ es\<rparr> \<and> set es \<subseteq> range ToSynchronizer
      \<and> (completes (fst rc) \<longrightarrow> es = [])"
  proof (cases "lcr + 1 < b_round parent \<and> (\<exists>a. r = Ok (Some a))")
    case True
    then obtain a where a: "r = Ok (Some a)" by blast
    with p have "es = []" by (simp add: get_parent_block_Some)
    then have "ca E lcr a (a # acc) c = Some rc"
      using eq True p a by (simp add: with_effects_def)
    from IH [OF this] show ?thesis .
  next
    case False
    show ?thesis
    proof (cases "lcr + 1 < b_round parent")
      case True
      have none: "\<not> (\<exists>a. r = Ok (Some a))" using False True by simp
      have "snd rc = c\<lparr>c_out := c_out c @ es\<rparr>" "completes (fst rc) \<Longrightarrow> es = []"
        using eq p True none err by (cases r; auto simp: with_effects_def split: option.splits)+
      with es show ?thesis by blast
    next
      case False
      then show ?thesis using eq by (intro exI [of _ "[]"]) auto
    qed
  qed
qed

lemma commit_ancestors_Ok_frame:
  "commit_ancestors E lcr parent acc c = Some (Ok l, c') \<Longrightarrow> c' = c"
  using commit_ancestors_frame [of E lcr parent acc c "(Ok l, c')"] by auto

lemma commit_db: "c_db (snd (commit E block c)) = c_db c"
proof (cases "commit_ancestors E (last_committed_round c) block [] c")
  case (Some rc)
  then show ?thesis
    using commit_ancestors_frame [OF Some]
    by (cases rc; cases "fst rc") (auto simp: commit_def Let_def)
qed (simp add: commit_def)

text \<open>
  \<open>p\<close> was found in the store as the parent of \<open>b\<close>, now or with fewer puts. The blocks that \<open>commit\<close>
  collects are reached from the block by such links.
\<close>

definition parent_link :: "'a env_scheme \<Rightarrow> Core \<Rightarrow> Block \<Rightarrow> Block \<Rightarrow> bool" where
  "parent_link E c b p \<longleftrightarrow> (\<exists>ps db. c_db c = ps @ db \<and> parent_in E db b = Some p)"

lemma parent_link_now: "parent_in E (c_db c) b = Some p \<Longrightarrow> parent_link E c b p"
  unfolding parent_link_def by (metis append_Nil)

lemma parent_link_mono: "parent_link E c b p \<Longrightarrow> c_db c' = ps @ c_db c \<Longrightarrow> parent_link E c' b p"
  unfolding parent_link_def by (metis append.assoc)

lemma parent_links_mono:
  assumes "(parent_link E c)\<^sup>*\<^sup>* b p" and "c_db c' = ps @ c_db c"
  shows "(parent_link E c')\<^sup>*\<^sup>* b p"
  using assms(1)
proof (induction rule: rtranclp_induct)
  case (step p q)
  then show ?case using parent_link_mono [OF _ assms(2)] by (meson rtranclp.rtrancl_into_rtrancl)
qed simp

lemma commit_ancestors_links:
  assumes "commit_ancestors E lcr parent acc c = Some rc"
  shows "\<forall>l. fst rc = Ok l \<longrightarrow> (\<forall>x \<in> set l. x \<in> set acc \<or> (parent_link E c)\<^sup>*\<^sup>* parent x)"
  using assms
proof (rule commit_ancestors.raw_induct [where P = "\<lambda>E lcr parent acc c rc.
    \<forall>l. fst rc = Ok l \<longrightarrow> (\<forall>x \<in> set l. x \<in> set acc \<or> (parent_link E c)\<^sup>*\<^sup>* parent x)", rotated])
  fix ca and E :: "'a env_scheme" and lcr parent acc c rc
  assume IH: "\<And>E lcr parent acc c rc. ca E lcr parent acc c = Some rc \<Longrightarrow>
      \<forall>l. fst rc = Ok l \<longrightarrow> (\<forall>x \<in> set l. x \<in> set acc \<or> (parent_link E c)\<^sup>*\<^sup>* parent x)"
    and eq: "(if lcr + 1 < b_round parent then
        (case with_effects (get_parent_block E (c_db c) parent) c of (r, c') \<Rightarrow>
           (case r of
              Ok (Some ancestor) \<Rightarrow> ca E lcr ancestor (ancestor # acc) c'
            | Ok None \<Rightarrow> Some (Panic ''We should have all the ancestors by now'', c')
            | Err e \<Rightarrow> Some (Err e, c')
            | Panic m \<Rightarrow> Some (Panic m, c')
            | Hang \<Rightarrow> Some (Hang, c')))
      else Some (Ok acc, c)) = Some rc"
  obtain r es where p: "get_parent_block E (c_db c) parent = (r, es)"
    by (cases "get_parent_block E (c_db c) parent")
  show "\<forall>l. fst rc = Ok l \<longrightarrow> (\<forall>x \<in> set l. x \<in> set acc \<or> (parent_link E c)\<^sup>*\<^sup>* parent x)"
  proof (cases "lcr + 1 < b_round parent \<and> (\<exists>a. r = Ok (Some a))")
    case True
    then obtain a where a: "r = Ok (Some a)" by blast
    with p have es: "es = []" and "parent_in E (c_db c) parent = Some a"
      by (simp_all add: get_parent_block_Some)
    then have link: "parent_link E c parent a" by (simp add: parent_link_now)
    have "ca E lcr a (a # acc) c = Some rc"
      using eq True p a es by (simp add: with_effects_def)
    from IH [OF this] link show ?thesis by (fastforce intro: converse_rtranclp_into_rtranclp)
  next
    case False
    then show ?thesis
      using eq p by (cases r) (auto simp: with_effects_def split: if_splits option.splits)
  qed
qed

section \<open>The contract\<close>

text \<open>
  \<open>R\<close> is the preorder. \<open>J c b\<close> says that the certificate of \<open>b\<close> has been processed by the core in
  state \<open>c\<close>; a block is voted for only then, provided that what is looped back is what was asked
  for. \<open>accepted\<close> says which proposals and which writes of other tasks are considered. A client that
  does not need these takes them true; \<open>orphans\<close> says whether \<open>R\<close> also contains the requests made
  just before a panic. What the proposer is asked for rests on the certificates the core holds
  (\<open>core_relation\<close>); where that does not matter, \<open>core_relation_any\<close> has one law for it.
\<close>

locale core_relation_base =
  fixes E :: "'a env_scheme" and R :: "Core \<Rightarrow> Core \<Rightarrow> bool"
    and J :: "Core \<Rightarrow> Block \<Rightarrow> bool" and orphans :: bool
    and accepted :: "CoreEvent \<Rightarrow> bool"
  assumes refl: "R c c"
    and trans: "R c c' \<Longrightarrow> R c' c'' \<Longrightarrow> R c c''"
    and r_emit: "plain_effect e \<Longrightarrow> R c (emit e c)"
    and r_request: "requested e = Some b \<Longrightarrow> J c b \<or> orphans \<Longrightarrow> R c (emit e c)"
    and j_mono: "R c c' \<Longrightarrow> J c b \<Longrightarrow> J c' b"
    and j_process: "accepted (EvMessage (MPropose b)) \<Longrightarrow> Block_verify E b (c_committee c) = Ok () \<Longrightarrow>
      J (process_qc (b_qc b) c) b"
    and r_store: "J c block \<Longrightarrow> parent_in E (c_db c) block = Some b1 \<Longrightarrow> parent_in E (c_db c) b1 = Some b0 \<Longrightarrow>
      R c (store_block E block c)"
    and r_write: "accepted (EvStoreWrite k v) \<Longrightarrow> R c (c\<lparr>c_db := Store_write k v (c_db c)\<rparr>)"
    and r_process_qc: "checked_qc E (c_committee c) qc \<Longrightarrow> R c (process_qc qc c)"
    and r_advance: "R c (advance_round r c)"
    and r_vote: "Vote_verify E vote (c_committee c) = Ok () \<Longrightarrow> \<not> v_round vote < c_round c \<Longrightarrow>
      R c (absorb_vote E vote c)"
    and r_timeout: "Timeout_verify E timeout (c_committee c) = Ok () \<Longrightarrow>
      R c (absorb_timeout timeout c)"
    and r_increase: "R c (increase_last_voted_round r c)"
    and r_sign_vote: "J c block \<Longrightarrow> block_stored E c block \<Longrightarrow> b_round block = c_round c \<Longrightarrow> last_voted_round c < b_round block \<Longrightarrow>
      safety_rule_2 block = Ok True \<Longrightarrow> Vote_new E block (c_name c) (c_secret c) = Ok vote \<Longrightarrow>
      R c (sign_vote block vote c)"
    and r_sign_timeout: "Timeout_new E (c_high_qc c) (c_round c) (c_name c) (c_secret c) = Ok timeout \<Longrightarrow>
      R c (sign_timeout timeout c)"
    and r_commit: "J c b \<Longrightarrow> parent_link E c b b1 \<Longrightarrow> parent_link E c b1 block \<Longrightarrow>
      b_round block + 1 = b_round b1 \<Longrightarrow> last_committed_round c < b_round block \<Longrightarrow>
      (\<forall>x \<in> set blocks. (parent_link E c)\<^sup>*\<^sup>* block x) \<Longrightarrow>
      R c (deliver_commits block blocks c)"

locale core_relation = core_relation_base +
  assumes r_propose: "R c (generate_proposal None c)"
    and r_propose_tc: "accepted (EvMessage (MTC tc)) \<Longrightarrow> R c (generate_proposal (Some tc) c)"
    and r_propose_timeout: "Timeout_verify E timeout (c_committee c) = Ok () \<Longrightarrow>
      add_timeout timeout (c_aggregator c) = (Ok (Some tc), agg) \<Longrightarrow>
      R c (generate_proposal (Some tc)
        (emit (NetBroadcast (other_addresses c) (MTC tc)) (absorb_timeout timeout c)))"
begin

abbreviation allowed :: "('e, 'b) outcome \<Rightarrow> bool" where
  "allowed r \<equiv> orphans \<or> completes r"

lemma then_ok_R:
  assumes "allowed (fst (then_ok m f))" and "allowed (fst m) \<Longrightarrow> R c (snd m)"
    and "\<And>a s. m = (Ok a, s) \<Longrightarrow> R c s \<Longrightarrow> allowed (fst (f a s)) \<Longrightarrow> R s (snd (f a s))"
  shows "R c (snd (then_ok m f))"
  using assms by (cases m; cases "fst m") (auto intro: trans)

lemma check_R: "(\<And>a. m = Ok a \<Longrightarrow> R c (snd (f a c))) \<Longrightarrow> R c (snd (then_ok (m, c) f))"
  by (cases m) (auto intro: refl)

lemma effects_R:
  "\<forall>e \<in> set es. plain_effect e \<or> (\<exists>b. requested e = Some b \<and> (J c b \<or> orphans)) \<Longrightarrow>
    R c (c\<lparr>c_out := c_out c @ es\<rparr>)"
proof (induction es arbitrary: c)
  case Nil
  then show ?case by (simp add: refl)
next
  case (Cons e es)
  have e: "R c (emit e c)" using Cons.prems r_emit r_request by auto
  have "R (emit e c) ((emit e c)\<lparr>c_out := c_out (emit e c) @ es\<rparr>)"
    using Cons j_mono [OF e] by fastforce
  then show ?case
    using trans [OF e] by (simp add: emit_def)
qed

lemma with_effects_R:
  "\<forall>e \<in> set (snd re). plain_effect e \<or> (\<exists>b. requested e = Some b \<and> (J c b \<or> orphans)) \<Longrightarrow>
    R c (snd (with_effects re c))"
  by (simp add: with_effects_def effects_R)

lemma propose_R:
  "R c0 c \<Longrightarrow> R c0 (generate_proposal tc c) \<Longrightarrow> R c0 (snd (propose_if_leader tc c))"
  by (cases "get_leader (c_committee c) (c_round c) :: (ConsensusError, PublicKey) outcome")
    (simp_all add: propose_if_leader_def)

lemma propose_None_R: "R c (snd (propose_if_leader None c))"
  by (rule propose_R [OF refl r_propose])

lemma handle_vote_R: "R c (snd (handle_vote E vote c))"
proof (cases "\<not> v_round vote < c_round c \<and> Vote_verify E vote (c_committee c) = Ok ()")
  case True
  then have abs: "R c (absorb_vote E vote c)" using r_vote by blast
  obtain r agg where r: "add_vote E vote (c_aggregator c) = (r, agg)"
    by (cases "add_vote E vote (c_aggregator c)")
  show ?thesis
  proof (cases r)
    case (Ok qc)
    then show ?thesis
      using True abs r trans [OF abs propose_None_R]
      by (cases qc) (simp_all add: handle_vote_def absorb_vote_def)
  qed (use True abs r in \<open>simp_all add: handle_vote_def absorb_vote_def\<close>)
next
  case False
  then show ?thesis
    by (cases "Vote_verify E vote (c_committee c)") (auto simp: handle_vote_def intro: refl)
qed

lemma handle_timeout_R: "R c (snd (handle_timeout E timeout c))"
proof (cases "\<not> t_round timeout < c_round c \<and> Timeout_verify E timeout (c_committee c) = Ok ()")
  case True
  let ?c = "process_qc (t_high_qc timeout) c"
  have com: "c_committee ?c = c_committee c"
    by (simp add: process_qc_def update_high_qc_def advance_round_def emit_def Let_def)
  have "checked_qc E (c_committee c) (t_high_qc timeout)"
    using True by (simp add: Timeout_verify_Ok_iff checked_qc_def)
  then have qc: "R c ?c" by (rule r_process_qc)
  have abs: "R c (absorb_timeout timeout ?c)"
    using trans [OF qc] r_timeout [of timeout ?c] True com by simp
  obtain r agg where r: "add_timeout timeout (c_aggregator ?c) = (r, agg)"
    by (cases "add_timeout timeout (c_aggregator ?c)")
  show ?thesis
  proof (cases "\<exists>tc. r = Ok (Some tc)")
    case True2: True
    then obtain tc where tc: "r = Ok (Some tc)" by blast
    let ?d = "absorb_timeout timeout ?c"
    have same: "other_addresses ?d = other_addresses ?c"
      using r tc by (simp add: absorb_timeout_def other_addresses_def advance_round_def emit_def Let_def)
    let ?e = "emit (NetBroadcast (other_addresses ?c) (MTC tc)) ?d"
    have sent: "R c ?e" by (rule trans [OF abs r_emit]) simp
    have "R c (generate_proposal (Some tc) ?e)"
      by (rule trans [OF qc r_propose_timeout]) (use True r tc com in simp_all)
    from propose_R [OF sent this] show ?thesis
      using True r tc same by (simp add: handle_timeout_def absorb_timeout_def Let_def)
  next
    case False
    then show ?thesis
      using True abs r
      by (cases r) (auto simp: handle_timeout_def absorb_timeout_def Let_def split: option.splits)
  qed
next
  case False
  then show ?thesis
    by (cases "Timeout_verify E timeout (c_committee c)") (auto simp: handle_timeout_def intro: refl)
qed

lemma local_timeout_R: "R c (snd (local_timeout_round E c))"
proof -
  let ?c = "increase_last_voted_round (c_round c) c"
  have inc: "c_high_qc ?c = c_high_qc c" "c_round ?c = c_round c" "c_name ?c = c_name c"
    "c_secret ?c = c_secret c"
    by (simp_all add: increase_last_voted_round_def)
  show ?thesis
  proof (cases "Timeout_new E (c_high_qc c) (c_round c) (c_name c) (c_secret c)")
    case (Ok t)
    let ?d = "emit ResetTimer (sign_timeout t c)"
    let ?e = "emit (NetBroadcast (other_addresses ?d) (MTimeout t)) ?d"
    have "R c ?d" by (rule trans [OF r_sign_timeout [OF Ok] r_emit]) simp
    then have "R c ?e" by (rule trans [OF _ r_emit]) simp
    from trans [OF this handle_timeout_R [of _ t]] show ?thesis
      using Ok inc by (simp add: local_timeout_round_def Let_def sign_timeout_def)
  qed (use inc r_increase [of c "c_round c"] in \<open>simp_all add: local_timeout_round_def Let_def\<close>)
qed

lemma handle_tc_R: "accepted (EvMessage (MTC tc)) \<Longrightarrow> R c (snd (handle_tc tc c))"
  unfolding handle_tc_def by (rule trans [OF r_advance propose_R [OF refl r_propose_tc]])

lemma deliver_vote_R: "R c (snd (deliver_vote E vote c))"
  by (auto simp: deliver_vote_def intro!: check_R handle_vote_R r_emit refl split: option.split)

lemma commit_R:
  assumes j: "J c b" and l1: "parent_link E c b b1" and l0: "parent_link E c b1 block"
    and two: "b_round block + 1 = b_round b1" and allowed: "allowed (fst (commit E block c))"
  shows "R c (snd (commit E block c))"
proof (cases "last_committed_round c \<ge> b_round block")
  case True
  then show ?thesis by (simp add: commit_def refl)
next
  case False
  show ?thesis
  proof (cases "commit_ancestors E (last_committed_round c) block [] c")
    case None
    then show ?thesis by (simp add: commit_def refl)
  next
    case (Some rc)
    obtain r c' where rc: "rc = (r, c')" by (cases rc)
    have ca: "commit_ancestors E (last_committed_round c) block [] c = Some (r, c')"
      using Some rc by simp
    obtain es where es: "c' = c\<lparr>c_out := c_out c @ es\<rparr>" "set es \<subseteq> range ToSynchronizer"
      "completes r \<Longrightarrow> es = []"
      using commit_ancestors_frame [OF ca] by auto
    have "allowed r" using allowed ca False by (cases r) (simp_all add: commit_def)
    then have "\<forall>e \<in> set es. plain_effect e \<or> (\<exists>b. requested e = Some b \<and> (J c b \<or> orphans))"
      using es(2,3) by auto
    then have base: "R c c'" unfolding es(1) by (rule effects_R)
    show ?thesis
    proof (cases r)
      case (Ok l)
      then have c': "c' = c" using es(1,3) by simp
      have "\<forall>x \<in> set (rev (block # l)). (parent_link E c)\<^sup>*\<^sup>* block x"
        using commit_ancestors_links [OF ca] Ok by auto
      from r_commit [OF j l1 l0 two _ this] show ?thesis
        using Ok ca False c' by (simp add: commit_def deliver_commits_def Let_def)
    qed (use base ca False in \<open>simp_all add: commit_def\<close>)
  qed
qed

lemma vote_block_R:
  assumes j: "J c block" and st: "block_stored E c block"
  shows "R c (snd (vote_block E block c))"
proof (cases "b_round block = c_round c \<and> safety_rule_2 block = Ok True \<and> last_voted_round c < b_round block")
  case True
  let ?c = "increase_last_voted_round (b_round block) c"
  have inc: "c_name ?c = c_name c" "c_secret ?c = c_secret c"
    by (simp_all add: increase_last_voted_round_def)
  show ?thesis
  proof (cases "Vote_new E block (c_name c) (c_secret c)")
    case (Ok vote)
    have "R c (sign_vote block vote c)" using r_sign_vote j st True Ok by blast
    from trans [OF this deliver_vote_R] show ?thesis
      using Ok True inc refl by (simp add: vote_block_def make_vote_def sign_vote_def Let_def)
  qed (use True inc refl r_increase [of c "b_round block"] in
      \<open>simp_all add: vote_block_def make_vote_def Let_def\<close>)
next
  case False
  then show ?thesis
    by (cases "safety_rule_2 block") (auto simp: vote_block_def make_vote_def Let_def intro: refl)
qed

lemma process_delivered_R:
  assumes "J s block" and p1: "parent_in E (c_db s) block = Some b1" and p0: "parent_in E (c_db s) b1 = Some b0"
    and "allowed (fst (process_delivered E b0 b1 block s))"
  shows "R s (snd (process_delivered E b0 b1 block s))"
proof -
  note l1 = parent_link_now [OF p1] and l0 = parent_link_now [OF p0]
  let ?c1 = "store_block E block s"
  let ?c2 = "cleanup_proposer b0 b1 block ?c1"
  have "R s ?c1" using assms(1) p1 p0 by (rule r_store)
  moreover have "R ?c1 ?c2" by (simp add: cleanup_proposer_def r_emit)
  ultimately have c2: "R s ?c2" by (rule trans)
  let ?c3 = "?c2\<lparr>c_out := c_out ?c2 @ MempoolDriver_cleanup (b_round b0)\<rparr>"
  have "\<forall>e \<in> set (MempoolDriver_cleanup (b_round b0)). plain_effect e"
    by (simp add: MempoolDriver_cleanup_def)
  then have cl: "R ?c2 (?c2\<lparr>c_out := c_out ?c2 @ MempoolDriver_cleanup (b_round b0)\<rparr>)"
    by (intro effects_R) blast
  have j: "J ?c3 block" using j_mono [OF trans [OF c2 cl] assms(1)] .
  have db: "c_db ?c3 = [(Digest_to_vec (Block_digest E block), ser_block E block)] @ c_db s"
    by (simp add: cleanup_proposer_def emit_def store_block_def Store_write_def)
  have "R ?c2 (snd (process_delivered E b0 b1 block s))"
    unfolding process_delivered_def Let_def
  proof (rule then_ok_R)
    show "allowed (fst (then_ok
           (if b_round b0 + 1 = b_round b1
            then commit E b0 (?c2\<lparr>c_out := c_out ?c2 @ MempoolDriver_cleanup (b_round b0)\<rparr>)
            else (Ok (), ?c2)) (\<lambda>_ c. vote_block E block c)))"
      using assms(4) by (simp add: process_delivered_def Let_def)
  next
    assume "allowed (fst (if b_round b0 + 1 = b_round b1
            then commit E b0 (?c2\<lparr>c_out := c_out ?c2 @ MempoolDriver_cleanup (b_round b0)\<rparr>)
            else (Ok (), ?c2)))"
    then show "R ?c2 (snd (if b_round b0 + 1 = b_round b1
            then commit E b0 (?c2\<lparr>c_out := c_out ?c2 @ MempoolDriver_cleanup (b_round b0)\<rparr>)
            else (Ok (), ?c2)))"
      using trans [OF cl commit_R [OF j parent_link_mono [OF l1 db] parent_link_mono [OF l0 db]]] refl
      by (cases "b_round b0 + 1 = b_round b1") simp_all
  next
    fix u s'
    assume "R ?c2 s'"
    then have j: "J s' block" using j_mono trans c2 assms(1) by blast
    assume "(if b_round b0 + 1 = b_round b1
            then commit E b0 (?c2\<lparr>c_out := c_out ?c2 @ MempoolDriver_cleanup (b_round b0)\<rparr>)
            else (Ok (), ?c2)) = (Ok u, s')"
    then have "c_db s' = c_db ?c2"
      using commit_db [of E b0 "?c2\<lparr>c_out := c_out ?c2 @ MempoolDriver_cleanup (b_round b0)\<rparr>"]
      by (simp split: if_splits)
    then have "block_stored E s' block"
      by (simp add: block_stored_def cleanup_proposer_def emit_def store_block_def Store_write_def)
    with j show "R s' (snd (vote_block E block s'))" by (rule vote_block_R)
  qed
  with trans c2 show ?thesis by blast
qed

lemma process_block_R:
  assumes "J c block" and "allowed (fst (process_block E block c))"
  shows "R c (snd (process_block E block c))"
  using assms(2) unfolding process_block_def
proof (rule then_ok_R)
  assume "allowed (fst (with_effects (get_ancestors E (c_db c) block) c))"
  then have "\<forall>e \<in> set (snd (get_ancestors E (c_db c) block)).
      plain_effect e \<or> (\<exists>b. requested e = Some b \<and> (J c b \<or> orphans))"
    using get_ancestors_effects [of E "c_db c" block] assms(1)
    by (fastforce simp: with_effects_def)
  then show "R c (snd (with_effects (get_ancestors E (c_db c) block) c))"
    by (rule with_effects_R)
next
  fix anc s
  assume "R c s"
  then have j: "J s block" using j_mono assms(1) by blast
  assume eq: "with_effects (get_ancestors E (c_db c) block) c = (Ok anc, s)"
    and allowed: "allowed (fst (case anc of None \<Rightarrow> (Ok (), s)
       | Some (b0, b1) \<Rightarrow> process_delivered E b0 b1 block s))"
  show "R s (snd (case anc of None \<Rightarrow> (Ok (), s)
       | Some (b0, b1) \<Rightarrow> process_delivered E b0 b1 block s))"
  proof (cases anc)
    case (Some bb)
    obtain b0 b1 where bb: "bb = (b0, b1)" by (cases bb)
    obtain es where "get_ancestors E (c_db c) block = (Ok (Some (b0, b1)), es)"
      using eq Some bb by (cases "get_ancestors E (c_db c) block") (simp add: with_effects_def)
    then have "parent_in E (c_db s) block = Some b1 \<and> parent_in E (c_db s) b1 = Some b0"
      using eq by (auto simp: get_ancestors_Some with_effects_def)
    then show ?thesis
      using process_delivered_R [OF j] allowed Some bb by simp
  qed (simp add: refl)
qed

lemma process_verified_R:
  assumes acc: "accepted (EvMessage (MPropose block))" and ver: "Block_verify E block (c_committee c) = Ok ()"
    and allowed: "allowed (fst (process_verified E block c))"
  shows "R c (snd (process_verified E block c))"
proof -
  have "checked_qc E (c_committee c) (b_qc block)"
    using ver by (simp add: Block_verify_Ok_iff checked_qc_def)
  then have qc: "R c (process_qc (b_qc block) c)" by (rule r_process_qc)
  let ?p = "process_qc (b_qc block) c"
  let ?c = "case b_tc block of Some tc \<Rightarrow> advance_round (tc_round tc) ?p | None \<Rightarrow> ?p"
  have pc: "R ?p ?c" using r_advance refl by (simp split: option.split)
  have c: "R c ?c" by (rule trans [OF qc pc])
  have j: "J ?c block" by (rule j_mono [OF pc j_process [OF acc ver]])
  have eff: "\<forall>e \<in> set (snd (MempoolDriver_verify E (c_db ?c) block)).
      plain_effect e \<or> (\<exists>b. requested e = Some b \<and> (J ?c b \<or> orphans))"
  proof
    fix e
    assume "e \<in> set (snd (MempoolDriver_verify E (c_db ?c) block))"
    then have "(\<exists>m. e = ToMempool m) \<or> (\<exists>m. e = ToPayloadWaiter (PWait m block))"
      using MempoolDriver_verify_effects [OF prod.collapse [symmetric]] by blast
    with j show "plain_effect e \<or> (\<exists>b. requested e = Some b \<and> (J ?c b \<or> orphans))" by auto
  qed
  have "R ?c (snd (process_verified E block c))"
    unfolding process_verified_def Let_def
  proof (rule then_ok_R)
    show "allowed (fst (then_ok (with_effects (MempoolDriver_verify E (c_db ?c) block) ?c)
        (\<lambda>available c. if \<not> available then (Ok (), c) else process_block E block c)))"
      using allowed by (simp add: process_verified_def Let_def)
  next
    fix available s
    assume "R ?c s"
    then have "J s block" using j j_mono by blast
    moreover assume "allowed (fst (if \<not> available then (Ok (), s) else process_block E block s))"
    ultimately show "R s (snd (if \<not> available then (Ok (), s) else process_block E block s))"
      using process_block_R refl by (simp split: if_splits)
  qed (rule with_effects_R [OF eff])
  with trans c show ?thesis by blast
qed

lemma handle_proposal_R:
  assumes "accepted (EvMessage (MPropose block))" and "allowed (fst (handle_proposal E block c))"
  shows "R c (snd (handle_proposal E block c))"
proof (cases "get_leader (c_committee c) (b_round block) = (Ok (b_author block) :: (ConsensusError, PublicKey) outcome)
    \<and> Block_verify E block (c_committee c) = Ok ()")
  case True
  then have "handle_proposal E block c = process_verified E block c"
    by (simp add: handle_proposal_def)
  then show ?thesis using True assms process_verified_R [of block c] by simp
next
  case False
  then show ?thesis
    by (cases "get_leader (c_committee c) (b_round block) :: (ConsensusError, PublicKey) outcome";
        cases "Block_verify E block (c_committee c)")
      (simp_all add: handle_proposal_def ensure_def refl)
qed

text \<open>Every handler, and booting, stays inside the relation.\<close>

lemma core_handle_R:
  assumes "\<And>b. ev = EvLoopback b \<Longrightarrow> J c b" and "accepted ev" and "allowed (fst (core_handle E ev c))"
  shows "R c (snd (core_handle E ev c))"
  using assms
  by (cases "(E, ev, c)" rule: core_handle.cases)
    (auto simp: handle_proposal_R handle_vote_R handle_timeout_R handle_tc_R process_block_R
      local_timeout_R refl r_write)

lemma core_boot_R: "R c (snd (core_boot c))"
  unfolding core_boot_def by (rule trans [OF r_emit propose_None_R]) simp

end

text \<open>A relation that contains every request to the proposer.\<close>

locale core_relation_any = core_relation_base +
  assumes r_generate: "R c (generate_proposal tc c)"

sublocale core_relation_any \<subseteq> core_relation
proof unfold_locales
  fix timeout tc agg and c :: Core
  assume "Timeout_verify E timeout (c_committee c) = Ok ()"
  then have "R c (absorb_timeout timeout c)" by (rule r_timeout)
  then have "R c (emit (NetBroadcast (other_addresses c) (MTC tc)) (absorb_timeout timeout c))"
    by (rule trans [OF _ r_emit]) simp
  then show "R c (generate_proposal (Some tc)
      (emit (NetBroadcast (other_addresses c) (MTC tc)) (absorb_timeout timeout c)))"
    by (rule trans [OF _ r_generate])
qed (rule r_generate)+

text \<open>A relation that needs none of the side conditions relates a core to every later state.\<close>

locale core_relation_all = core_relation_any E R "\<lambda>_ _. True" True "\<lambda>_. True"
  for E :: "'a env_scheme" and R :: "Core \<Rightarrow> Core \<Rightarrow> bool"
begin

lemma core_step_R: "core_step E c c' \<Longrightarrow> R c c'"
  using core_handle_R by (auto simp: core_step_iff)

lemma core_reachable_R: "core_reachable E c0 c \<Longrightarrow> R c0 c"
proof (induction rule: core_reachable.induct)
  case (boot r c)
  then show ?case using core_boot_R [of c0] by simp
next
  case (step c c')
  then show ?case using core_step_R trans by blast
qed

lemma core_run_R: "R c (snd (core_run E evs c))"
proof (induction evs arbitrary: c)
  case (Cons ev evs)
  obtain r c' where h: "core_handle E ev c = (r, c')" by (cases "core_handle E ev c")
  then have "R c c'" using core_handle_R [of ev c] by simp
  with h Cons show ?case by (cases r) (auto intro: trans)
qed (simp add: refl)

end

end
