(* ===== verification/Core_Invariants.thy ===== *)
theory Core_Invariants
  imports Core_Relation
begin

text \<open>
  Invariants of the consensus core, each an interpretation of the contract of \<open>Core_Relation\<close>:
  what only grows, the signing discipline (at most one vote per round, none behind a timeout), the
  certificates the core keeps, and the certificates a timeout reports.
\<close>

lemmas core_mutations =
  emit_def store_block_def process_qc_def update_high_qc_def advance_round_def increase_last_voted_round_def
  absorb_vote_def absorb_timeout_def sign_vote_def sign_timeout_def deliver_commits_def Let_def

section \<open>What only grows\<close>

definition core_grows :: "Core \<Rightarrow> Core \<Rightarrow> bool" where
  "core_grows c c' \<longleftrightarrow>
     c_name c' = c_name c \<and> c_committee c' = c_committee c \<and> c_secret c' = c_secret c
     \<and> last_voted_round c \<le> last_voted_round c'
     \<and> last_committed_round c \<le> last_committed_round c'
     \<and> qc_round (c_high_qc c) \<le> qc_round (c_high_qc c')
     \<and> (\<exists>es. c_out c' = c_out c @ es) \<and> (\<exists>ps. c_db c' = ps @ c_db c)"

lemma core_grows_refl: "core_grows c c"
  by (simp add: core_grows_def)

lemma core_grows_trans:
  assumes "core_grows c c'" and "core_grows c' c''"
  shows "core_grows c c''"
proof -
  from assms obtain es es' ps ps' where "c_out c' = c_out c @ es" "c_out c'' = c_out c' @ es'"
    "c_db c' = ps @ c_db c" "c_db c'' = ps' @ c_db c'"
    unfolding core_grows_def by auto
  then have "(\<exists>es. c_out c'' = c_out c @ es) \<and> (\<exists>ps. c_db c'' = ps @ c_db c)" by simp
  then show ?thesis using assms order_trans unfolding core_grows_def by auto
qed

lemma core_grows_process_qc [simp]: "core_grows c (process_qc qc c)"
  by (auto simp: core_grows_def core_mutations)

lemma core_grows_advance [simp]: "core_grows c (advance_round r c)"
  by (simp add: core_grows_def core_mutations)

lemma core_grows_aggregator [simp]: "core_grows c (c\<lparr>c_aggregator := agg\<rparr>)"
  by (simp add: core_grows_def)

interpretation grows: core_relation_all E core_grows for E :: "'a env_scheme"
proof unfold_locales
  fix vote and c :: Core
  show "core_grows c (absorb_vote E vote c)"
    unfolding absorb_vote_def
    by (auto split: prod.split outcome.split option.split intro: core_grows_trans [OF core_grows_aggregator core_grows_process_qc])
next
  fix timeout and c :: Core
  show "core_grows c (absorb_timeout timeout c)"
    unfolding absorb_timeout_def
    by (auto split: prod.split outcome.split option.split intro: core_grows_trans [OF core_grows_aggregator core_grows_advance])
qed (auto simp: core_grows_refl intro: core_grows_trans,
     auto simp: core_grows_def emit_def generate_proposal_def increase_last_voted_round_def sign_vote_def sign_timeout_def
       deliver_commits_def Store_write_def store_block_def)

lemma handle_grows: "core_handle E ev c = (r, c') \<Longrightarrow> core_grows c c'"
  using grows.core_handle_R [where E = E and ev = ev and c = c] by simp

section \<open>The signing discipline\<close>

text \<open>
  \<open>vote_after a b\<close>: if \<open>b\<close> is the signing of a vote, then the vote's round is above the round of
  whatever \<open>a\<close> signed.
\<close>

fun signed_round :: "Effect \<Rightarrow> Round option" where
  "signed_round (CreatedVote v) = Some (v_round v)"
| "signed_round (CreatedTimeout t) = Some (t_round t)"
| "signed_round e = None"

definition vote_after :: "Effect \<Rightarrow> Effect \<Rightarrow> bool" where
  "vote_after a b \<longleftrightarrow> (\<forall>v r. b = CreatedVote v \<longrightarrow> signed_round a = Some r \<longrightarrow> r < v_round v)"

definition signing_ok :: "Core \<Rightarrow> bool" where
  "signing_ok c \<longleftrightarrow> sorted_wrt vote_after (c_out c)
     \<and> (\<forall>e \<in> set (c_out c). \<forall>r. signed_round e = Some r \<longrightarrow> r \<le> last_voted_round c)
     \<and> (\<forall>v. CreatedVote v \<in> set (c_out c) \<longrightarrow> 0 < v_round v)"

text \<open>Nothing signed, and \<open>last_voted_round\<close> not lowered: the discipline is kept.\<close>

lemma signing_ok_quiet:
  assumes "signing_ok c" and "c_out c' = c_out c @ es" and "\<forall>e \<in> set es. signed_round e = None"
    and "last_voted_round c \<le> last_voted_round c'"
  shows "signing_ok c'"
proof -
  have "vote_after a e" if "e \<in> set es" for a e
    using assms(3) that by (cases e) (auto simp: vote_after_def)
  moreover from this have "sorted_wrt vote_after es" by (induction es) auto
  moreover have "CreatedVote v \<notin> set es" for v using assms(3) by auto
  ultimately show ?thesis
    using assms by (fastforce simp: signing_ok_def sorted_wrt_append)
qed

lemma plain_signed [simp]: "plain_effect e \<Longrightarrow> signed_round e = None"
  by (cases e) auto

lemma requested_signed [simp]: "requested e = Some b \<Longrightarrow> signed_round e = None"
  by (cases e) auto

lemma signing_ok_frame:
  "signing_ok c \<Longrightarrow> c_out c' = c_out c \<Longrightarrow> last_voted_round c' = last_voted_round c \<Longrightarrow> signing_ok c'"
  by (simp add: signing_ok_def)

lemma signing_ok_emit: "signing_ok c \<Longrightarrow> signed_round e = None \<Longrightarrow> signing_ok (emit e c)"
  by (rule signing_ok_quiet [of c _ "[e]"]) (simp_all add: emit_def)

lemma signing_ok_advance: "signing_ok c \<Longrightarrow> signing_ok (advance_round r c)"
  using signing_ok_emit [of c ResetTimer]
  by (auto simp: advance_round_def Let_def intro: signing_ok_frame [of "emit ResetTimer c"])

lemma signing_ok_process_qc: "signing_ok c \<Longrightarrow> signing_ok (process_qc qc c)"
  using signing_ok_advance [of c "qc_round qc"]
  by (auto simp: process_qc_def update_high_qc_def intro: signing_ok_frame)

lemma signing_ok_aggregator: "signing_ok c \<Longrightarrow> signing_ok (c\<lparr>c_aggregator := agg\<rparr>)"
  by (rule signing_ok_frame) simp_all

lemma signing_ok_sign_vote:
  assumes ok: "signing_ok c" and r: "v_round vote = b_round block" "last_voted_round c < b_round block"
  shows "signing_ok (sign_vote block vote c)"
proof -
  have low: "signed_round e = Some q \<Longrightarrow> q < v_round vote" if "e \<in> set (c_out c)" for e q
    using ok r that unfolding signing_ok_def by fastforce
  have out: "c_out (sign_vote block vote c) = c_out c @ [CreatedVote vote]"
    and lvr: "last_voted_round (sign_vote block vote c) = v_round vote"
    using r by (auto simp: core_mutations max_def)
  have "0 < v_round vote" using r by (metis word_not_simps(1) word_neq_0_conv)
  then show ?thesis
    using ok low out lvr
    by (auto simp: signing_ok_def sorted_wrt_append vote_after_def less_imp_le)
qed

lemma signing_ok_sign_timeout:
  assumes ok: "signing_ok c" and r: "t_round timeout = c_round c"
  shows "signing_ok (sign_timeout timeout c)"
proof -
  have out: "c_out (sign_timeout timeout c) = c_out c @ [CreatedTimeout timeout]"
    and lvr: "last_voted_round (sign_timeout timeout c) = max (last_voted_round c) (c_round c)"
    by (simp_all add: core_mutations)
  then show ?thesis
    using ok r by (auto simp: signing_ok_def sorted_wrt_append vote_after_def intro: max.coboundedI1)
qed

interpretation signing: core_relation_all E "\<lambda>c c'. signing_ok c \<longrightarrow> signing_ok c'"
  for E :: "'a env_scheme"
proof unfold_locales
  fix c :: Core and vote
  show "signing_ok c \<longrightarrow> signing_ok (absorb_vote E vote c)"
    by (auto simp: absorb_vote_def split: prod.split outcome.split option.split
        intro: signing_ok_process_qc signing_ok_aggregator)
next
  fix c :: Core and timeout
  show "signing_ok c \<longrightarrow> signing_ok (absorb_timeout timeout c)"
    by (auto simp: absorb_timeout_def split: prod.split outcome.split option.split
        intro: signing_ok_advance signing_ok_aggregator)
next
  fix block and c :: Core and vote
  assume "last_voted_round c < b_round block" "Vote_new E block (c_name c) (c_secret c) = Ok vote"
  then show "signing_ok c \<longrightarrow> signing_ok (sign_vote block vote c)"
    using Vote_new_Ok signing_ok_sign_vote by blast
next
  fix c :: Core and timeout
  assume "Timeout_new E (c_high_qc c) (c_round c) (c_name c) (c_secret c) = Ok timeout"
  then show "signing_ok c \<longrightarrow> signing_ok (sign_timeout timeout c)"
    using Timeout_new_Ok signing_ok_sign_timeout by blast
next
  fix c :: Core and block blocks
  have "\<forall>e \<in> set (map ToCommit blocks). signed_round e = None" by auto
  then show "signing_ok c \<longrightarrow> signing_ok (deliver_commits block blocks c)"
    using signing_ok_quiet [of c "deliver_commits block blocks c" "map ToCommit blocks"]
    by (simp add: deliver_commits_def)
qed (auto simp: generate_proposal_def intro: signing_ok_emit signing_ok_process_qc signing_ok_advance,
     auto intro: signing_ok_quiet [of _ _ "[]"] simp: increase_last_voted_round_def store_block_def)

lemma signing_ok_new [simp]: "signing_ok (Core_new name com sk db)"
  by (simp add: signing_ok_def Core_new_def)

section \<open>Votes are kept for the current and later rounds only\<close>

definition votes_recent :: "Core \<Rightarrow> bool" where
  "votes_recent c \<longleftrightarrow> (\<forall>r \<in> hm_keys (votes_aggregators (c_aggregator c)). c_round c \<le> r)"

lemma hm_keys_cleanup:
  "hm_keys (votes_aggregators (Aggregator_cleanup r agg))
     = {k \<in> hm_keys (votes_aggregators agg). r \<le> k}"
  using hm_keys_filter_key [of "\<lambda>k. r \<le> k" "votes_aggregators agg"]
  by (simp add: Aggregator_cleanup_def case_prod_unfold)

lemma votes_recent_frame:
  "votes_recent c \<Longrightarrow> c_aggregator c' = c_aggregator c \<Longrightarrow> c_round c' = c_round c \<Longrightarrow> votes_recent c'"
  by (simp add: votes_recent_def)

lemma votes_recent_advance: "votes_recent c \<Longrightarrow> votes_recent (advance_round r c)"
  by (auto simp: advance_round_def Let_def votes_recent_def hm_keys_cleanup)

lemma votes_recent_process_qc: "votes_recent c \<Longrightarrow> votes_recent (process_qc qc c)"
  using votes_recent_advance [of c "qc_round qc"]
  by (auto simp: process_qc_def update_high_qc_def intro: votes_recent_frame)

lemma votes_recent_add_vote:
  "votes_recent c \<Longrightarrow> c_round c \<le> v_round vote \<Longrightarrow>
   votes_recent (c\<lparr>c_aggregator := snd (add_vote E vote (c_aggregator c))\<rparr>)"
  by (auto simp: votes_recent_def add_vote_def Let_def split: prod.split)

lemma votes_recent_add_timeout:
  "votes_recent c \<Longrightarrow> votes_recent (c\<lparr>c_aggregator := snd (add_timeout t (c_aggregator c))\<rparr>)"
  by (auto simp: votes_recent_def add_timeout_def Let_def split: prod.split)

interpretation recent: core_relation_all E "\<lambda>c c'. votes_recent c \<longrightarrow> votes_recent c'"
  for E :: "'a env_scheme"
proof unfold_locales
  fix c :: Core and vote :: Vote
  assume "\<not> v_round vote < c_round c"
  then show "votes_recent c \<longrightarrow> votes_recent (absorb_vote E vote c)"
    using votes_recent_add_vote [of c vote E]
    by (auto simp: absorb_vote_def split: prod.split outcome.split option.split
        intro: votes_recent_process_qc)
next
  fix c :: Core and timeout
  show "votes_recent c \<longrightarrow> votes_recent (absorb_timeout timeout c)"
    using votes_recent_add_timeout [of c timeout]
    by (auto simp: absorb_timeout_def split: prod.split outcome.split option.split
        intro: votes_recent_advance)
qed (auto intro: votes_recent_process_qc votes_recent_advance,
     auto intro: votes_recent_frame simp: emit_def generate_proposal_def increase_last_voted_round_def sign_vote_def
       sign_timeout_def deliver_commits_def store_block_def)

lemma votes_recent_new [simp]: "votes_recent (Core_new name com sk db)"
  by (simp add: votes_recent_def Core_new_def Aggregator_new_def)

section \<open>The certificates the core keeps\<close>

definition certs_ok :: "'a env_scheme \<Rightarrow> Core \<Rightarrow> bool" where
  "certs_ok E c \<longleftrightarrow> ag_committee (c_aggregator c) = c_committee c \<and> aggregator_ok E (c_aggregator c)
     \<and> checked_qc E (c_committee c) (c_high_qc c)"

definition certs_kept :: "'a env_scheme \<Rightarrow> Core \<Rightarrow> Core \<Rightarrow> bool" where
  "certs_kept E c c' \<longleftrightarrow> c_committee c' = c_committee c
     \<and> (committee_valid (c_committee c) \<and> batch_complete E \<and> certs_ok E c \<longrightarrow> certs_ok E c')"

lemma certs_ok_advance:
  "certs_ok E c \<Longrightarrow> certs_ok E (advance_round r c) \<and> c_committee (advance_round r c) = c_committee c"
  by (simp add: certs_ok_def advance_round_def emit_def Let_def)

lemma certs_ok_process_qc:
  assumes "certs_ok E c" and "checked_qc E (c_committee c) qc"
  shows "certs_ok E (process_qc qc c)"
  using assms certs_ok_advance [OF assms(1), of "qc_round qc"]
  by (auto simp: process_qc_def update_high_qc_def certs_ok_def)

lemma certs_kept_frame:
  "c_committee c' = c_committee c \<Longrightarrow> c_aggregator c' = c_aggregator c \<Longrightarrow>
   c_high_qc c' = c_high_qc c \<Longrightarrow> certs_kept E c c'"
  by (simp add: certs_kept_def certs_ok_def)

lemma certs_kept_process_qc:
  assumes "checked_qc E (c_committee c) qc"
  shows "certs_kept E c (process_qc qc c)"
proof -
  have "c_committee (process_qc qc c) = c_committee c" by (simp add: core_mutations)
  then show ?thesis using assms certs_ok_process_qc [of E c qc] by (simp add: certs_kept_def)
qed

lemma certs_kept_absorb_vote:
  assumes ver: "Vote_verify E vote (c_committee c) = Ok ()"
  shows "certs_kept E c (absorb_vote E vote c)"
proof -
  obtain r agg where r: "add_vote E vote (c_aggregator c) = (r, agg)"
    by (cases "add_vote E vote (c_aggregator c)")
  have com: "c_committee (absorb_vote E vote c) = c_committee c"
    by (auto simp: core_mutations split: prod.split outcome.split option.split)
  have "certs_ok E (absorb_vote E vote c)"
    if v: "committee_valid (c_committee c)" and b: "batch_complete E" and ok: "certs_ok E c"
  proof -
    let ?c = "c\<lparr>c_aggregator := agg\<rparr>"
    from ok have ag: "ag_committee (c_aggregator c) = c_committee c"
      and agok: "aggregator_ok E (c_aggregator c)" by (simp_all add: certs_ok_def)
    note step = add_vote_ok [OF _ agok b _ r, unfolded ag, OF v ver]
    have "ag_committee agg = c_committee c" using ag_committee_frame(2) r ag by (metis snd_conv)
    then have c: "certs_ok E ?c" using ok step(1) by (simp add: certs_ok_def)
    moreover have "r = Ok (Some qc) \<Longrightarrow> certs_ok E (process_qc qc ?c)" for qc
      using step(2) by (intro certs_ok_process_qc [OF c]) (auto simp: checked_qc_def)
    ultimately show ?thesis
      by (auto simp: absorb_vote_def r split: outcome.split option.split)
  qed
  with com show ?thesis by (simp add: certs_kept_def)
qed

lemma certs_kept_absorb_timeout:
  assumes ver: "Timeout_verify E timeout (c_committee c) = Ok ()"
  shows "certs_kept E c (absorb_timeout timeout c)"
proof -
  obtain r agg where r: "add_timeout timeout (c_aggregator c) = (r, agg)"
    by (cases "add_timeout timeout (c_aggregator c)")
  have com: "c_committee (absorb_timeout timeout c) = c_committee c"
    by (auto simp: core_mutations split: prod.split outcome.split option.split)
  have "certs_ok E (absorb_timeout timeout c)"
    if v: "committee_valid (c_committee c)" and ok: "certs_ok E c"
  proof -
    let ?c = "c\<lparr>c_aggregator := agg\<rparr>"
    from ok have ag: "ag_committee (c_aggregator c) = c_committee c"
      and agok: "aggregator_ok E (c_aggregator c)" by (simp_all add: certs_ok_def)
    note step = add_timeout_ok [OF _ agok _ r, unfolded ag, OF v ver]
    have "ag_committee agg = c_committee c" using ag_committee_frame(3) r ag by (metis snd_conv)
    then have "certs_ok E ?c" using ok step(1) by (simp add: certs_ok_def)
    then show ?thesis
      using certs_ok_advance [of E ?c]
      by (auto simp: absorb_timeout_def r split: outcome.split option.split)
  qed
  with com show ?thesis by (simp add: certs_kept_def)
qed

interpretation certs: core_relation_all E "certs_kept E" for E :: "'a env_scheme"
proof unfold_locales
  fix c c' c'' :: Core
  show "certs_kept E c c' \<Longrightarrow> certs_kept E c' c'' \<Longrightarrow> certs_kept E c c''"
    by (simp add: certs_kept_def)
next
  fix c :: Core and r
  show "certs_kept E c (advance_round r c)"
    using certs_ok_advance [of E c r]
    by (simp add: certs_kept_def) (simp add: advance_round_def emit_def Let_def)
qed (rule certs_kept_absorb_vote certs_kept_absorb_timeout certs_kept_process_qc certs_kept_frame
       TrueI; simp add: core_mutations generate_proposal_def; fail)+

lemma certs_ok_new [simp]: "certs_ok E (Core_new name com sk db)"
  by (simp add: certs_ok_def Core_new_def checked_qc_def QC_eq_def)

section \<open>The certificates the core asks to propose on\<close>

text \<open>
  \<open>handle_tc\<close> does not verify the certificate it passes to the proposer; where the certificates that
  arrive by themselves verify, everything the proposer is asked for rests on certificates that do.
\<close>

definition certs_verify :: "'a env_scheme \<Rightarrow> Committee \<Rightarrow> QC \<Rightarrow> TC option \<Rightarrow> bool" where
  "certs_verify E com qc tc \<longleftrightarrow> checked_qc E com qc
     \<and> (case tc of None \<Rightarrow> True | Some t \<Rightarrow> TC_verify E t com = Ok ())"

definition proposals_ok :: "'a env_scheme \<Rightarrow> Committee \<Rightarrow> Core \<Rightarrow> bool" where
  "proposals_ok E com c \<longleftrightarrow> c_committee c = com \<and> certs_ok E c
     \<and> (\<forall>r qc tc. ToProposer (PMake r qc tc) \<in> set (c_out c) \<longrightarrow> certs_verify E com qc tc)"

definition proposals_kept :: "'a env_scheme \<Rightarrow> Committee \<Rightarrow> Core \<Rightarrow> Core \<Rightarrow> bool" where
  "proposals_kept E com c c' \<longleftrightarrow>
     committee_valid com \<and> batch_complete E \<and> proposals_ok E com c \<longrightarrow> proposals_ok E com c'"

lemma proposals_keptI:
  assumes "certs_kept E c c'" and "c_out c' = c_out c @ es"
    and "\<And>r qc tc. committee_valid com \<Longrightarrow> batch_complete E \<Longrightarrow> certs_ok E c \<Longrightarrow> certs_ok E c' \<Longrightarrow>
      c_committee c = com \<Longrightarrow> c_committee c' = com \<Longrightarrow>
      ToProposer (PMake r qc tc) \<in> set es \<Longrightarrow> certs_verify E com qc tc"
  shows "proposals_kept E com c c'"
  using assms unfolding proposals_kept_def proposals_ok_def certs_kept_def by auto

lemma proposals_kept_generate:
  assumes "certs_ok E c \<Longrightarrow> c_committee c = com \<Longrightarrow> committee_valid com \<Longrightarrow> batch_complete E \<Longrightarrow>
    case tc of None \<Rightarrow> True | Some t \<Rightarrow> TC_verify E t com = Ok ()"
  shows "proposals_kept E com c (generate_proposal tc c)"
proof (rule proposals_keptI [of _ _ _ "[ToProposer (PMake (c_round c) (c_high_qc c) tc)]"])
  show "certs_kept E c (generate_proposal tc c)" by (rule certs.r_generate)
qed (use assms in \<open>auto simp: generate_proposal_def emit_def certs_verify_def certs_ok_def\<close>)

lemma out_mutations:
  "c_out (advance_round r c) = c_out c @ (if r < c_round c then [] else [ResetTimer])"
  "c_out (process_qc qc c) = c_out c @ (if qc_round qc < c_round c then [] else [ResetTimer])"
  "c_out (increase_last_voted_round r c) = c_out c" "c_out (store_block E b c) = c_out c"
  "c_out (sign_vote block vote c) = c_out c @ [CreatedVote vote]"
  "c_out (sign_timeout timeout c) = c_out c @ [CreatedTimeout timeout]"
  "c_out (deliver_commits block blocks c) = c_out c @ map ToCommit blocks"
  by (simp_all add: core_mutations)

lemma out_absorb:
  "\<exists>es. set es \<subseteq> {ResetTimer} \<and> c_out (absorb_vote E vote c) = c_out c @ es"
  "\<exists>es. set es \<subseteq> {ResetTimer} \<and> c_out (absorb_timeout timeout c) = c_out c @ es"
  by (auto simp: absorb_vote_def absorb_timeout_def out_mutations split: prod.split outcome.split option.split)

lemma proposals_kept_trans:
  "proposals_kept E com c c' \<Longrightarrow> proposals_kept E com c' c'' \<Longrightarrow> proposals_kept E com c c''"
  by (simp add: proposals_kept_def)

interpretation proposals: core_relation E "proposals_kept E com" "\<lambda>_ _. True" True
  "\<lambda>ev. \<forall>tc. ev = EvMessage (MTC tc) \<longrightarrow> TC_verify E tc com = Ok ()"
  for E :: "'a env_scheme" and com
proof unfold_locales
  fix vote and c :: Core
  assume v: "Vote_verify E vote (c_committee c) = Ok ()" "\<not> v_round vote < c_round c"
  obtain es where "set es \<subseteq> {ResetTimer}" "c_out (absorb_vote E vote c) = c_out c @ es"
    using out_absorb(1) by blast
  then show "proposals_kept E com c (absorb_vote E vote c)"
    by (intro proposals_keptI [OF certs.r_vote [OF v]]) auto
next
  fix timeout and c :: Core
  assume t: "Timeout_verify E timeout (c_committee c) = Ok ()"
  obtain es where es: "set es \<subseteq> {ResetTimer}" "c_out (absorb_timeout timeout c) = c_out c @ es"
    using out_absorb(2) by blast
  then show absorbed: "proposals_kept E com c (absorb_timeout timeout c)"
    by (intro proposals_keptI [OF certs.r_timeout [OF t]]) auto
  fix tc agg
  assume r: "add_timeout timeout (c_aggregator c) = (Ok (Some tc), agg)"
  let ?d = "absorb_timeout timeout c"
  let ?e = "emit (NetBroadcast (other_addresses c) (MTC tc)) ?d"
  have "certs_kept E c ?e" by (rule certs.trans [OF certs.r_timeout [OF t] certs.r_emit]) simp
  then have e: "certs_kept E c (generate_proposal (Some tc) ?e)"
    by (rule certs.trans [OF _ certs.r_generate])
  show "proposals_kept E com c (generate_proposal (Some tc) ?e)"
  proof (rule proposals_keptI [OF e])
    show "c_out (generate_proposal (Some tc) ?e)
        = c_out c @ es @ [NetBroadcast (other_addresses c) (MTC tc),
            ToProposer (PMake (c_round ?e) (c_high_qc ?e) (Some tc))]"
      by (simp add: generate_proposal_def emit_def es(2))
    fix q qc tc'
    assume v: "committee_valid com" "batch_complete E" "certs_ok E c"
      "certs_ok E (generate_proposal (Some tc) ?e)" "c_committee c = com"
      "c_committee (generate_proposal (Some tc) ?e) = com"
      and m: "ToProposer (PMake q qc tc') \<in> set (es @ [NetBroadcast (other_addresses c) (MTC tc),
            ToProposer (PMake (c_round ?e) (c_high_qc ?e) (Some tc))])"
    have "TC_verify E tc com = Ok ()"
      using add_timeout_ok(2) [of "c_aggregator c" E timeout "Ok (Some tc)" agg] v t r by (auto simp: certs_ok_def)
    moreover have "checked_qc E com (c_high_qc ?e)"
      using v(4,6) by (simp add: certs_ok_def generate_proposal_def emit_def)
    ultimately show "certs_verify E com qc tc'" using m es(1) by (auto simp: certs_verify_def)
  qed
next
  fix c :: Core and tc
  assume "\<forall>tc'. EvMessage (MTC tc) = EvMessage (MTC tc') \<longrightarrow> TC_verify E tc' com = Ok ()"
  then show "proposals_kept E com c (generate_proposal (Some tc) c)"
    by (intro proposals_kept_generate) simp
next
  fix c :: Core
  show "proposals_kept E com c (generate_proposal None c)" by (rule proposals_kept_generate) simp
next
  fix c :: Core and e
  assume e: "plain_effect e"
  show "proposals_kept E com c (emit e c)"
    by (rule proposals_keptI [OF certs.r_emit [OF e], where es = "[e]"]) (use e in \<open>auto simp: emit_def\<close>)
next
  fix c :: Core and e b
  assume e: "requested e = Some b"
  show "proposals_kept E com c (emit e c)"
    by (rule proposals_keptI [OF certs.r_request [OF e], where es = "[e]"]) (use e in \<open>auto simp: emit_def\<close>)
next
  fix c :: Core and block b1 b0
  assume "parent_in E (c_db c) block = Some b1" "parent_in E (c_db c) b1 = Some b0"
  from certs.r_store [OF TrueI this] show "proposals_kept E com c (store_block E block c)"
    by (rule proposals_keptI [where es = "[]"]) (simp_all add: out_mutations)
next
  fix c :: Core and k v
  show "proposals_kept E com c (c\<lparr>c_db := Store_write k v (c_db c)\<rparr>)"
    by (rule proposals_keptI [OF certs.r_write, where es = "[]"]) simp_all
next
  fix c :: Core and qc
  assume "checked_qc E (c_committee c) qc"
  from certs.r_process_qc [OF this] show "proposals_kept E com c (process_qc qc c)"
    by (rule proposals_keptI [OF _ out_mutations(2)]) (simp split: if_splits)
next
  fix c :: Core and r
  show "proposals_kept E com c (advance_round r c)"
    by (rule proposals_keptI [OF certs.r_advance out_mutations(1)]) (simp split: if_splits)
next
  fix c :: Core and r
  show "proposals_kept E com c (increase_last_voted_round r c)"
    by (rule proposals_keptI [OF certs.r_increase, where es = "[]"]) (simp_all add: out_mutations)
next
  fix c :: Core and block vote
  assume "b_round block = c_round c" "last_voted_round c < b_round block" "block_stored E c block"
    "safety_rule_2 block = Ok True" "Vote_new E block (c_name c) (c_secret c) = Ok vote"
  then show "proposals_kept E com c (sign_vote block vote c)"
    by (intro proposals_keptI [OF certs.r_sign_vote, where es = "[CreatedVote vote]"]) (auto simp: out_mutations)
next
  fix c :: Core and timeout
  assume "Timeout_new E (c_high_qc c) (c_round c) (c_name c) (c_secret c) = Ok timeout"
  from certs.r_sign_timeout [OF this] show "proposals_kept E com c (sign_timeout timeout c)"
    by (rule proposals_keptI [OF _ out_mutations(6)]) simp
next
  fix c :: Core and b b1 block :: Block and blocks
  assume "parent_link E c b b1" "parent_link E c b1 block" "b_round block + 1 = b_round b1"
    "last_committed_round c < b_round block" "\<forall>x \<in> set blocks. (parent_link E c)\<^sup>*\<^sup>* block x"
  from certs.r_commit [OF TrueI this] show "proposals_kept E com c (deliver_commits block blocks c)"
    by (rule proposals_keptI [OF _ out_mutations(7)]) auto
qed (auto simp: proposals_kept_def)

lemma proposals_ok_new [simp]: "proposals_ok E com (Core_new name com sk db)"
  by (simp add: proposals_ok_def) (simp add: Core_new_def)

end
