(* ===== verification/Core_Lock.thy ===== *)
theory Core_Lock
  imports Core_Invariants
begin

text \<open>
  What a core's log of signed messages says about its blocks, on a live core (one whose handlers
  completed and that is handed back only blocks it asked for and its own proposals): every vote it signed is for a stored
  block that passed the second safety rule, and a timeout signed after a vote reports a certificate
  at least as high as the one in the block voted for; every block it commits heads, or is an ancestor
  of the head of, a chain of two consecutive rounds below a processed block. \<open>A\<close> is what is assumed
  of the proposals delivered, of the blocks looped back and of the writes of other tasks.
\<close>

definition processed :: "'a env_scheme \<Rightarrow> (CoreEvent \<Rightarrow> bool) \<Rightarrow> Core \<Rightarrow> Block \<Rightarrow> bool" where
  "processed E A c b \<longleftrightarrow> qc_round (b_qc b) \<le> qc_round (c_high_qc c)
     \<and> (Block_verify E b (c_committee c) = Ok () \<and> A (EvMessage (MPropose b)) \<or> A (EvLoopback b))"

definition voted_for ::
  "'a env_scheme \<Rightarrow> (CoreEvent \<Rightarrow> bool) \<Rightarrow> Core \<Rightarrow> Vote \<Rightarrow> Block \<Rightarrow> bool" where
  "voted_for E A c v b \<longleftrightarrow> Vote_new E b (c_name c) (c_secret c) = Ok v \<and> safety_rule_2 b = Ok True
     \<and> block_stored E c b \<and> processed E A c b"

definition timeout_covers ::
  "'a env_scheme \<Rightarrow> (CoreEvent \<Rightarrow> bool) \<Rightarrow> Core \<Rightarrow> Effect \<Rightarrow> Effect \<Rightarrow> bool" where
  "timeout_covers E A c a e \<longleftrightarrow> (\<forall>v t. a = CreatedVote v \<longrightarrow> e = CreatedTimeout t \<longrightarrow>
     (\<exists>b. voted_for E A c v b \<and> qc_round (b_qc b) \<le> qc_round (t_high_qc t)))"

text \<open>
  A block is committed for a reason: the grandparent of a processed block, one round below the
  parent, or an ancestor of such a grandparent.
\<close>

definition committed_for :: "'a env_scheme \<Rightarrow> (CoreEvent \<Rightarrow> bool) \<Rightarrow> Core \<Rightarrow> Block \<Rightarrow> bool" where
  "committed_for E A c x \<longleftrightarrow> (\<exists>b b1 b0. processed E A c b \<and> parent_link E c b b1 \<and> parent_link E c b1 b0
     \<and> b_round b0 + 1 = b_round b1 \<and> (parent_link E c)\<^sup>*\<^sup>* b0 x)"

definition put_ok :: "'a env_scheme \<Rightarrow> (CoreEvent \<Rightarrow> bool) \<Rightarrow> Core \<Rightarrow> Key \<times> Value \<Rightarrow> bool" where
  "put_ok E A c kv \<longleftrightarrow> A (EvStoreWrite (fst kv) (snd kv))
     \<or> (\<exists>b. kv = (Digest_to_vec (Block_digest E b), ser_block E b) \<and> processed E A c b)"

definition lock_ok :: "'a env_scheme \<Rightarrow> (CoreEvent \<Rightarrow> bool) \<Rightarrow> Core \<Rightarrow> bool" where
  "lock_ok E A c \<longleftrightarrow>
     (\<forall>e \<in> set (c_out c). \<forall>b. requested e = Some b \<longrightarrow> processed E A c b)
     \<and> (\<forall>r qc tc. ToProposer (PMake r qc tc) \<in> set (c_out c) \<longrightarrow> qc_round qc \<le> qc_round (c_high_qc c))
     \<and> (\<forall>v. CreatedVote v \<in> set (c_out c) \<longrightarrow> (\<exists>b. voted_for E A c v b))
     \<and> (\<forall>x. ToCommit x \<in> set (c_out c) \<longrightarrow> committed_for E A c x)
     \<and> (\<forall>kv \<in> set (c_db c). put_ok E A c kv)
     \<and> sorted_wrt (timeout_covers E A c) (c_out c)"

lemma processed_grows: "core_grows c c' \<Longrightarrow> processed E A c b \<Longrightarrow> processed E A c' b"
  by (auto simp: processed_def core_grows_def)

lemma voted_for_grows:
  assumes g: "core_grows c c'" and v: "voted_for E A c v b"
  shows "voted_for E A c' v b"
proof -
  have "processed E A c' b" using processed_grows [OF g, of E A] v by (simp add: voted_for_def)
  then show ?thesis using g v by (auto simp: voted_for_def core_grows_def block_stored_def)
qed

lemma timeout_covers_grows:
  "core_grows c c' \<Longrightarrow> timeout_covers E A c a e \<Longrightarrow> timeout_covers E A c' a e"
  using voted_for_grows unfolding timeout_covers_def by blast

lemma committed_for_grows:
  assumes g: "core_grows c c'" and x: "committed_for E A c x"
  shows "committed_for E A c' x"
proof -
  from g obtain ps where db: "c_db c' = ps @ c_db c" by (auto simp: core_grows_def)
  from x obtain b b1 b0 where "processed E A c b" "parent_link E c b b1" "parent_link E c b1 b0"
    "b_round b0 + 1 = b_round b1" "(parent_link E c)\<^sup>*\<^sup>* b0 x"
    unfolding committed_for_def by blast
  then show ?thesis
    using processed_grows [OF g, of E A] parent_link_mono [OF _ db] parent_links_mono [OF _ db]
    unfolding committed_for_def by blast
qed

lemma put_ok_grows: "core_grows c c' \<Longrightarrow> put_ok E A c kv \<Longrightarrow> put_ok E A c' kv"
  using processed_grows unfolding put_ok_def by blast

lemma covers_sorted_grows:
  assumes "lock_ok E A c" and "core_grows c c'"
  shows "sorted_wrt (timeout_covers E A c') (c_out c)"
proof (rule sorted_wrt_mono_rel)
  show "sorted_wrt (timeout_covers E A c) (c_out c)" using assms(1) by (simp add: lock_ok_def)
qed (rule timeout_covers_grows [OF assms(2)])

text \<open>A step of the log: what the new entries and the new puts must satisfy.\<close>

lemma lock_ok_step:
  assumes ok: "lock_ok E A c" and g: "core_grows c c'" and out: "c_out c' = c_out c @ es"
    and req: "\<And>e b. e \<in> set es \<Longrightarrow> requested e = Some b \<Longrightarrow> processed E A c' b"
    and pmake: "\<And>r qc tc. ToProposer (PMake r qc tc) \<in> set es \<Longrightarrow> qc_round qc \<le> qc_round (c_high_qc c')"
    and vote: "\<And>v. CreatedVote v \<in> set es \<Longrightarrow> \<exists>b. voted_for E A c' v b"
    and com: "\<And>x. ToCommit x \<in> set es \<Longrightarrow> committed_for E A c' x"
    and puts: "c_db c' = ps @ c_db c" "\<And>kv. kv \<in> set ps \<Longrightarrow> put_ok E A c' kv"
    and single: "length es \<le> 1 \<or> (\<forall>e \<in> set es. signed_round e = None)"
    and covers: "\<And>a t. a \<in> set (c_out c) \<Longrightarrow> CreatedTimeout t \<in> set es \<Longrightarrow>
      timeout_covers E A c' a (CreatedTimeout t)"
  shows "lock_ok E A c'"
proof -
  have quiet: "timeout_covers E A c' a e" if "\<And>t. e \<noteq> CreatedTimeout t" for a e
    using that by (auto simp: timeout_covers_def)
  have "sorted_wrt (timeout_covers E A c') es"
  proof (cases "length es \<le> 1")
    case True
    then show ?thesis by (cases es) auto
  next
    case False
    then have "\<forall>e \<in> set es. signed_round e = None" using single by simp
    then have "e \<noteq> CreatedTimeout t" if "e \<in> set es" for e t using that by auto
    then have "\<forall>a. \<forall>e \<in> set es. timeout_covers E A c' a e" using quiet by blast
    then show ?thesis by (induction es) auto
  qed
  moreover have "timeout_covers E A c' a e" if "a \<in> set (c_out c)" "e \<in> set es" for a e
    using covers [OF that(1)] that(2) quiet by (cases "\<exists>t. e = CreatedTimeout t") auto
  ultimately have "sorted_wrt (timeout_covers E A c') (c_out c')"
    using out covers_sorted_grows [OF ok g] by (simp add: sorted_wrt_append)
  moreover have "\<forall>e \<in> set (c_out c'). \<forall>b. requested e = Some b \<longrightarrow> processed E A c' b"
    using ok req processed_grows [OF g, of E A] unfolding lock_ok_def out by auto
  moreover have "qc_round qc \<le> qc_round (c_high_qc c')"
    if "ToProposer (PMake r qc tc) \<in> set (c_out c')" for r qc tc
    using ok pmake g that unfolding lock_ok_def out core_grows_def by fastforce
  moreover have "\<forall>v. CreatedVote v \<in> set (c_out c') \<longrightarrow> (\<exists>b. voted_for E A c' v b)"
    using ok vote voted_for_grows [OF g, of E A] unfolding lock_ok_def out by (simp add: ball_Un) blast
  moreover have "\<forall>x. ToCommit x \<in> set (c_out c') \<longrightarrow> committed_for E A c' x"
    using ok com committed_for_grows [OF g, of E A] unfolding lock_ok_def out by auto
  moreover have "\<forall>kv \<in> set (c_db c'). put_ok E A c' kv"
    using ok puts(2) put_ok_grows [OF g, of E A] unfolding lock_ok_def puts(1) by auto
  ultimately show ?thesis by (simp add: lock_ok_def)
qed

definition lock_kept :: "'a env_scheme \<Rightarrow> (CoreEvent \<Rightarrow> bool) \<Rightarrow> Core \<Rightarrow> Core \<Rightarrow> bool" where
  "lock_kept E A c c' \<longleftrightarrow> core_grows c c' \<and> (lock_ok E A c \<longrightarrow> lock_ok E A c')"

lemma lock_kept_refl: "lock_kept E A c c"
  by (simp add: lock_kept_def core_grows_refl)

lemma lock_kept_trans: "lock_kept E A c c' \<Longrightarrow> lock_kept E A c' c'' \<Longrightarrow> lock_kept E A c c''"
  using core_grows_trans by (auto simp: lock_kept_def)

text \<open>
  New log entries that sign nothing and commit nothing, ask only for processed blocks, and propose only
  on certificates not above the highest.
\<close>

lemma lock_kept_quiet:
  assumes "core_grows c c'" and "c_out c' = c_out c @ es" and "c_db c' = c_db c"
    and "\<forall>e \<in> set es. signed_round e = None \<and> (\<forall>x. e \<noteq> ToCommit x)
      \<and> (\<forall>b. requested e = Some b \<longrightarrow> processed E A c' b)
      \<and> (\<forall>r qc tc. e = ToProposer (PMake r qc tc) \<longrightarrow> qc_round qc \<le> qc_round (c_high_qc c'))"
  shows "lock_kept E A c c'"
proof -
  have "lock_ok E A c \<Longrightarrow> lock_ok E A c'"
    by (rule lock_ok_step [of E A c c' es "[]"]) (use assms in fastforce)+
  then show ?thesis using assms(1) by (simp add: lock_kept_def)
qed

lemma out_advance:
  "c_out (advance_round r c) = c_out c @ (if r < c_round c then [] else [ResetTimer])"
  by (simp add: advance_round_def emit_def Let_def)

lemma lock_kept_advance: "lock_kept E A c (advance_round r c)"
  by (rule lock_kept_quiet [OF core_grows_advance out_advance])
    (simp_all add: advance_round_def emit_def Let_def)

lemma lock_kept_process_qc: "lock_kept E A c (process_qc qc c)"
proof (rule lock_kept_quiet [OF core_grows_process_qc])
  show "c_out (process_qc qc c) = c_out c @ (if qc_round qc < c_round c then [] else [ResetTimer])"
    by (simp add: process_qc_def update_high_qc_def out_advance)
qed (simp_all add: process_qc_def update_high_qc_def advance_round_def emit_def Let_def)

lemma lock_kept_aggregator: "lock_kept E A c (c\<lparr>c_aggregator := agg\<rparr>)"
  by (rule lock_kept_quiet [of _ _ "[]"]) auto

text \<open>The steps that sign, store and commit.\<close>

lemma lock_kept_sign_vote:
  assumes j: "processed E A c block" and st: "block_stored E c block"
    and r: "safety_rule_2 block = Ok True"
    and v: "Vote_new E block (c_name c) (c_secret c) = Ok vote"
  shows "lock_kept E A c (sign_vote block vote c)"
proof -
  let ?c = "sign_vote block vote c"
  have g: "core_grows c ?c"
    by (simp add: core_grows_def core_mutations)
  have new: "voted_for E A ?c vote block"
    using assms by (simp add: voted_for_def processed_def block_stored_def core_mutations)
  have "lock_ok E A ?c" if ok: "lock_ok E A c"
    by (rule lock_ok_step [OF ok g, of "[CreatedVote vote]" "[]"])
      (use new in \<open>auto simp: core_mutations\<close>)
  with g show ?thesis by (simp add: lock_kept_def)
qed

lemma lock_kept_sign_timeout:
  assumes t: "Timeout_new E (c_high_qc c) (c_round c) (c_name c) (c_secret c) = Ok timeout"
  shows "lock_kept E A c (sign_timeout timeout c)"
proof -
  let ?c = "sign_timeout timeout c"
  have g: "core_grows c ?c"
    by (simp add: core_grows_def core_mutations)
  have high: "t_high_qc timeout = c_high_qc c"
    using Timeout_new_Ok [OF t] by simp
  have covers: "timeout_covers E A ?c a (CreatedTimeout timeout)"
    if ok: "lock_ok E A c" and a: "a \<in> set (c_out c)" for a
  proof -
    have "\<exists>b. voted_for E A ?c v b \<and> qc_round (b_qc b) \<le> qc_round (t_high_qc timeout)"
      if v: "a = CreatedVote v" for v
    proof -
      have "\<exists>b. voted_for E A c v b" using ok a v unfolding lock_ok_def by blast
      then obtain b where b: "voted_for E A c v b" ..
      then have "qc_round (b_qc b) \<le> qc_round (t_high_qc timeout)"
        by (simp add: high voted_for_def processed_def)
      with voted_for_grows [OF g b] show ?thesis by blast
    qed
    then show ?thesis by (simp add: timeout_covers_def)
  qed
  have "lock_ok E A ?c" if ok: "lock_ok E A c"
    by (rule lock_ok_step [OF ok g, of "[CreatedTimeout timeout]" "[]"])
      (use covers [OF ok] in \<open>auto simp: core_mutations\<close>)
  with g show ?thesis by (simp add: lock_kept_def)
qed

lemma lock_kept_put:
  assumes "c_db c' = kv # c_db c" and "c_out c' = c_out c" and g: "core_grows c c'"
    and kv: "put_ok E A c kv"
  shows "lock_kept E A c c'"
proof -
  have "lock_ok E A c'" if ok: "lock_ok E A c"
    by (rule lock_ok_step [OF ok g, of "[]" "[kv]"])
      (use assms put_ok_grows [OF g kv] in auto)
  with g show ?thesis by (simp add: lock_kept_def)
qed

lemma lock_kept_commit:
  assumes j: "processed E A c b" and l1: "parent_link E c b b1" and l0: "parent_link E c b1 block"
    and two: "b_round block + 1 = b_round b1" and g: "core_grows c (deliver_commits block blocks c)"
    and anc: "\<forall>x \<in> set blocks. (parent_link E c)\<^sup>*\<^sup>* block x"
  shows "lock_kept E A c (deliver_commits block blocks c)"
proof -
  have com: "committed_for E A c x" if "x \<in> set blocks" for x
    using j l1 l0 two anc that unfolding committed_for_def by blast
  have "lock_ok E A (deliver_commits block blocks c)" if ok: "lock_ok E A c"
    by (rule lock_ok_step [OF ok g, of "map ToCommit blocks" "[]"])
      (use committed_for_grows [OF g com] in \<open>auto simp: deliver_commits_def\<close>)
  with g show ?thesis by (simp add: lock_kept_def)
qed

lemma plain_effect_quiet:
  "plain_effect e \<Longrightarrow> signed_round e = None \<and> (\<forall>x. e \<noteq> ToCommit x) \<and> requested e = None
     \<and> (\<forall>r qc tc. e \<noteq> ToProposer (PMake r qc tc))"
  by (cases e rule: plain_effect.cases) auto

interpretation lock: core_relation_any E "lock_kept E A" "processed E A" False A
  for E :: "'a env_scheme" and A
proof unfold_locales
  fix c :: Core and vote :: Vote
  show "lock_kept E A c (absorb_vote E vote c)"
    unfolding absorb_vote_def
    by (auto split: prod.split outcome.split option.split
        intro: lock_kept_aggregator lock_kept_trans [OF lock_kept_aggregator lock_kept_process_qc])
next
  fix c :: Core and timeout :: Timeout
  show "lock_kept E A c (absorb_timeout timeout c)"
    unfolding absorb_timeout_def
    by (auto split: prod.split outcome.split option.split
        intro: lock_kept_aggregator lock_kept_trans [OF lock_kept_aggregator lock_kept_advance])
next
  fix c :: Core and b :: Block
  assume "A (EvMessage (MPropose b))" "Block_verify E b (c_committee c) = Ok ()"
  then show "processed E A (process_qc (b_qc b) c) b"
    by (auto simp: processed_def process_qc_def update_high_qc_def advance_round_def emit_def Let_def)
next
  fix c :: Core and e
  assume e: "plain_effect e"
  show "lock_kept E A c (emit e c)"
    by (rule lock_kept_quiet [of _ _ "[e]", OF grows.r_emit [OF e]])
      (use plain_effect_quiet [OF e] in \<open>auto simp: emit_def\<close>)
next
  fix c :: Core and e b
  assume e: "requested e = Some b" "processed E A c b \<or> False"
  then have "processed E A (emit e c) b" by (simp add: processed_def emit_def)
  then have "\<forall>x \<in> set [e]. signed_round x = None \<and> (\<forall>y. x \<noteq> ToCommit y)
      \<and> (\<forall>b. requested x = Some b \<longrightarrow> processed E A (emit e c) b)
      \<and> (\<forall>r qc tc. x = ToProposer (PMake r qc tc) \<longrightarrow> qc_round qc \<le> qc_round (c_high_qc (emit e c)))"
    using e by auto
  moreover have "core_grows c (emit e c)" by (rule grows.r_request [OF e(1)]) simp
  ultimately show "lock_kept E A c (emit e c)"
    by (intro lock_kept_quiet [of _ _ "[e]"]) (simp_all add: emit_def)
next
  fix c :: Core and tc
  show "lock_kept E A c (generate_proposal tc c)"
    by (rule lock_kept_quiet [of _ _ "[ToProposer (PMake (c_round c) (c_high_qc c) tc)]", OF grows.r_generate])
      (simp_all add: generate_proposal_def emit_def)
next
  fix c c' :: Core and b
  assume "lock_kept E A c c'" "processed E A c b"
  then show "processed E A c' b" using processed_grows by (auto simp: lock_kept_def)
next
  fix c :: Core and k v
  assume "A (EvStoreWrite k v)"
  then show "lock_kept E A c (c\<lparr>c_db := Store_write k v (c_db c)\<rparr>)"
    by (intro lock_kept_put [of _ "(k, v)"] grows.r_write)
      (simp_all add: Store_write_def put_ok_def)
next
  fix c :: Core and block b1 b0
  assume p: "processed E A c block"
    and "parent_in E (c_db c) block = Some b1" "parent_in E (c_db c) b1 = Some b0"
  from grows.r_store [OF TrueI this(2,3)] p show "lock_kept E A c (store_block E block c)"
    by (intro lock_kept_put [of _ "(Digest_to_vec (Block_digest E block), ser_block E block)"])
      (auto simp: Store_write_def put_ok_def store_block_def)
next
  fix c :: Core and r
  show "lock_kept E A c (increase_last_voted_round r c)"
    by (rule lock_kept_quiet [of _ _ "[]", OF grows.r_increase])
      (simp_all add: increase_last_voted_round_def)
next
  fix c :: Core and block b b1 :: Block and blocks
  assume c: "processed E A c b" "parent_link E c b b1" "parent_link E c b1 block"
    "b_round block + 1 = b_round b1" "last_committed_round c < b_round block"
    "\<forall>x \<in> set blocks. (parent_link E c)\<^sup>*\<^sup>* block x"
  have "core_grows c (deliver_commits block blocks c)"
    by (rule grows.r_commit [OF TrueI c(2-6)])
  from lock_kept_commit [OF c(1-4) this c(6)]
  show "lock_kept E A c (deliver_commits block blocks c)" .
qed (auto intro: lock_kept_refl lock_kept_trans lock_kept_process_qc lock_kept_advance
       lock_kept_sign_vote lock_kept_sign_timeout)

lemma lock_ok_new [simp]: "lock_ok E A (Core_new name com sk [])"
  by (simp add: lock_ok_def Core_new_def)

text \<open>One handler, on an admissible and accepted event.\<close>

lemma lock_ok_handle:
  assumes "lock_ok E A c" and "admissible c ev" and "A ev"
    and "core_handle E ev c = (r, c')" and "completes r"
  shows "lock_ok E A c' \<and> core_grows c c'"
proof -
  have "processed E A c b" if ev: "ev = EvLoopback b" for b
  proof (cases "own_proposal c b")
    case True
    then have "qc_round (b_qc b) \<le> qc_round (c_high_qc c)"
      using assms(1) unfolding lock_ok_def own_proposal_def by blast
    then show ?thesis using assms(3) ev by (simp add: processed_def)
  qed (use assms(1,2) ev in \<open>auto simp: lock_ok_def\<close>)
  moreover have "False \<or> completes (fst (core_handle E ev c))" using assms by simp
  ultimately have "lock_kept E A c (snd (core_handle E ev c))"
    using assms(3) by (intro lock.core_handle_R)
  then show ?thesis using assms by (simp add: lock_kept_def)
qed

lemma lock_ok_boot: "core_boot c0 = (r, c) \<Longrightarrow> lock_ok E A c0 \<Longrightarrow> lock_ok E A c \<and> core_grows c0 c"
  using lock.core_boot_R [of E A c0] by (simp add: lock_kept_def)

lemma core_live_reachable: "core_live E c0 c \<Longrightarrow> core_reachable E c0 c"
  by (induction rule: core_live.induct) (auto intro: core_reachable.intros core_step.intros)

text \<open>The invariant is monotone in the events considered.\<close>

lemma lock_ok_mono:
  assumes "lock_ok E A c" and AB: "\<And>ev. A ev \<Longrightarrow> B ev"
  shows "lock_ok E B c"
proof -
  have p: "processed E A c b \<Longrightarrow> processed E B c b" for b
    using AB by (auto simp: processed_def)
  have v: "voted_for E A c v b \<Longrightarrow> voted_for E B c v b" for v b
    using p by (auto simp: voted_for_def)
  have t: "timeout_covers E A c a e \<Longrightarrow> timeout_covers E B c a e" for a e
    using v unfolding timeout_covers_def by blast
  have "sorted_wrt (timeout_covers E B c) (c_out c)"
    by (rule sorted_wrt_mono_rel [of _ "timeout_covers E A c"])
      (use assms(1) t in \<open>auto simp: lock_ok_def\<close>)
  moreover have "committed_for E A c x \<Longrightarrow> committed_for E B c x" for x
    using p unfolding committed_for_def by blast
  moreover have "put_ok E A c kv \<Longrightarrow> put_ok E B c kv" for kv
    using p AB unfolding put_ok_def by blast
  ultimately show ?thesis
    using assms(1) p v unfolding lock_ok_def by blast
qed

text \<open>What is looped back to a live core is a verified block or an own proposal.\<close>

definition justified :: "'a env_scheme \<Rightarrow> Committee \<Rightarrow> Core \<Rightarrow> CoreEvent \<Rightarrow> bool" where
  "justified E com c ev \<longleftrightarrow> (\<forall>b. ev = EvLoopback b \<longrightarrow> Block_verify E b com = Ok () \<or> own_proposal c b)"

lemma justified_step:
  assumes ok: "lock_ok E (justified E com c) c" and com: "c_committee c = com"
    and adm: "admissible c ev" and h: "core_handle E ev c = (r, c')" "completes r"
  shows "lock_ok E (justified E com c') c' \<and> core_grows c c'"
proof -
  have "Block_verify E b com = Ok () \<or> own_proposal c b"
    if "e \<in> set (c_out c)" "requested e = Some b" for e b
  proof -
    have "processed E (justified E com c) c b" using ok that by (auto simp: lock_ok_def)
    then show ?thesis using com by (auto simp: processed_def justified_def)
  qed
  then have "justified E com c ev" using adm unfolding justified_def by (metis admissible.simps(1))
  then have new: "lock_ok E (justified E com c) c' \<and> core_grows c c'"
    using lock_ok_handle [of E "justified E com c" c ev r c'] assms by blast
  then have "own_proposal c b \<Longrightarrow> own_proposal c' b" for b
    by (auto simp: own_proposal_def core_grows_def)
  then have "lock_ok E (justified E com c') c'"
    using lock_ok_mono [of E "justified E com c" c' "justified E com c'"] new by (auto simp: justified_def)
  then show ?thesis using new by blast
qed

lemma live_justified:
  assumes "core_live E (Core_new name com sk []) c"
  shows "lock_ok E (justified E com c) c \<and> core_grows (Core_new name com sk []) c"
  using assms
proof (induction rule: core_live.induct)
  case (boot r c)
  then show ?case using lock_ok_boot [OF boot(1) lock_ok_new, of E "justified E com c"] by simp
next
  case (step c ev r c')
  then have "c_committee c = com" by (simp add: core_grows_def Core_new_def)
  then show ?case using justified_step [of E com c ev r c'] step core_grows_trans by blast
qed

end
