(* ===== verification/Core_Progress.thy ===== *)
theory Core_Progress
  imports Core_Lock
begin

text \<open>
  The core's task does not stop. Its handlers panic when an ancestor of a stored block is missing and
  would loop forever on a cycle of parents; here the store is shown to hold, with every block, all
  its ancestors down to the genesis, and every handler to complete.
\<close>

section \<open>Blocks in the store\<close>

definition db_block :: "'a env_scheme \<Rightarrow> puts \<Rightarrow> Digest \<Rightarrow> Block option" where
  "db_block E db d =
     (case Store_read E db (Digest_to_vec d) of
        Ok (Some bytes) \<Rightarrow> (case de_block E bytes of Inr b \<Rightarrow> Some b | Inl e \<Rightarrow> None)
      | _ \<Rightarrow> None)"

lemma parent_in_eq:
  "parent_in E db b =
     (if QC_eq (b_qc b) QC_genesis then Some Block_genesis else db_block E db (Block_parent b))"
  by (auto simp: parent_in_def get_parent_block_def db_block_def split: outcome.split option.split sum.split)

text \<open>
  \<open>rank\<close> falls from a block to its parent. In a chained store every block is one of \<open>S\<close>, kept under
  its digest, and the parents lead down to the genesis.
\<close>

definition chain_ok :: "'a env_scheme \<Rightarrow> (Digest \<Rightarrow> nat) \<Rightarrow> puts \<Rightarrow> bool" where
  "chain_ok E rank db \<longleftrightarrow>
     (\<forall>d b. db_block E db d = Some b \<longrightarrow> \<not> QC_eq (b_qc b) QC_genesis \<longrightarrow>
        (\<exists>p. db_block E db (Block_parent b) = Some p) \<and> rank (Block_parent b) < rank d)"

lemma chain_okD:
  "chain_ok E rank db \<Longrightarrow> db_block E db d = Some b \<Longrightarrow> \<not> QC_eq (b_qc b) QC_genesis \<Longrightarrow>
    (\<exists>p. db_block E db (Block_parent b) = Some p) \<and> rank (Block_parent b) < rank d"
  by (simp add: chain_ok_def)

definition chained :: "'a env_scheme \<Rightarrow> Block set \<Rightarrow> puts \<Rightarrow> bool" where
  "chained E S db \<longleftrightarrow> (\<forall>d b. db_block E db d = Some b \<longrightarrow> b \<in> S \<and> d = Block_digest E b)
     \<and> (\<exists>rank. chain_ok E rank db)"

text \<open>
  What is assumed of the blocks \<open>S\<close> that occur: no two of them with different parents have one digest,
  none has the digest of the genesis certificate, and deserializing undoes serializing. What other
  tasks write is no block and is not kept under a block's digest.
\<close>

definition collision_free :: "'a env_scheme \<Rightarrow> Block set \<Rightarrow> bool" where
  "collision_free E S \<longleftrightarrow>
     (\<forall>b \<in> S. \<forall>b' \<in> S. Block_digest E b = Block_digest E b' \<longrightarrow> qc_hash (b_qc b) = qc_hash (b_qc b'))
     \<and> (\<forall>b \<in> S. Block_digest E b \<noteq> Digest_default \<and> de_block E (ser_block E b) = Inr b)"

definition foreign :: "'a env_scheme \<Rightarrow> Block set \<Rightarrow> Key \<Rightarrow> Value \<Rightarrow> bool" where
  "foreign E S k v \<longleftrightarrow> (\<exists>e. de_block E v = Inl e) \<and> (\<forall>b \<in> S. k \<noteq> Digest_to_vec (Block_digest E b))"

lemma db_block_write:
  assumes "rocks_ok E"
  shows "db_block E (Store_write k v db) d =
    (if k = Digest_to_vec d then (case de_block E v of Inr b \<Rightarrow> Some b | Inl e \<Rightarrow> None) else db_block E db d)"
  using db.kv_same [OF assms] db.kv_other [OF assms, of "Digest_to_vec d" k]
  by (auto simp: db_block_def)

lemma chained_foreign:
  assumes "rocks_ok E" "chained E S db" "foreign E S k v"
  shows "chained E S (Store_write k v db)"
proof -
  have "db_block E (Store_write k v db) d = db_block E db d" for d
  proof (cases "k = Digest_to_vec d")
    case True
    then have "db_block E db d = None"
      using assms(2,3) unfolding chained_def foreign_def by (metis not_None_eq)
    then show ?thesis using True assms(3) db_block_write [OF assms(1)] by (auto simp: foreign_def)
  qed (simp add: db_block_write [OF assms(1)])
  then show ?thesis using assms(2) by (simp add: chained_def chain_ok_def)
qed

lemma chained_store:
  assumes r: "rocks_ok E" and f: "collision_free E S" and c: "chained E S db" and b: "b \<in> S"
    and p: "parent_in E db b = Some p"
  shows "chained E S (Store_write (Digest_to_vec (Block_digest E b)) (ser_block E b) db)"
proof -
  let ?d0 = "Block_digest E b" and ?db = "Store_write (Digest_to_vec (Block_digest E b)) (ser_block E b) db"
  from f b have de: "de_block E (ser_block E b) = Inr b" by (simp add: collision_free_def)
  have new: "db_block E ?db d = (if d = ?d0 then Some b else db_block E db d)" for d
    using db_block_write [OF r, of "Digest_to_vec ?d0" "ser_block E b" db d] de by auto
  from c obtain rank where rank: "chain_ok E rank db" by (auto simp: chained_def)
  have S: "x \<in> S \<and> d = Block_digest E x" if "db_block E db d = Some x" for d x
    using c that by (auto simp: chained_def)
  have up: "\<exists>x. db_block E ?db d = Some x" if "db_block E db d = Some y" for d y using new that by simp
  have bp: "db_block E db (Block_parent b) = Some p" if "\<not> QC_eq (b_qc b) QC_genesis"
    using p that by (simp add: parent_in_eq)
  have "\<exists>rank'. chain_ok E rank' ?db"
  proof (cases "db_block E db ?d0")
    case (Some b2)
    have "b2 \<in> S" "Block_digest E b = Block_digest E b2" using S [OF Some] by auto
    then have same: "Block_parent b2 = Block_parent b"
      using f b unfolding collision_free_def Block_parent_def by metis
    have "rank (Block_parent b) < rank ?d0" if g: "\<not> QC_eq (b_qc b) QC_genesis"
    proof -
      have "Block_parent b \<noteq> Digest_default"
        using S [OF bp [OF g]] f by (auto simp: collision_free_def)
      then have "\<not> QC_eq (b_qc b2) QC_genesis"
        using same by (auto simp: QC_eq_def QC_genesis_def Block_parent_def)
      from chain_okD [OF rank Some this] show ?thesis using same by simp
    qed
    then have "chain_ok E rank ?db"
      using rank bp up unfolding chain_ok_def new by auto
    then show ?thesis by blast
  next
    case None
    let ?rank = "rank(?d0 := Suc (rank (Block_parent b)))"
    have "(\<exists>q. db_block E ?db (Block_parent x) = Some q) \<and> ?rank (Block_parent x) < ?rank d"
      if x: "db_block E ?db d = Some x" and g: "\<not> QC_eq (b_qc x) QC_genesis" for d x
    proof -
      obtain q where q: "db_block E db (Block_parent x) = Some q"
        and less: "d \<noteq> ?d0 \<Longrightarrow> rank (Block_parent x) < rank d"
        using x g new bp rank unfolding chain_ok_def by (metis option.inject)
      then have "Block_parent x \<noteq> ?d0" using None by auto
      then show ?thesis using q less x new by (auto split: if_splits)
    qed
    then have "chain_ok E ?rank ?db" unfolding chain_ok_def by blast
    then show ?thesis by blast
  qed
  moreover have "x \<in> S \<and> d = Block_digest E x" if "db_block E ?db d = Some x" for d x
    using that new S b by (auto split: if_splits)
  ultimately show ?thesis by (simp add: chained_def)
qed

lemma genesis_linked [simp]: "QC_eq (b_qc Block_genesis) QC_genesis"
  by (simp add: Block_genesis_def QC_genesis_def QC_eq_def)

lemma chained_closed: "chained E S db \<Longrightarrow> store_closed E db"
  by (auto simp: chained_def chain_ok_def store_closed_def parent_in_eq split: if_splits)

lemma chained_Nil: "rocks_fresh E \<Longrightarrow> chained E S []"
  by (simp add: chained_def chain_ok_def db_block_def rocks_fresh_def Store_read_def)

section \<open>Chained stores are kept\<close>

definition chain_kept :: "'a env_scheme \<Rightarrow> Block set \<Rightarrow> Core \<Rightarrow> Core \<Rightarrow> bool" where
  "chain_kept E S c c' \<longleftrightarrow>
     (rocks_ok E \<and> collision_free E S \<and> chained E S (c_db c) \<longrightarrow> chained E S (c_db c'))"

lemma chain_kept_same: "c_db c' = c_db c \<Longrightarrow> chain_kept E S c c'"
  by (simp add: chain_kept_def)

interpretation chain: core_relation_any E "chain_kept E S" "\<lambda>_ b. b \<in> S" True
  "\<lambda>ev. (\<forall>b. ev = EvMessage (MPropose b) \<longrightarrow> b \<in> S) \<and> (\<forall>k v. ev = EvStoreWrite k v \<longrightarrow> foreign E S k v)"
  for E :: "'a env_scheme" and S
proof unfold_locales
  fix c :: Core and k v
  assume "(\<forall>b. EvStoreWrite k v = EvMessage (MPropose b) \<longrightarrow> b \<in> S)
    \<and> (\<forall>k' v'. EvStoreWrite k v = EvStoreWrite k' v' \<longrightarrow> foreign E S k' v')"
  then show "chain_kept E S c (c\<lparr>c_db := Store_write k v (c_db c)\<rparr>)"
    using chained_foreign by (auto simp: chain_kept_def)
next
  fix c :: Core and block b1
  assume "block \<in> S" "parent_in E (c_db c) block = Some b1"
  then show "chain_kept E S c (store_block E block c)"
    using chained_store by (auto simp: chain_kept_def store_block_def)
next
  fix c :: Core and vote
  show "chain_kept E S c (absorb_vote E vote c)"
    by (rule chain_kept_same)
      (auto simp: absorb_vote_def core_mutations split: prod.split outcome.split option.split)
next
  fix c :: Core and timeout
  show "chain_kept E S c (absorb_timeout timeout c)"
    by (rule chain_kept_same)
      (auto simp: absorb_timeout_def core_mutations split: prod.split outcome.split option.split)
qed (auto simp: chain_kept_def core_mutations generate_proposal_def)

section \<open>Handlers complete\<close>

text \<open>The committee has members and the signing key works.\<close>

definition can_sign :: "'a env_scheme \<Rightarrow> Core \<Rightarrow> bool" where
  "can_sign E c \<longleftrightarrow> committee_members (c_committee c) \<noteq> {}
     \<and> (\<forall>d. \<exists>s. request_signature E (c_secret c) d = Ok s)"

lemma new_signs:
  assumes "\<forall>d. \<exists>s. request_signature E sk d = Ok s"
  shows "\<exists>v. Vote_new E b author sk = Ok v" and "\<exists>t. Timeout_new E qc round author sk = Ok t"
proof -
  let ?v = "\<lparr>v_hash = Block_digest E b, v_round = b_round b, v_author = author, v_signature = Signature_default\<rparr>"
  let ?t = "\<lparr>t_high_qc = qc, t_round = round, t_author = author, t_signature = Signature_default\<rparr>"
  obtain s s' where "request_signature E sk (Vote_digest E ?v) = Ok s"
    "request_signature E sk (Timeout_digest E ?t) = Ok s'" using assms by blast
  then show "\<exists>v. Vote_new E b author sk = Ok v" "\<exists>t. Timeout_new E qc round author sk = Ok t"
    by (simp_all add: Vote_new_def Timeout_new_def Let_def)
qed

lemma get_leader_Ok: "committee_members com \<noteq> {} \<Longrightarrow> \<exists>pk. (get_leader com r :: ('e, _) outcome) = Ok pk"
  by (auto simp: get_leader_def committee_size_def committee_members_def Let_def)

lemma committee_address_member: "pk \<in> committee_members com \<Longrightarrow> \<exists>a. committee_address com pk = Some a"
  by (simp add: committee_address_def committee_members_def) (metis hm_keys_None not_None_eq)

lemma propose_completes: "committee_members (c_committee c) \<noteq> {} \<Longrightarrow> completes (fst (propose_if_leader tc c))"
  using get_leader_Ok [of "c_committee c" "c_round c", where 'e = ConsensusError]
  by (auto simp: propose_if_leader_def split: if_splits)

lemma mutation_committee [simp]:
  "c_committee (process_qc qc c) = c_committee c" "c_committee (advance_round r c) = c_committee c"
  "c_secret (process_qc qc c) = c_secret c" "c_secret (advance_round r c) = c_secret c"
  by (simp_all add: core_mutations)

lemma handle_vote_completes:
  assumes "committee_members (c_committee c) \<noteq> {}"
  shows "completes (fst (handle_vote E vote c))"
proof -
  obtain r agg where a: "add_vote E vote (c_aggregator c) = (r, agg)" by (cases "add_vote E vote (c_aggregator c)")
  have r: "completes r" using completes_add_vote [of E vote "c_aggregator c"] a by simp
  have v: "completes (Vote_verify E vote (c_committee c))" by simp
  have p: "completes (fst (propose_if_leader None (process_qc qc (c\<lparr>c_aggregator := agg\<rparr>))))" for qc
    by (rule propose_completes) (simp add: assms)
  show ?thesis
    using a r v p
    by (cases "Vote_verify E vote (c_committee c)"; cases r) (simp_all add: handle_vote_def split: option.split)
qed

lemma handle_timeout_completes:
  assumes "committee_members (c_committee c) \<noteq> {}"
  shows "completes (fst (handle_timeout E timeout c))"
proof -
  let ?c = "process_qc (t_high_qc timeout) c"
  obtain r agg where a: "add_timeout timeout (c_aggregator ?c) = (r, agg)"
    by (cases "add_timeout timeout (c_aggregator ?c)")
  have r: "completes r" using completes_add_timeout [of timeout "c_aggregator ?c"] a by simp
  have v: "completes (Timeout_verify E timeout (c_committee c))" by simp
  have p: "completes (fst (propose_if_leader (Some tc)
      (emit e (advance_round (tc_round tc) (?c\<lparr>c_aggregator := agg\<rparr>)))))" for tc e
    by (rule propose_completes) (simp add: assms emit_def)
  show ?thesis
    using a r v p
    by (cases "Timeout_verify E timeout (c_committee c)"; cases r)
      (simp_all add: handle_timeout_def Let_def split: option.split)
qed

lemma local_timeout_completes:
  assumes "can_sign E c"
  shows "completes (fst (local_timeout_round E c))"
proof -
  let ?c = "increase_last_voted_round (c_round c) c"
  have same: "c_committee ?c = c_committee c" "c_secret ?c = c_secret c"
    by (simp_all add: increase_last_voted_round_def)
  then obtain t where "Timeout_new E (c_high_qc ?c) (c_round ?c) (c_name ?c) (c_secret ?c) = Ok t"
    using new_signs(2) [of E "c_secret ?c"] assms unfolding can_sign_def by metis
  then show ?thesis
    using assms same
    by (simp add: local_timeout_round_def Let_def can_sign_def emit_def handle_timeout_completes)
qed

lemma deliver_vote_completes:
  assumes "committee_members (c_committee c) \<noteq> {}"
  shows "completes (fst (deliver_vote E vote c))"
proof -
  obtain pk where pk: "get_leader (c_committee c) (c_round c + 1) = (Ok pk :: (ConsensusError, _) outcome)"
    using get_leader_Ok [OF assms] by blast
  obtain a where "committee_address (c_committee c) pk = Some a"
    using committee_address_member [OF get_leader_member [OF pk]] by blast
  then show ?thesis using pk handle_vote_completes [OF assms, of E vote] by (simp add: deliver_vote_def)
qed

lemma vote_block_completes:
  assumes "can_sign E c" and "completes (safety_rule_2 block)"
  shows "completes (fst (vote_block E block c))"
proof -
  obtain v where "Vote_new E block (c_name c) (c_secret c) = Ok v"
    using new_signs(1) [of E "c_secret c"] assms(1) unfolding can_sign_def by metis
  then show ?thesis
    using assms
    by (cases "safety_rule_2 block")
      (simp_all add: vote_block_def make_vote_def Let_def increase_last_voted_round_def can_sign_def
        deliver_vote_completes emit_def)
qed

section \<open>Committing\<close>

lemma commit_ancestors_returns:
  assumes "chain_ok E rank (c_db c)" and "x = Block_genesis \<or> db_block E (c_db c) d = Some x"
  shows "\<exists>l. commit_ancestors E lcr x acc c = Some (Ok l, c)"
  using assms(2)
proof (induction "rank d" arbitrary: d x acc rule: less_induct)
  case less
  show ?case
  proof (cases "lcr + 1 < b_round x")
    case True
    then have d: "db_block E (c_db c) d = Some x"
      using less.prems by (auto simp: Block_genesis_def)
    have "\<exists>p. parent_in E (c_db c) x = Some p
        \<and> (p = Block_genesis \<or> db_block E (c_db c) (Block_parent x) = Some p \<and> rank (Block_parent x) < rank d)"
      using chain_okD [OF assms(1) d] by (auto simp: parent_in_eq)
    then obtain p d' where p: "parent_in E (c_db c) x = Some p"
      and below: "p = Block_genesis \<or> db_block E (c_db c) d' = Some p \<and> rank d' < rank d" by blast
    have "\<exists>l. commit_ancestors E lcr p (p # acc) c = Some (Ok l, c)"
    proof (cases "p = Block_genesis")
      case True
      then show ?thesis by (subst commit_ancestors.simps) (simp add: Block_genesis_def)
    next
      case False
      then show ?thesis using below less.hyps [of d' p] by blast
    qed
    moreover have "get_parent_block E (c_db c) x = (Ok (Some p), [])"
      using p by (simp add: get_parent_block_Some)
    ultimately show ?thesis
      using True by (subst commit_ancestors.simps) (simp add: with_effects_def)
  next
    case False
    then show ?thesis by (subst commit_ancestors.simps) simp
  qed
qed

lemma commit_round: "c_round (snd (commit E block c)) = c_round c"
proof (cases "commit_ancestors E (last_committed_round c) block [] c")
  case (Some rc)
  then show ?thesis
    using commit_ancestors_frame [OF Some]
    by (cases rc; cases "fst rc") (auto simp: commit_def Let_def)
qed (simp add: commit_def)

lemma commit_completes:
  assumes "chain_ok E rank (c_db c)" and "parent_in E (c_db c) block = Some p"
  shows "fst (commit E block c) = Ok () \<and> c_committee (snd (commit E block c)) = c_committee c
    \<and> c_secret (snd (commit E block c)) = c_secret c"
proof -
  have "p = Block_genesis \<or> db_block E (c_db c) (Block_parent block) = Some p"
    using assms(2) by (auto simp: parent_in_eq split: if_splits)
  then obtain l where "commit_ancestors E (last_committed_round c) p [p] c = Some (Ok l, c)"
    using commit_ancestors_returns [OF assms(1)] by blast
  moreover have "get_parent_block E (c_db c) block = (Ok (Some p), [])"
    using assms(2) by (simp add: get_parent_block_Some)
  ultimately have "\<exists>l. commit_ancestors E (last_committed_round c) block [] c = Some (Ok l, c)"
    by (subst commit_ancestors.simps) (simp add: with_effects_def)
  then show ?thesis by (auto simp: commit_def Let_def)
qed

section \<open>Processing blocks\<close>

lemma parent_in_write:
  assumes r: "rocks_ok E" and de: "de_block E v = Inr b'" and p: "parent_in E db b = Some p"
  shows "\<exists>q. parent_in E (Store_write k v db) b = Some q"
  using p de db_block_write [OF r, of k v db "Block_parent b"] by (auto simp: parent_in_eq split: if_splits)

lemma chained_rank: "chained E S db \<Longrightarrow> \<exists>rank. chain_ok E rank db"
  by (simp add: chained_def)

text \<open>Once the ancestors are known the commit goes through, and the block is voted on in the same round.\<close>

lemma process_delivered_votes:
  assumes r: "rocks_ok E" and f: "collision_free E S" and ch: "chained E S (c_db c)" and b: "block \<in> S"
    and p1: "parent_in E (c_db c) block = Some b1" and p0: "parent_in E (c_db c) b1 = Some b0"
  shows "\<exists>c'. process_delivered E b0 b1 block c = vote_block E block c' \<and> c_round c' = c_round c
    \<and> c_committee c' = c_committee c \<and> c_secret c' = c_secret c"
proof -
  let ?c = "cleanup_proposer b0 b1 block (store_block E block c)"
  let ?d = "?c\<lparr>c_out := c_out ?c @ MempoolDriver_cleanup (b_round b0)\<rparr>"
  have db: "c_db ?c = Store_write (Digest_to_vec (Block_digest E block)) (ser_block E block) (c_db c)"
    by (simp add: cleanup_proposer_def emit_def store_block_def)
  obtain rank where rank: "chain_ok E rank (c_db ?d)"
    using chained_rank [OF chained_store [OF r f ch b p1]] by (auto simp: db)
  have "de_block E (ser_block E block) = Inr block" using f b by (simp add: collision_free_def)
  moreover obtain g where "parent_in E (c_db c) b0 = Some g"
    using chained_closed [OF ch] p0 unfolding store_closed_def by blast
  ultimately obtain q where "parent_in E (c_db ?c) b0 = Some q"
    using parent_in_write [OF r] unfolding db by blast
  then have "parent_in E (c_db ?d) b0 = Some q" by simp
  note ret = commit_completes [OF rank this]
  have "c_round (snd (commit E b0 ?d)) = c_round ?d"
    using commit_round [of E b0 ?d] by simp
  then show ?thesis
    using ret
    by (cases "commit E b0 ?d") (auto simp: process_delivered_def Let_def cleanup_proposer_def emit_def store_block_def)
qed

lemma process_delivered_completes:
  assumes "rocks_ok E" and "collision_free E S" and "chained E S (c_db c)" and "block \<in> S"
    and s: "can_sign E c" and t: "completes (safety_rule_2 block)"
    and "parent_in E (c_db c) block = Some b1" and "parent_in E (c_db c) b1 = Some b0"
  shows "completes (fst (process_delivered E b0 b1 block c))"
proof -
  obtain c' where c': "process_delivered E b0 b1 block c = vote_block E block c'"
    "c_committee c' = c_committee c" "c_secret c' = c_secret c"
    using process_delivered_votes [OF assms(1-4,7,8)] by blast
  then have "can_sign E c'" using s by (simp add: can_sign_def)
  then show ?thesis using c'(1) vote_block_completes [OF _ t] by simp
qed

lemma process_block_completes:
  assumes r: "rocks_ok E" and "collision_free E S" and ch: "chained E S (c_db c)" and "block \<in> S"
    and s: "can_sign E c" and "completes (safety_rule_2 block)"
  shows "completes (fst (process_block E block c))"
  unfolding process_block_def
proof (rule completes_then_ok)
  show "completes (fst (with_effects (get_ancestors E (c_db c) block) c))"
    using get_ancestors_completes [OF r chained_closed [OF ch]] by (simp add: with_effects_def)
next
  fix anc c'
  assume eq: "with_effects (get_ancestors E (c_db c) block) c = (Ok anc, c')"
  show "completes (fst (case anc of None \<Rightarrow> (Ok (), c') | Some (b0, b1) \<Rightarrow> process_delivered E b0 b1 block c'))"
  proof (cases anc)
    case (Some bb)
    obtain b0 b1 where bb: "bb = (b0, b1)" by (cases bb)
    obtain es where "get_ancestors E (c_db c) block = (Ok (Some (b0, b1)), es)" "c' = c\<lparr>c_out := c_out c @ es\<rparr>"
      using eq Some bb by (cases "get_ancestors E (c_db c) block") (simp add: with_effects_def)
    then have "parent_in E (c_db c') block = Some b1" "parent_in E (c_db c') b1 = Some b0"
      "chained E S (c_db c')" "can_sign E c'"
      using ch s by (auto simp: get_ancestors_Some can_sign_def)
    then show ?thesis using process_delivered_completes assms Some bb by auto
  qed simp
qed

lemma handle_proposal_completes:
  assumes r: "rocks_ok E" and "collision_free E S" and "chained E S (c_db c)" and "block \<in> S"
    and "can_sign E c" and safe: "Block_verify E block (c_committee c) = Ok () \<Longrightarrow> completes (safety_rule_2 block)"
  shows "completes (fst (handle_proposal E block c))"
proof -
  obtain pk where pk: "(get_leader (c_committee c) (b_round block) :: (ConsensusError, _) outcome) = Ok pk"
    using get_leader_Ok [of "c_committee c" "b_round block"] assms(5) unfolding can_sign_def by metis
  have "completes (fst (process_verified E block c))" if ok: "Block_verify E block (c_committee c) = Ok ()"
  proof -
    let ?p = "process_qc (b_qc block) c"
    let ?c = "case b_tc block of Some tc \<Rightarrow> advance_round (tc_round tc) ?p | None \<Rightarrow> ?p"
    have c: "c_db ?c = c_db c" "can_sign E ?c"
      using assms(5) by (auto simp: can_sign_def core_mutations split: option.split)
    have "completes (fst (process_block E block ?c))"
      by (rule process_block_completes [OF r assms(2)]) (use assms c safe [OF ok] in simp_all)
    then show ?thesis
      by (simp add: process_verified_def Let_def with_effects_def MempoolDriver_verify_eq [OF r] del: filter_empty_conv)
  qed
  moreover have "completes (Block_verify E block (c_committee c))" by simp
  ultimately show ?thesis
    using pk by (cases "Block_verify E block (c_committee c)") (auto simp: handle_proposal_def ensure_def)
qed

section \<open>Fair runs\<close>

text \<open>
  The events the rest of the program feeds a core, for blocks out of \<open>S\<close>: no sync request (the
  receiver sends those to the helper), timeout certificates that verify, only blocks that were asked
  for and own proposals looped back, and no writes of other tasks under the digest of a block.
\<close>

fun fair_event :: "'a env_scheme \<Rightarrow> Block set \<Rightarrow> Core \<Rightarrow> CoreEvent \<Rightarrow> bool" where
  "fair_event E S c (EvMessage (MPropose b)) \<longleftrightarrow> b \<in> S"
| "fair_event E S c (EvMessage (MTC tc)) \<longleftrightarrow> TC_verify E tc (c_committee c) = Ok ()"
| "fair_event E S c (EvMessage (MSyncRequest d pk)) \<longleftrightarrow> False"
| "fair_event E S c (EvLoopback b) \<longleftrightarrow> b \<in> S \<and> admissible c (EvLoopback b)"
| "fair_event E S c (EvStoreWrite k v) \<longleftrightarrow> foreign E S k v"
| "fair_event E S c ev \<longleftrightarrow> True"

inductive core_fair :: "'a env_scheme \<Rightarrow> Block set \<Rightarrow> Core \<Rightarrow> Core \<Rightarrow> bool" for E S c0 where
  boot: "core_boot c0 = (r, c) \<Longrightarrow> core_fair E S c0 c"
| step: "core_fair E S c0 c \<Longrightarrow> fair_event E S c ev \<Longrightarrow> core_handle E ev c = (r, c') \<Longrightarrow> core_fair E S c0 c'"

lemma fair_grows: "core_fair E S c0 c \<Longrightarrow> core_grows c0 c"
proof (induction rule: core_fair.induct)
  case (boot r c)
  then show ?case using grows.core_boot_R [where c = c0] by simp
next
  case (step c ev r c')
  then show ?case using handle_grows core_grows_trans by blast
qed

text \<open>What holds along a fair run of a core started with an empty store.\<close>

definition fair_inv :: "'a env_scheme \<Rightarrow> Block set \<Rightarrow> Committee \<Rightarrow> Core \<Rightarrow> bool" where
  "fair_inv E S com c \<longleftrightarrow> chained E S (c_db c) \<and> can_sign E c \<and> proposals_ok E com c
     \<and> lock_ok E (justified E com c) c"

definition progress_env :: "'a env_scheme \<Rightarrow> Block set \<Rightarrow> Committee \<Rightarrow> SecretKey \<Rightarrow> bool" where
  "progress_env E S com sk \<longleftrightarrow> rocks_ok E \<and> rocks_fresh E \<and> batch_complete E \<and> collision_free E S
     \<and> committee_valid com \<and> committee_members com \<noteq> {} \<and> (\<forall>d. \<exists>s. request_signature E sk d = Ok s)"

text \<open>A block whose certificates verify passes the safety rules without a panic.\<close>

lemma safety_rule_completes:
  assumes "committee_valid com" and "case b_tc b of Some tc \<Rightarrow> TC_verify E tc com = Ok () | None \<Rightarrow> True"
  shows "completes (safety_rule_2 b)"
  using assms TC_verify_nonempty [OF assms(1)] by (auto simp: safety_rule_2_def split: option.splits)

lemma verified_safe:
  assumes "committee_valid com" and "Block_verify E b com = Ok ()"
  shows "completes (safety_rule_2 b)"
  by (rule safety_rule_completes [OF assms(1)]) (use assms(2) in \<open>auto simp: Block_verify_Ok_iff split: option.splits\<close>)

lemma fair_handle_completes:
  assumes env: "progress_env E S com sk" and inv: "fair_inv E S com c" and ev: "fair_event E S c ev"
  shows "completes (fst (core_handle E ev c))"
proof -
  have com: "c_committee c = com" and mem: "committee_members (c_committee c) \<noteq> {}" and s: "can_sign E c"
    and ch: "chained E S (c_db c)" and valid: "committee_valid com"
    using env inv by (auto simp: fair_inv_def proposals_ok_def progress_env_def)
  have r: "rocks_ok E" and f: "collision_free E S" using env by (auto simp: progress_env_def)
  show ?thesis
  proof (cases "(E, ev, c)" rule: core_handle.cases)
    case (1 _ b)
    then show ?thesis
      using handle_proposal_completes [OF r f ch _ s] verified_safe [OF valid] com ev by auto
  next
    case (4 _ tc)
    then show ?thesis using propose_completes [of "advance_round (tc_round tc) c"] mem by (simp add: handle_tc_def)
  next
    case (6 _ b)
    have "completes (safety_rule_2 b)"
    proof (cases "own_proposal c b")
      case True
      then have "certs_verify E com (b_qc b) (b_tc b)"
        using inv by (auto simp: fair_inv_def proposals_ok_def own_proposal_def)
      then show ?thesis
        by (intro safety_rule_completes [OF valid]) (auto simp: certs_verify_def split: option.splits)
    next
      case False
      then obtain e where "e \<in> set (c_out c)" "requested e = Some b" using ev 6 by auto
      then have "Block_verify E b com = Ok ()"
        using inv False com unfolding fair_inv_def lock_ok_def processed_def justified_def by blast
      then show ?thesis by (rule verified_safe [OF valid])
    qed
    then show ?thesis using 6 ev process_block_completes [OF r f ch _ s] by auto
  qed (use ev mem s handle_vote_completes [of c E] handle_timeout_completes [of c E]
      local_timeout_completes [of E c] in auto)
qed

lemma fair_admissible: "fair_event E S c ev \<Longrightarrow> admissible c ev"
  by (cases "(E, S, c, ev)" rule: fair_event.cases) auto

lemma fair_inv_step:
  assumes env: "progress_env E S com sk" and inv: "fair_inv E S com c" and ev: "fair_event E S c ev"
    and h: "core_handle E ev c = (r, c')"
  shows "fair_inv E S com c'"
proof -
  have ret: "completes r" using fair_handle_completes [OF env inv ev] h by simp
  have "c_committee c = com" and "lock_ok E (justified E com c) c"
    using inv by (simp_all add: fair_inv_def proposals_ok_def)
  from justified_step [OF this(2,1) fair_admissible [OF ev] h ret]
  have lock: "lock_ok E (justified E com c') c' \<and> core_grows c c'" .
  have "chain_kept E S c (snd (core_handle E ev c))"
    by (rule chain.core_handle_R) (use ev in auto)
  moreover have "proposals_kept E com c (snd (core_handle E ev c))"
    by (rule proposals.core_handle_R) (use ev \<open>c_committee c = com\<close> in auto)
  ultimately show ?thesis
    using env inv lock h
    by (simp add: fair_inv_def chain_kept_def proposals_kept_def progress_env_def can_sign_def core_grows_def)
qed

lemma fair_inv_run:
  assumes env: "progress_env E S com sk" and run: "core_fair E S (Core_new name com sk []) c"
  shows "fair_inv E S com c"
  using run
proof (induction rule: core_fair.induct)
  case (boot r c)
  let ?c0 = "Core_new name com sk []"
  have "lock_ok E (justified E com c) c \<and> core_grows ?c0 c" by (rule lock_ok_boot [OF boot lock_ok_new])
  moreover have "chain_kept E S ?c0 (snd (core_boot ?c0))" by (rule chain.core_boot_R)
  moreover have "proposals_kept E com ?c0 (snd (core_boot ?c0))" by (rule proposals.core_boot_R)
  ultimately show ?case
    using env boot chained_Nil [of E S]
    by (simp add: fair_inv_def chain_kept_def proposals_kept_def progress_env_def can_sign_def core_grows_def)
      (simp add: Core_new_def)
next
  case (step c ev r c')
  then show ?case using fair_inv_step [OF env] by blast
qed

end
