(* ===== verification/Crypto_Service.thy ===== *)
theory Crypto_Service
  imports Crypto_Model
begin

text \<open>
  The rest of the crate \<open>crypto\<close>: how digests and keys are displayed and (de)serialized, the
  generation of keypairs, and the task of the signature service with its channel. The serializer's
  string functions and the keypair generator of \<open>ed25519_dalek\<close> are arguments.
\<close>

section \<open>Text forms\<close>

text \<open>\<open>Display\<close>: the first 16 characters of the base64 text; \<open>get(0..16)\<close> is \<open>None\<close> for a shorter one.\<close>

definition unwrap_none_message :: string where
  "unwrap_none_message = ''called Option::unwrap() on a None value''"

definition display16 :: "string \<Rightarrow> (string, string) outcome" where
  "display16 s = (if length s < 16 then Panic unwrap_none_message else Ok (take 16 s))"

definition Digest_debug :: "'a crypto_env_scheme \<Rightarrow> Digest \<Rightarrow> string" where
  "Digest_debug E d = b64_encode E (Digest_to_vec d)"

definition Digest_display :: "'a crypto_env_scheme \<Rightarrow> Digest \<Rightarrow> (string, string) outcome" where
  "Digest_display E d = display16 (b64_encode E (Digest_to_vec d))"

definition PublicKey_debug :: "'a crypto_env_scheme \<Rightarrow> PublicKey \<Rightarrow> string" where
  "PublicKey_debug E pk = PublicKey_encode_base64 E pk"

definition PublicKey_display :: "'a crypto_env_scheme \<Rightarrow> PublicKey \<Rightarrow> (string, string) outcome" where
  "PublicKey_display E pk = display16 (PublicKey_encode_base64 E pk)"

text \<open>
  \<open>Serialize\<close> hands the base64 text to the serializer's \<open>serialize_str\<close>; \<open>Deserialize\<close> gets the
  result of \<open>String::deserialize\<close>, and \<open>custom\<close> is the deserializer's error made of a decoding error.
\<close>

definition PublicKey_serialize :: "'a crypto_env_scheme \<Rightarrow> (string \<Rightarrow> 'r) \<Rightarrow> PublicKey \<Rightarrow> 'r" where
  "PublicKey_serialize E serialize_str pk = serialize_str (PublicKey_encode_base64 E pk)"

definition SecretKey_serialize :: "'a crypto_env_scheme \<Rightarrow> (string \<Rightarrow> 'r) \<Rightarrow> SecretKey \<Rightarrow> 'r" where
  "SecretKey_serialize E serialize_str sk = serialize_str (SecretKey_encode_base64 E sk)"

fun map_err :: "('e \<Rightarrow> 'f) \<Rightarrow> ('e, 'a) outcome \<Rightarrow> ('f, 'a) outcome" where
  "map_err f (Ok a) = Ok a"
| "map_err f (Err e) = Err (f e)"
| "map_err f (Panic m) = Panic m"
| "map_err f Hang = Hang"

definition PublicKey_deserialize ::
  "'a crypto_env_scheme \<Rightarrow> (DecodeError \<Rightarrow> 'e) \<Rightarrow> ('e, string) outcome \<Rightarrow> ('e, PublicKey) outcome" where
  "PublicKey_deserialize E custom text =
     and_then text (\<lambda>s. and_then (map_err custom (PublicKey_decode_base64 E s)) Ok)"

definition SecretKey_deserialize ::
  "'a crypto_env_scheme \<Rightarrow> (DecodeError \<Rightarrow> 'e) \<Rightarrow> ('e, string) outcome \<Rightarrow> ('e, SecretKey) outcome" where
  "SecretKey_deserialize E custom text =
     and_then text (\<lambda>s. and_then (map_err custom (SecretKey_decode_base64 E s)) Ok)"

lemma deserialize_key_cases:
  assumes "b64_decode E s = Ok bytes"
  shows "PublicKey_deserialize E custom (Ok s) =
      (if length bytes < 32 then Panic ''range end index 32 out of range'' else Ok (PublicKey (first32 bytes)))"
    and "SecretKey_deserialize E custom (Ok s) =
      (if length bytes < 64 then Panic ''range end index 64 out of range''
       else Ok (SecretKey (of_be_bytes (take 64 bytes))))"
  using assms
  by (simp_all add: PublicKey_deserialize_def PublicKey_decode_base64_def SecretKey_deserialize_def
      SecretKey_decode_base64_def)

section \<open>Keypairs\<close>

text \<open>
  \<open>keypair rng\<close> is what \<open>Keypair::generate\<close> draws: the 32 bytes of the secret and of the public key;
  \<open>Keypair::to_bytes\<close> is the secret followed by the public key.
\<close>

definition generate_keypair ::
  "('rng \<Rightarrow> (byte list \<times> byte list) \<times> 'rng) \<Rightarrow> 'rng \<Rightarrow> (PublicKey \<times> SecretKey) \<times> 'rng" where
  "generate_keypair keypair csprng =
     (case keypair csprng of ((secret, public), csprng) \<Rightarrow>
        ((PublicKey (first32 public), SecretKey (of_be_bytes (take 64 (secret @ public)))), csprng))"

lemma generate_keypair_bytes:
  assumes "keypair rng = ((secret, public), rng')" "length secret = 32" "length public = 32"
    and "generate_keypair keypair rng = ((pk, sk), rng')"
  shows "pk_bytes pk = public \<and> sk_bytes sk = secret @ public"
proof -
  have "be_bytes (length (secret @ public)) (of_be_bytes (secret @ public) :: 512 word) = secret @ public"
    by (rule be_bytes_of_be_bytes) (simp add: assms(2,3))
  then show ?thesis
    using assms by (auto simp: generate_keypair_def pk_bytes_def sk_bytes_def)
qed

section \<open>The signature service\<close>

text \<open>
  The task owns the secret key and answers the requests of its channel in order; when it cannot load
  the key it panics: the answer is lost, and so are those of the requests queued. A request carries the
  number of the channel its answer goes to.
\<close>

record SignatureService =
  sv_secret :: SecretKey
  sv_alive :: bool
  sv_queue :: "(Digest \<times> nat) list"
  sv_answers :: "(nat \<times> Signature) list"

definition SignatureService_new :: "SecretKey \<Rightarrow> SignatureService" where
  "SignatureService_new secret = \<lparr>sv_secret = secret, sv_alive = True, sv_queue = [], sv_answers = []\<rparr>"

definition service_step :: "'a crypto_env_scheme \<Rightarrow> SignatureService \<Rightarrow> SignatureService" where
  "service_step E sv =
     (case sv_queue sv of
        [] \<Rightarrow> sv
      | (digest, sender) # queue \<Rightarrow>
          if \<not> sv_alive sv then sv
          else
            case Signature_new E digest (sv_secret sv) of
              Ok signature \<Rightarrow> sv\<lparr>sv_queue := queue, sv_answers := sv_answers sv @ [(sender, signature)]\<rparr>
            | _ \<Rightarrow> sv\<lparr>sv_queue := [], sv_alive := False\<rparr>)"

text \<open>The two halves of \<open>request_signature\<close>: send the request, await the answer.\<close>

definition service_send :: "Digest \<Rightarrow> nat \<Rightarrow> SignatureService \<Rightarrow> (string, unit) outcome \<times> SignatureService" where
  "service_send digest sender sv =
     (if sv_alive sv then (Ok (), sv\<lparr>sv_queue := sv_queue sv @ [(digest, sender)]\<rparr>)
      else (Panic ''Failed to send message Signature Service'', sv))"

definition service_await :: "nat \<Rightarrow> SignatureService \<Rightarrow> (string, Signature) outcome" where
  "service_await receiver sv =
     (case map_of (sv_answers sv) receiver of
        Some signature \<Rightarrow> Ok signature
      | None \<Rightarrow> if sv_alive sv then Hang else Panic ''Failed to receive signature from Signature Service'')"

text \<open>\<open>Signature::new\<close> signs or panics.\<close>

lemma Signature_new_cases:
  obtains s where "Signature_new E d sk = Ok s" | "Signature_new E d sk = Panic ''Unable to load secret key''"
  by (cases "ed_sign E (sk_bytes sk) (Digest_to_vec d)") (simp_all add: Signature_new_def)

text \<open>Behind a queue of digests it can sign, a request is answered with the signature of its digest.\<close>

lemma service_answers_last:
  assumes "sv_alive sv" and "\<forall>(d, n) \<in> set (sv_queue sv). Signature_new E d (sv_secret sv) = Ok (sig d)"
    and "receiver \<notin> fst ` set (sv_answers sv) \<union> snd ` set (sv_queue sv)"
    and "service_send digest receiver sv = (Ok (), sv')"
  shows "service_await receiver ((service_step E ^^ length (sv_queue sv')) sv') =
    (case Signature_new E digest (sv_secret sv) of
       Ok s \<Rightarrow> Ok s | _ \<Rightarrow> Panic ''Failed to receive signature from Signature Service'')"
proof -
  have sv': "sv' = sv\<lparr>sv_queue := sv_queue sv @ [(digest, receiver)]\<rparr>"
    using assms(1,4) by (simp add: service_send_def)
  let ?done = "sv\<lparr>sv_queue := [(digest, receiver)],
    sv_answers := sv_answers sv @ map (\<lambda>(d, n). (n, sig d)) (sv_queue sv)\<rparr>"
  have drain: "(service_step E ^^ length qs) (sv\<lparr>sv_queue := qs @ [(digest, receiver)], sv_answers := as\<rparr>)
      = sv\<lparr>sv_queue := [(digest, receiver)], sv_answers := as @ map (\<lambda>(d, n). (n, sig d)) qs\<rparr>"
    if "\<forall>(d, n) \<in> set qs. Signature_new E d (sv_secret sv) = Ok (sig d)" for qs as
    using that
  proof (induction qs arbitrary: as)
    case (Cons x qs)
    then show ?case
      using assms(1) by (cases x) (simp add: funpow_Suc_right service_step_def del: funpow.simps)
  qed simp
  have "(service_step E ^^ length (sv_queue sv)) sv' = ?done"
    using drain [OF assms(2), of "sv_answers sv"] by (simp add: sv')
  then have end_state: "(service_step E ^^ length (sv_queue sv')) sv' = service_step E ?done"
    by (simp add: sv')
  have none: "receiver \<notin> hm_keys (sv_answers sv)" "receiver \<notin> hm_keys (map (\<lambda>(d, n). (n, sig d)) (sv_queue sv))"
    using assms(3) by (force simp: hm_keys_def)+
  note none = none [unfolded hm_keys_None [symmetric]]
  show ?thesis
    unfolding end_state
    by (rule Signature_new_cases [of E digest "sv_secret sv"])
      (use none assms(1) in \<open>simp_all add: service_step_def service_await_def map_add_def del: hm_keys_None\<close>)
qed

end
