(* ===== verification/Ack_Quorum.thy ===== *)
theory Ack_Quorum
  imports Prelude
begin

text \<open>
  The loop that waits for acknowledgements, shared by the proposer
  (\<open>consensus/src/proposer.rs\<close>) and the quorum waiter (\<open>mempool/src/quorum_waiter.rs\<close>): it takes the
  stakes of the futures as they complete, until the sum reaches the threshold or no future is left.
  \<open>n\<close> is the number of futures not completed, the list the stakes of those that will complete; the
  result is the stake counted and whether it reached the threshold, \<open>Hang\<close> when the loop waits for
  futures that never complete.
\<close>

fun ack_loop :: "u32 \<Rightarrow> u32 \<Rightarrow> nat \<Rightarrow> u32 list \<Rightarrow> ('e, u32 \<times> bool) outcome" where
  "ack_loop threshold got n [] = (if n = 0 then Ok (got, False) else Hang)"
| "ack_loop threshold got n (stake # stakes) =
     (let got = got + stake
      in if got \<ge> threshold then Ok (got, True) else ack_loop threshold got (n - 1) stakes)"

lemma ack_loop_reached:
  "(ack_loop th got n stakes :: ('e, _) outcome) = Ok (t, True) \<Longrightarrow>
     \<exists>k. 0 < k \<and> k \<le> length stakes \<and> t = got + sum_list (take k stakes) \<and> th \<le> t"
proof (induction stakes arbitrary: got n)
  case (Cons s stakes)
  show ?case
  proof (cases "th \<le> got + s")
    case True
    then show ?thesis using Cons.prems by (intro exI [of _ 1]) auto
  next
    case False
    then have r: "(ack_loop th (got + s) (n - 1) stakes :: ('e, _) outcome) = Ok (t, True)"
      using Cons.prems by simp
    from Cons.IH [OF r] obtain k where "0 < k" "k \<le> length stakes"
      "t = got + s + sum_list (take k stakes)" "th \<le> t" by blast
    then show ?thesis by (intro exI [of _ "Suc k"]) (simp add: add.assoc)
  qed
qed (simp split: if_splits)

lemma ack_loop_not_reached:
  "(ack_loop th got n stakes :: ('e, _) outcome) = Ok (t, False) \<Longrightarrow> n \<le> length stakes \<and> t = got + sum_list stakes
     \<and> (\<forall>k. 0 < k \<and> k \<le> length stakes \<longrightarrow> \<not> th \<le> got + sum_list (take k stakes))"
proof (induction stakes arbitrary: got n)
  case (Cons s stakes)
  then have s: "\<not> th \<le> got + s" and r: "(ack_loop th (got + s) (n - 1) stakes :: ('e, _) outcome) = Ok (t, False)"
    by (simp_all add: Let_def split: if_splits)
  note IH = Cons.IH [OF r]
  have "\<not> th \<le> got + sum_list (take k (s # stakes))" if k: "0 < k" "k \<le> length (s # stakes)" for k
  proof (cases k)
    case (Suc j)
    show ?thesis
    proof (cases j)
      case 0
      then show ?thesis using Suc s by simp
    next
      case (Suc i)
      then show ?thesis using IH k \<open>k = Suc j\<close> by (simp add: add.assoc [symmetric])
    qed
  qed (use k in simp)
  moreover have "n \<le> length (s # stakes)" using IH by (cases n) simp_all
  moreover have "t = got + sum_list (s # stakes)" using IH by (simp add: add.assoc)
  ultimately show ?case by blast
qed (simp split: if_splits)

text \<open>Without overflow the threshold is reached exactly when the whole sum reaches it.\<close>

lemma ack_loop_reached_iff:
  assumes "unat got + sum_list (map unat stakes) < 2 ^ 32"
  shows "(\<exists>t. (ack_loop th got n stakes :: ('e, _) outcome) = Ok (t, True))
    \<longleftrightarrow> stakes \<noteq> [] \<and> unat th \<le> unat got + sum_list (map unat stakes)"
  using assms
proof (induction stakes arbitrary: got n)
  case (Cons s stakes)
  have s: "unat (got + s) = unat got + unat s" using Cons.prems by (simp add: unat_word_ariths)
  show ?case
  proof (cases "th \<le> got + s")
    case True
    then show ?thesis using s by (auto simp: word_le_nat_alt)
  next
    case False
    have "unat (got + s) + sum_list (map unat stakes) < 2 ^ 32" using Cons.prems s by simp
    from Cons.IH [OF this, of "n - 1"] False s show ?thesis
      by (cases "stakes = []") (simp_all add: word_le_nat_alt ac_simps)
  qed
qed simp

text \<open>Enough acknowledgements end the wait.\<close>

lemma ack_loop_ends: "length stakes = n \<Longrightarrow> completes (ack_loop th got n stakes)"
  by (induction stakes arbitrary: got n) (auto simp: Let_def)

end
