(* ===== verification/Mempool_Model.thy ===== *)
theory Mempool_Model
  imports Consensus_Channels Ack_Quorum
begin

text \<open>
  The mempool crate: its committee (\<open>mempool/src/config.rs\<close>), the messages and receivers
  (\<open>mempool/src/mempool.rs\<close>), the batch maker, the quorum waiter, the processor and the helper, each
  a state and one function per branch of its loop. \<open>bincode\<close> on \<open>MempoolMessage\<close> and the generated
  decoder of client requests are parameters.
\<close>

type_synonym Transaction = "byte list"
type_synonym Batch = "Transaction list"
type_synonym SerializedBatchMessage = "byte list"

datatype MempoolMessage = MBatch Batch | MBatchRequest "Digest list" PublicKey

record mp_env = env +
  ser_mempool :: "MempoolMessage \<Rightarrow> byte list"
  de_mempool :: "byte list \<Rightarrow> string + MempoolMessage"
  client_decodes :: "byte list \<Rightarrow> bool"

definition mempool_bincode_ok :: "'a mp_env_scheme \<Rightarrow> bool" where
  "mempool_bincode_ok E \<longleftrightarrow> (\<forall>m. de_mempool E (ser_mempool E m) = Inr m)"

section \<open>Configuration\<close>

record MpParameters =
  mp_gc_depth :: u64
  mp_sync_retry_delay :: u64
  mp_sync_retry_nodes :: nat
  mp_batch_size :: u64
  mp_max_batch_delay :: u64

definition MpParameters_default :: MpParameters where
  "MpParameters_default = \<lparr>mp_gc_depth = 50, mp_sync_retry_delay = 5000, mp_sync_retry_nodes = 3,
     mp_batch_size = 500000, mp_max_batch_delay = 100\<rparr>"

record MpAuthority =
  ma_stake :: Stake
  ma_transactions_address :: SocketAddr
  ma_mempool_address :: SocketAddr

record MpCommittee =
  mp_authorities :: "(PublicKey \<times> MpAuthority) list"
  mp_epoch :: EpochNumber

definition MpCommittee_new ::
  "(PublicKey \<times> Stake \<times> SocketAddr \<times> SocketAddr) list \<Rightarrow> EpochNumber \<Rightarrow> MpCommittee" where
  "MpCommittee_new info ep =
     \<lparr>mp_authorities =
        fold (\<lambda>(name, stake, transactions_address, mempool_address) m.
          AList.update name \<lparr>ma_stake = stake, ma_transactions_address = transactions_address,
            ma_mempool_address = mempool_address\<rparr> m) info [],
      mp_epoch = ep\<rparr>"

definition mp_stake :: "MpCommittee \<Rightarrow> PublicKey \<Rightarrow> Stake" where
  "mp_stake com name = (case map_of (mp_authorities com) name of None \<Rightarrow> 0 | Some x \<Rightarrow> ma_stake x)"

definition mp_total_votes :: "MpCommittee \<Rightarrow> Stake" where
  "mp_total_votes com = sum_list (map (\<lambda>(_, x). ma_stake x) (mp_authorities com))"

definition mp_quorum_threshold :: "MpCommittee \<Rightarrow> Stake" where
  "mp_quorum_threshold com = 2 * mp_total_votes com div 3 + 1"

definition mp_transactions_address :: "MpCommittee \<Rightarrow> PublicKey \<Rightarrow> SocketAddr option" where
  "mp_transactions_address com name = map_option ma_transactions_address (map_of (mp_authorities com) name)"

definition mp_mempool_address :: "MpCommittee \<Rightarrow> PublicKey \<Rightarrow> SocketAddr option" where
  "mp_mempool_address com name = map_option ma_mempool_address (map_of (mp_authorities com) name)"

definition mp_broadcast_addresses :: "MpCommittee \<Rightarrow> PublicKey \<Rightarrow> (PublicKey \<times> SocketAddr) list" where
  "mp_broadcast_addresses com myself =
     map (\<lambda>(name, x). (name, ma_mempool_address x))
       (filter (\<lambda>(name, _). name \<noteq> myself) (mp_authorities com))"

text \<open>The stake of the mempool's committee is that of a consensus committee with other addresses.\<close>

definition mp_as_committee :: "MpCommittee \<Rightarrow> Committee" where
  "mp_as_committee com =
     \<lparr>authorities = map (\<lambda>(n, x). (n, \<lparr>au_stake = ma_stake x, au_address = ma_mempool_address x\<rparr>))
        (mp_authorities com), epoch = mp_epoch com\<rparr>"

lemma map_of_mp_as_committee:
  "map_of (authorities (mp_as_committee com)) n
   = map_option (\<lambda>x. \<lparr>au_stake = ma_stake x, au_address = ma_mempool_address x\<rparr>) (map_of (mp_authorities com) n)"
proof -
  have "map_of (map (\<lambda>(n, x). (n, f x)) xs) n = map_option f (map_of xs n)" for f :: "MpAuthority \<Rightarrow> Authority" and xs
    by (induction xs) auto
  then show ?thesis by (simp add: mp_as_committee_def)
qed

lemma mp_as_committee_simps [simp]:
  "committee_stake (mp_as_committee com) = mp_stake com"
  "quorum_threshold (mp_as_committee com) = mp_quorum_threshold com"
  "committee_address (mp_as_committee com) = mp_mempool_address com"
proof -
  show "committee_stake (mp_as_committee com) = mp_stake com"
    by (auto simp: fun_eq_iff committee_stake_def mp_stake_def map_of_mp_as_committee split: option.split
        dest: hm_keys_Some)
  show "committee_address (mp_as_committee com) = mp_mempool_address com"
    by (auto simp: fun_eq_iff committee_address_def mp_mempool_address_def map_of_mp_as_committee
        option.map_comp comp_def)
  show "quorum_threshold (mp_as_committee com) = mp_quorum_threshold com"
    by (simp add: quorum_threshold_def mp_quorum_threshold_def total_votes_def mp_total_votes_def
        mp_as_committee_def comp_def case_prod_unfold)
qed

definition mp_valid :: "MpCommittee \<Rightarrow> bool" where
  "mp_valid com \<longleftrightarrow> committee_valid (mp_as_committee com)"

definition mp_members :: "MpCommittee \<Rightarrow> PublicKey set" where
  "mp_members com = hm_keys (mp_authorities com)"

definition mp_quorum :: "MpCommittee \<Rightarrow> PublicKey set \<Rightarrow> bool" where
  "mp_quorum com S \<longleftrightarrow>
     S \<subseteq> mp_members com \<and> unat (mp_quorum_threshold com) \<le> (\<Sum>n \<in> S. unat (mp_stake com n))"

lemma mp_members_eq: "mp_members com = committee_members (mp_as_committee com)"
  by (force simp: mp_members_def committee_members_def hm_keys_def mp_as_committee_def)

lemma mp_quorum_eq: "mp_quorum com S = stake_quorum (mp_as_committee com) S"
  by (simp add: mp_quorum_def stake_quorum_def mp_members_eq stake_of_def)

text \<open>The mempool's committee provides the quorum contract too.\<close>

interpretation mp_quorums: quorum_system mp_valid mp_members "\<lambda>com n. unat (mp_stake com n)" mp_quorum
proof unfold_locales
  fix c S
  assume v: "mp_valid c"
  show "finite (mp_members c)" by (simp add: mp_members_eq)
  have s: "stake_of (mp_as_committee c) = (\<lambda>n. unat (mp_stake c n))" by (simp add: fun_eq_iff stake_of_def)
  show "mp_quorum c S \<longleftrightarrow> S \<subseteq> mp_members c
      \<and> 2 * (\<Sum>n \<in> mp_members c. unat (mp_stake c n)) < 3 * (\<Sum>n \<in> S. unat (mp_stake c n))"
    using committee_quorums.quorum_iff [of "mp_as_committee c" S] v s
    by (simp add: mp_valid_def mp_quorum_eq mp_members_eq)
qed

section \<open>Receivers\<close>

datatype MpEffect =
    MpReply string
  | MpToBatchMaker Transaction
  | MpToProcessor SerializedBatchMessage
  | MpToHelper "Digest list" PublicKey
  | MpSend SocketAddr "byte list"
  | MpBroadcast "SocketAddr list" "byte list"
  | MpToQuorumWaiter SerializedBatchMessage "PublicKey list"
  | MpToConsensus Digest

text \<open>
  \<open>TxReceiverHandler::dispatch\<close>: a client's bytes that decode as a request are a transaction, whatever
  its method.
\<close>

definition tx_dispatch :: "'a mp_env_scheme \<Rightarrow> byte list \<Rightarrow> MpEffect list" where
  "tx_dispatch E message =
     (if client_decodes E message then [MpToBatchMaker message, MpReply ''Ack'']
      else [MpReply ''Invalid CLIENT Transaction''])"

text \<open>\<open>MempoolReceiverHandler::dispatch\<close>; the argument says whether the reply could be written.\<close>

definition mempool_dispatch :: "'a mp_env_scheme \<Rightarrow> bool \<Rightarrow> byte list \<Rightarrow> (string, unit) outcome \<times> MpEffect list" where
  "mempool_dispatch E writable serialized =
     (if \<not> writable then (Panic ''DONG: Failed to response Ack to client.'', [])
      else
        (Ok (), MpReply ''Ack'' #
          (case de_mempool E serialized of
             Inr (MBatch batch) \<Rightarrow> [MpToProcessor serialized]
           | Inr (MBatchRequest missing requestor) \<Rightarrow> [MpToHelper missing requestor]
           | Inl e \<Rightarrow> [])))"

section \<open>The batch maker\<close>

record BatchMaker =
  bm_batch_size :: u64
  bm_addresses :: "(PublicKey \<times> SocketAddr) list"
  bm_current_batch :: Batch
  bm_current_batch_size :: u64
  bm_out :: "MpEffect list"

definition BatchMaker_new :: "u64 \<Rightarrow> (PublicKey \<times> SocketAddr) list \<Rightarrow> BatchMaker" where
  "BatchMaker_new batch_size addresses =
     \<lparr>bm_batch_size = batch_size, bm_addresses = addresses, bm_current_batch = [],
      bm_current_batch_size = 0, bm_out = []\<rparr>"

definition seal :: "'a mp_env_scheme \<Rightarrow> BatchMaker \<Rightarrow> BatchMaker" where
  "seal E bm =
     (let bm = bm\<lparr>bm_current_batch_size := 0\<rparr>;
          batch = bm_current_batch bm;
          bm = bm\<lparr>bm_current_batch := []\<rparr>;
          serialized = ser_mempool E (MBatch batch);
          names = map fst (bm_addresses bm);
          addresses = map snd (bm_addresses bm)
      in bm\<lparr>bm_out := bm_out bm @ [MpBroadcast addresses serialized, MpToQuorumWaiter serialized names]\<rparr>)"

datatype BatchMakerEvent = BmTransaction Transaction | BmTimer

fun batch_maker_step :: "'a mp_env_scheme \<Rightarrow> BatchMakerEvent \<Rightarrow> BatchMaker \<Rightarrow> BatchMaker" where
  "batch_maker_step E (BmTransaction transaction) bm =
     (let bm = bm\<lparr>bm_current_batch_size := bm_current_batch_size bm + of_nat (length transaction)\<rparr>;
          bm = bm\<lparr>bm_current_batch := bm_current_batch bm @ [transaction]\<rparr>
      in if bm_current_batch_size bm \<ge> bm_batch_size bm then seal E bm else bm)"
| "batch_maker_step E BmTimer bm = (if bm_current_batch bm \<noteq> [] then seal E bm else bm)"

definition batch_maker_run :: "'a mp_env_scheme \<Rightarrow> BatchMakerEvent list \<Rightarrow> BatchMaker \<Rightarrow> BatchMaker" where
  "batch_maker_run E evs bm = fold (batch_maker_step E) evs bm"

section \<open>The quorum waiter\<close>

text \<open>
  One message: the batch is handed on when the stake of the acknowledgements, on top of our own,
  reaches the threshold. \<open>acks\<close> are the names whose handlers complete, in that order.
\<close>

definition quorum_waiter_step ::
  "MpCommittee \<Rightarrow> Stake \<Rightarrow> SerializedBatchMessage \<Rightarrow> PublicKey list \<Rightarrow> PublicKey list \<Rightarrow>
   (string, MpEffect list) outcome" where
  "quorum_waiter_step com stake batch handlers acks =
     and_then (ack_loop (mp_quorum_threshold com) stake (length handlers) (map (mp_stake com) acks))
       (\<lambda>(got, reached). if reached then Ok [MpToProcessor batch] else Ok [])"

section \<open>The processor\<close>

definition processor_step ::
  "'a mp_env_scheme \<Rightarrow> SerializedBatchMessage \<Rightarrow> puts \<Rightarrow> MpEffect list \<times> puts" where
  "processor_step E batch db =
     (let digest = sha_digest E batch;
          db = Store_write (Digest_to_vec digest) batch db
      in ([MpToConsensus digest], db))"

fun processor_run ::
  "'a mp_env_scheme \<Rightarrow> SerializedBatchMessage list \<Rightarrow> puts \<Rightarrow> MpEffect list \<times> puts" where
  "processor_run E [] db = ([], db)"
| "processor_run E (batch # batches) db =
     (case processor_step E batch db of (es, db) \<Rightarrow>
      case processor_run E batches db of (es', db) \<Rightarrow> (es @ es', db))"

section \<open>The helper\<close>

fun mp_helper_digests ::
  "'a mp_env_scheme \<Rightarrow> puts \<Rightarrow> SocketAddr \<Rightarrow> Digest list \<Rightarrow> (string, MpEffect list) outcome" where
  "mp_helper_digests E db address [] = Ok []"
| "mp_helper_digests E db address (digest # digests) =
     and_then (case Store_read E db (Digest_to_vec digest) of
                 Ok (Some data) \<Rightarrow> Ok [MpSend address data]
               | Ok None \<Rightarrow> Ok []
               | Err e \<Rightarrow> Ok []
               | Panic m \<Rightarrow> Panic m
               | Hang \<Rightarrow> Hang) (\<lambda>es.
     and_then (mp_helper_digests E db address digests) (\<lambda>es'. Ok (es @ es')))"

definition mp_helper_request ::
  "'a mp_env_scheme \<Rightarrow> MpCommittee \<Rightarrow> puts \<Rightarrow> Digest list \<times> PublicKey \<Rightarrow> (string, MpEffect list) outcome" where
  "mp_helper_request E com db request =
     (case request of (digests, origin) \<Rightarrow>
        case mp_mempool_address com origin of
          None \<Rightarrow> Ok []
        | Some address \<Rightarrow> mp_helper_digests E db address digests)"

section \<open>Batches\<close>

text \<open>The transactions a batch maker received and those it sealed, in order.\<close>

definition bm_received :: "BatchMakerEvent list \<Rightarrow> Transaction list" where
  "bm_received evs = concat (map (\<lambda>ev. case ev of BmTransaction t \<Rightarrow> [t] | BmTimer \<Rightarrow> []) evs)"

definition bm_sealed :: "'a mp_env_scheme \<Rightarrow> MpEffect list \<Rightarrow> Batch list" where
  "bm_sealed E es = concat (map (\<lambda>e. case e of
     MpToQuorumWaiter serialized names \<Rightarrow>
       (case de_mempool E serialized of Inr (MBatch batch) \<Rightarrow> [batch] | _ \<Rightarrow> [])
   | _ \<Rightarrow> []) es)"

lemma bm_received_simps [simp]:
  "bm_received [] = []" "bm_received (BmTransaction t # evs) = t # bm_received evs"
  "bm_received (BmTimer # evs) = bm_received evs"
  by (simp_all add: bm_received_def)

lemma bm_sealed_simps [simp]:
  "bm_sealed E [] = []" "bm_sealed E (xs @ ys) = bm_sealed E xs @ bm_sealed E ys"
  by (simp_all add: bm_sealed_def)

lemma seal_fields:
  "bm_current_batch (seal E bm) = []" "bm_current_batch_size (seal E bm) = 0"
  "bm_batch_size (seal E bm) = bm_batch_size bm" "bm_addresses (seal E bm) = bm_addresses bm"
  by (simp_all add: seal_def Let_def)

lemma seal_sealed:
  "mempool_bincode_ok E \<Longrightarrow>
   bm_sealed E (bm_out (seal E bm)) = bm_sealed E (bm_out bm) @ [bm_current_batch bm]"
  by (simp add: seal_def Let_def mempool_bincode_ok_def) (simp add: bm_sealed_def)

lemma batch_maker_step_conserves:
  assumes "mempool_bincode_ok E"
  shows "concat (bm_sealed E (bm_out (batch_maker_step E ev bm))) @ bm_current_batch (batch_maker_step E ev bm)
    = concat (bm_sealed E (bm_out bm)) @ bm_current_batch bm @ bm_received [ev]"
  by (cases ev) (auto simp: Let_def seal_sealed [OF assms] seal_fields)

lemma bm_received_Cons: "bm_received (ev # evs) = bm_received [ev] @ bm_received evs"
  by (cases ev) simp_all

lemma batch_maker_run_conserves:
  assumes "mempool_bincode_ok E"
  shows "concat (bm_sealed E (bm_out (batch_maker_run E evs bm))) @ bm_current_batch (batch_maker_run E evs bm)
    = concat (bm_sealed E (bm_out bm)) @ bm_current_batch bm @ bm_received evs"
proof (induction evs arbitrary: bm)
  case (Cons ev evs)
  have "batch_maker_run E (ev # evs) bm = batch_maker_run E evs (batch_maker_step E ev bm)"
    by (simp add: batch_maker_run_def)
  then show ?case
    using Cons.IH [of "batch_maker_step E ev bm"] batch_maker_step_conserves [OF assms, of ev bm]
    by (metis append.assoc bm_received_Cons)
qed (simp add: batch_maker_run_def)

text \<open>The size counter, and what is left unsealed.\<close>

definition batch_maker_ok :: "BatchMaker \<Rightarrow> bool" where
  "batch_maker_ok bm \<longleftrightarrow> bm_current_batch_size bm = of_nat (length (concat (bm_current_batch bm)))
     \<and> (bm_current_batch bm \<noteq> [] \<longrightarrow> bm_current_batch_size bm < bm_batch_size bm)"

lemma batch_maker_step_ok: "batch_maker_ok bm \<Longrightarrow> batch_maker_ok (batch_maker_step E ev bm)"
  by (cases ev) (auto simp: batch_maker_ok_def Let_def seal_fields)

lemma batch_maker_run_ok: "batch_maker_ok bm \<Longrightarrow> batch_maker_ok (batch_maker_run E evs bm)"
  unfolding batch_maker_run_def by (induction evs arbitrary: bm) (auto intro: batch_maker_step_ok)

lemma batch_maker_ok_new [simp]: "batch_maker_ok (BatchMaker_new n as)"
  by (simp add: batch_maker_ok_def BatchMaker_new_def)

text \<open>No sealed batch is empty.\<close>

lemma batch_maker_step_nonempty:
  assumes "mempool_bincode_ok E" and "[] \<notin> set (bm_sealed E (bm_out bm))"
  shows "[] \<notin> set (bm_sealed E (bm_out (batch_maker_step E ev bm)))"
  using assms by (cases ev) (auto simp: Let_def seal_sealed)

lemma batch_maker_run_nonempty:
  "mempool_bincode_ok E \<Longrightarrow> [] \<notin> set (bm_sealed E (bm_out bm)) \<Longrightarrow>
   [] \<notin> set (bm_sealed E (bm_out (batch_maker_run E evs bm)))"
  unfolding batch_maker_run_def by (induction evs arbitrary: bm) (auto dest: batch_maker_step_nonempty)

end
