(* ===== verification/Network_Model.thy ===== *)
theory Network_Model
  imports Prelude "HOL-Library.Multiset" "HOL-Library.Sublist"
begin

text \<open>
  The network crate: the connection of the reliable sender (\<open>network/src/reliable_sender.rs\<close>), the
  simple sender (\<open>network/src/simple_sender.rs\<close>) and the receiver's runner
  (\<open>network/src/receiver.rs\<close>). Sockets are the environment: an event says how an operation on one
  turned out. A message carries the number of its cancel handler; a handler that the caller dropped
  is closed.
\<close>

type_synonym Handler = nat
type_synonym NetMsg = "byte list \<times> Handler"

datatype NetworkError =
    FailedToConnect SocketAddr u16 string
  | FailedToListen string
  | FailedToSendMessage SocketAddr string
  | FailedToReceiveMessage SocketAddr string
  | FailedToReceiveAck SocketAddr
  | UnexpectedAck SocketAddr

section \<open>The connection of the reliable sender\<close>

text \<open>
  Where the task of a connection is: connecting, waiting to try again, or in \<open>keep_alive\<close>. \<open>co_acked\<close>
  are the handlers that got their reply, \<open>co_dropped\<close> the messages skipped because their handler was
  closed, \<open>co_errors\<close> the errors logged.
\<close>

datatype ConnPhase = Connecting | Waiting | Linked

record Connection =
  co_address :: SocketAddr
  co_retry_delay :: u64
  co_delay :: u64
  co_retry :: u16
  co_phase :: ConnPhase
  co_buffer :: "NetMsg list"
  co_pending :: "NetMsg list"
  co_acked :: "(Handler \<times> byte list) list"
  co_dropped :: "NetMsg list"
  co_errors :: "NetworkError list"

definition Connection_new :: "SocketAddr \<Rightarrow> Connection" where
  "Connection_new address =
     \<lparr>co_address = address, co_retry_delay = 200, co_delay = 200, co_retry = 0, co_phase = Connecting,
      co_buffer = [], co_pending = [], co_acked = [], co_dropped = [], co_errors = []\<rparr>"

text \<open>
  The first loop of \<open>keep_alive\<close>: send the buffer. \<open>sent\<close> gives, per message tried, whether the write
  succeeds (an error text otherwise); a failed message goes back to the front and ends the loop.
\<close>

fun send_buffer ::
  "Handler set \<Rightarrow> string option list \<Rightarrow> NetMsg list \<Rightarrow> NetMsg list \<Rightarrow> NetMsg list \<Rightarrow>
   string option \<times> NetMsg list \<times> NetMsg list \<times> NetMsg list" where
  "send_buffer closed sent [] pending dropped = (None, [], pending, dropped)"
| "send_buffer closed sent ((data, handler) # buffer) pending dropped =
     (if handler \<in> closed then send_buffer closed sent buffer pending (dropped @ [(data, handler)])
      else
        case sent of
          Some e # _ \<Rightarrow> (Some e, (data, handler) # buffer, pending, dropped)
        | None # sent' \<Rightarrow> send_buffer closed sent' buffer (pending @ [(data, handler)]) dropped
        | [] \<Rightarrow> send_buffer closed [] buffer (pending @ [(data, handler)]) dropped)"

text \<open>Leaving \<open>keep_alive\<close>: the messages without a reply go back in front of the buffer.\<close>

fun requeue :: "NetMsg list \<Rightarrow> NetMsg list \<Rightarrow> NetMsg list" where
  "requeue pending buffer = (case rev pending of [] \<Rightarrow> buffer | message # rest \<Rightarrow>
     requeue (rev rest) (message # buffer))"

declare requeue.simps [simp del]

definition co_fail :: "NetworkError \<Rightarrow> Connection \<Rightarrow> Connection" where
  "co_fail e c = c\<lparr>co_buffer := requeue (co_pending c) (co_buffer c), co_pending := [],
     co_phase := Connecting, co_errors := co_errors c @ [e]\<rparr>"

definition co_flush :: "Handler set \<Rightarrow> string option list \<Rightarrow> Connection \<Rightarrow> Connection" where
  "co_flush closed sent c =
     (case send_buffer closed sent (co_buffer c) (co_pending c) (co_dropped c) of
        (r, buffer, pending, dropped) \<Rightarrow>
          let c = c\<lparr>co_buffer := buffer, co_pending := pending, co_dropped := dropped\<rparr>
          in case r of None \<Rightarrow> c | Some e \<Rightarrow> co_fail (FailedToSendMessage (co_address c) e) c)"

text \<open>
  What can happen to a connection: an attempt to connect succeeds or fails, the retry timer fires, a
  message arrives from the sender, a reply (or the end of the stream, or an error) arrives. An event
  the task does not wait for in its phase changes nothing; a message sent while it connects stays in
  the channel. \<open>closed\<close> are the handlers closed at that moment and \<open>sent\<close> how the writes turn out: the
  loop of \<open>keep_alive\<close> empties the buffer before it waits again.
\<close>

datatype ConnEvent =
    Connected
  | ConnectFailed string
  | RetryTimer
  | Incoming NetMsg
  | Response "byte list option"

fun conn_step :: "ConnEvent \<Rightarrow> Handler set \<Rightarrow> string option list \<Rightarrow> Connection \<Rightarrow> Connection" where
  "conn_step Connected closed sent c =
     (if co_phase c = Connecting
      then co_flush closed sent (c\<lparr>co_delay := co_retry_delay c, co_retry := 0, co_phase := Linked\<rparr>) else c)"
| "conn_step (ConnectFailed e) closed sent c =
     (if co_phase c = Connecting
      then c\<lparr>co_phase := Waiting, co_errors := co_errors c @ [FailedToConnect (co_address c) (co_retry c) e]\<rparr>
      else c)"
| "conn_step RetryTimer closed sent c =
     (if co_phase c = Waiting
      then c\<lparr>co_phase := Connecting, co_delay := min (2 * co_delay c) 60000, co_retry := co_retry c + 1\<rparr>
      else c)"
| "conn_step (Incoming message) closed sent c =
     (case co_phase c of
        Connecting \<Rightarrow> c
      | Waiting \<Rightarrow>
          let buffer = co_buffer c @ [message]
          in c\<lparr>co_buffer := filter (\<lambda>(_, handler). handler \<notin> closed) buffer,
               co_dropped := co_dropped c @ filter (\<lambda>(_, handler). handler \<in> closed) buffer\<rparr>
      | Linked \<Rightarrow> co_flush closed sent (c\<lparr>co_buffer := co_buffer c @ [message]\<rparr>))"
| "conn_step (Response response) closed sent c =
     (if co_phase c \<noteq> Linked then c
      else
        case co_pending c of
          [] \<Rightarrow> co_fail (UnexpectedAck (co_address c)) c
        | (data, handler) # rest \<Rightarrow>
            (case response of
               Some bytes \<Rightarrow>
                 co_flush closed sent (c\<lparr>co_pending := rest, co_acked := co_acked c @ [(handler, bytes)]\<rparr>)
             | None \<Rightarrow> co_fail (FailedToReceiveAck (co_address c)) c))"

type_synonym ConnTrace = "(ConnEvent \<times> Handler set \<times> string option list) list"

fun conn_run :: "ConnTrace \<Rightarrow> Connection \<Rightarrow> Connection" where
  "conn_run [] c = c"
| "conn_run ((ev, closed, sent) # evs) c = conn_run evs (conn_step ev closed sent c)"

lemma requeue_eq: "requeue pending buffer = pending @ buffer"
proof (induction "length pending" arbitrary: pending buffer)
  case (Suc n)
  then obtain p ps where p: "rev pending = p # ps" by (metis length_Suc_conv length_rev)
  then have pe: "pending = rev ps @ [p]" by (metis rev.simps(2) rev_rev_ident)
  then have "n = length (rev ps)" using Suc.hyps(2) by simp
  from Suc.hyps(1) [OF this] show ?case using pe by (subst requeue.simps) simp
qed (simp add: requeue.simps)

section \<open>Conservation and order\<close>

text \<open>The messages a connection took from its sender, and where they are, in order of arrival.\<close>

definition taken :: "ConnEvent \<Rightarrow> Connection \<Rightarrow> Handler list" where
  "taken ev c = (case ev of Incoming m \<Rightarrow> if co_phase c = Connecting then [] else [snd m] | _ \<Rightarrow> [])"

fun conn_given :: "ConnTrace \<Rightarrow> Connection \<Rightarrow> Handler list" where
  "conn_given [] c = []"
| "conn_given ((ev, closed, sent) # evs) c = taken ev c @ conn_given evs (conn_step ev closed sent c)"

definition conn_queue :: "Connection \<Rightarrow> Handler list" where
  "conn_queue c = map fst (co_acked c) @ map snd (co_pending c) @ map snd (co_buffer c)"

definition conn_holds :: "Connection \<Rightarrow> Handler multiset" where
  "conn_holds c = mset (conn_queue c) + mset (map snd (co_dropped c))"

lemma send_buffer_conserves:
  "send_buffer closed sent buffer pending dropped = (r, buffer', pending', dropped') \<Longrightarrow>
   mset (map snd dropped') + mset (map snd pending') + mset (map snd buffer')
   = mset (map snd dropped) + mset (map snd pending) + mset (map snd buffer)"
  by (induction closed sent buffer pending dropped rule: send_buffer.induct)
    (auto split: if_splits list.splits option.splits)

lemma send_buffer_dropped:
  "send_buffer closed sent buffer pending dropped = (r, buffer', pending', dropped') \<Longrightarrow>
   \<exists>ms. dropped' = dropped @ ms \<and> snd ` set ms \<subseteq> closed"
proof (induction closed sent buffer pending dropped rule: send_buffer.induct)
  case (2 closed sent data handler buffer pending dropped)
  show ?case
  proof (cases "handler \<in> closed")
    case True
    with 2 obtain ms where "dropped' = (dropped @ [(data, handler)]) @ ms" "snd ` set ms \<subseteq> closed" by auto
    then show ?thesis using True by (intro exI [of _ "(data, handler) # ms"]) simp
  next
    case False
    then show ?thesis using 2 by (cases sent) (auto split: option.splits)
  qed
qed simp

lemma subseq_drop_mid: "subseq xs (ys @ zs) \<Longrightarrow> subseq xs (ys @ z # zs)"
  by (rule subseq_order.trans [of _ "ys @ zs"]) (auto intro: list_emb_append_mono)

lemma send_buffer_order:
  "send_buffer closed sent buffer pending dropped = (r, buffer', pending', dropped') \<Longrightarrow>
   subseq (map snd pending' @ map snd buffer') (map snd pending @ map snd buffer)"
proof (induction closed sent buffer pending dropped rule: send_buffer.induct)
  case (2 closed sent data handler buffer pending dropped)
  show ?case
  proof (cases "handler \<in> closed")
    case True
    then show ?thesis using 2 by (auto intro: subseq_drop_mid)
  next
    case False
    then show ?thesis using 2 by (cases sent) (auto split: option.splits)
  qed
qed simp

lemma co_fail_queue [simp]: "conn_queue (co_fail e c) = conn_queue c" "conn_holds (co_fail e c) = conn_holds c"
  by (simp_all add: co_fail_def conn_holds_def conn_queue_def requeue_eq)

text \<open>A change of the queue that loses no message and keeps the order.\<close>

definition conn_moves :: "Connection \<Rightarrow> Handler list \<Rightarrow> Connection \<Rightarrow> bool" where
  "conn_moves c hs c' \<longleftrightarrow> conn_holds c' = conn_holds c + mset hs \<and> subseq (conn_queue c') (conn_queue c @ hs)"

lemma conn_moves_same: "conn_queue c' = conn_queue c @ hs \<Longrightarrow> co_dropped c' = co_dropped c \<Longrightarrow> conn_moves c hs c'"
  by (simp add: conn_moves_def conn_holds_def)

lemma conn_moves_trans:
  assumes "conn_moves c hs c'" and "conn_moves c' hs' c''"
  shows "conn_moves c (hs @ hs') c''"
proof -
  have "subseq (conn_queue c' @ hs') ((conn_queue c @ hs) @ hs')"
    using assms(1) by (intro list_emb_append_mono) (auto simp: conn_moves_def)
  then have "subseq (conn_queue c'') (conn_queue c @ hs @ hs')"
    using assms(2) subseq_order.trans by (auto simp: conn_moves_def)
  then show ?thesis using assms by (simp add: conn_moves_def)
qed

lemma co_flush_moves: "conn_moves c [] (co_flush closed sent c)"
proof -
  obtain r b p d where s: "send_buffer closed sent (co_buffer c) (co_pending c) (co_dropped c) = (r, b, p, d)"
    by (cases "send_buffer closed sent (co_buffer c) (co_pending c) (co_dropped c)")
  have "subseq (map fst (co_acked c) @ map snd p @ map snd b)
      (map fst (co_acked c) @ map snd (co_pending c) @ map snd (co_buffer c))"
    by (rule list_emb_append_mono [OF subseq_order.refl send_buffer_order [OF s]])
  then have "conn_moves c [] (c\<lparr>co_buffer := b, co_pending := p, co_dropped := d\<rparr>)"
    using send_buffer_conserves [OF s] by (simp add: conn_moves_def conn_holds_def conn_queue_def ac_simps)
  then show ?thesis
    using s by (auto simp: co_flush_def Let_def conn_moves_def split: option.split)
qed

lemma mset_filter_split: "mset (map f (filter P xs)) + mset (map f (filter (\<lambda>x. \<not> P x) xs)) = mset (map f xs)"
  by (induction xs) auto

lemma conn_step_moves: "conn_moves c (taken ev c) (conn_step ev closed sent c)"
proof (cases ev)
  case Connected
  let ?c = "c\<lparr>co_delay := co_retry_delay c, co_retry := 0, co_phase := Linked\<rparr>"
  have "conn_moves c [] ?c" by (rule conn_moves_same) (simp_all add: conn_queue_def)
  from conn_moves_trans [OF this co_flush_moves] have "conn_moves c [] (co_flush closed sent ?c)" by simp
  then show ?thesis using Connected conn_moves_same [of c c "[]"] by (simp add: taken_def)
next
  case (Incoming m)
  show ?thesis
  proof (cases "co_phase c")
    case Waiting
    have "mset (map snd (filter (\<lambda>(_, h). h \<notin> closed) xs)) + mset (map snd (filter (\<lambda>(_, h). h \<in> closed) xs))
        = mset (map snd xs)" for xs :: "NetMsg list"
      using mset_filter_split [of snd "\<lambda>(_, h). h \<notin> closed" xs] by (simp add: case_prod_unfold)
    note split = this [of "co_buffer c @ [m]"]
    let ?kept = "map snd (filter (\<lambda>(_, h). h \<notin> closed) (co_buffer c @ [m]))"
      and ?before = "map fst (co_acked c) @ map snd (co_pending c)"
    have "subseq ?kept (map snd (co_buffer c @ [m]))"
      by (rule subseq_map [OF subseq_filter_left])
    from list_emb_append_mono [OF subseq_order.refl this, of ?before]
    have "subseq (conn_queue (conn_step ev closed sent c)) (conn_queue c @ [snd m])"
      using Incoming Waiting by (simp add: conn_queue_def Let_def del: filter_append)
    then show ?thesis
      using Incoming Waiting split by (auto simp: conn_moves_def conn_holds_def conn_queue_def Let_def taken_def)
  next
    case Linked
    have "conn_moves c [snd m] (c\<lparr>co_buffer := co_buffer c @ [m]\<rparr>)"
      by (rule conn_moves_same) (simp_all add: conn_queue_def)
    from conn_moves_trans [OF this co_flush_moves]
    show ?thesis using Incoming Linked by (simp add: taken_def)
  qed (use Incoming conn_moves_same [of c c "[]"] in \<open>simp add: taken_def\<close>)
next
  case (Response r)
  have t: "taken ev c = []" using Response by (simp add: taken_def)
  show ?thesis
  proof (cases "\<exists>data handler rest bytes. co_phase c = Linked \<and> co_pending c = (data, handler) # rest \<and> r = Some bytes")
    case True
    then obtain data handler rest bytes where p: "co_phase c = Linked" "co_pending c = (data, handler) # rest"
      "r = Some bytes" by blast
    let ?c = "c\<lparr>co_pending := rest, co_acked := co_acked c @ [(handler, bytes)]\<rparr>"
    have "conn_moves c [] ?c" by (rule conn_moves_same) (simp_all add: conn_queue_def p)
    from conn_moves_trans [OF this co_flush_moves] show ?thesis using p t Response by simp
  next
    case False
    then show ?thesis
      using t Response by (cases r) (auto simp: conn_moves_def split: list.split)
  qed
qed (auto simp: taken_def conn_moves_def conn_holds_def conn_queue_def)

lemma conn_run_moves: "conn_moves c (conn_given evs c) (conn_run evs c)"
proof (induction evs c rule: conn_run.induct)
  case (2 ev closed sent evs c)
  then show ?case using conn_moves_trans [OF conn_step_moves] by simp
qed (simp add: conn_moves_def)

text \<open>Only messages whose handler is closed are dropped.\<close>

lemma co_fail_dropped [simp]: "co_dropped (co_fail e c) = co_dropped c"
  by (simp add: co_fail_def)

lemma co_flush_dropped: "\<exists>ms. co_dropped (co_flush closed sent c) = co_dropped c @ ms \<and> snd ` set ms \<subseteq> closed"
proof -
  obtain r b p d where s: "send_buffer closed sent (co_buffer c) (co_pending c) (co_dropped c) = (r, b, p, d)"
    by (cases "send_buffer closed sent (co_buffer c) (co_pending c) (co_dropped c)")
  then have "co_dropped (co_flush closed sent c) = d" by (simp add: co_flush_def Let_def split: option.split)
  then show ?thesis using send_buffer_dropped [OF s] by simp
qed

lemma conn_step_dropped:
  "\<exists>ms. co_dropped (conn_step ev closed sent c) = co_dropped c @ ms \<and> snd ` set ms \<subseteq> closed"
proof (cases ev)
  case Connected
  then show ?thesis
    using co_flush_dropped [of closed sent "c\<lparr>co_delay := co_retry_delay c, co_retry := 0, co_phase := Linked\<rparr>"] by simp
next
  case (Incoming m)
  then show ?thesis
    using co_flush_dropped [of closed sent "c\<lparr>co_buffer := co_buffer c @ [m]\<rparr>"]
    by (cases "co_phase c") (auto simp: Let_def)
next
  case (Response r)
  show ?thesis
  proof (cases "\<exists>data handler rest bytes. co_phase c = Linked \<and> co_pending c = (data, handler) # rest \<and> r = Some bytes")
    case True
    then obtain data handler rest bytes where p: "co_phase c = Linked" "co_pending c = (data, handler) # rest"
      "r = Some bytes" by blast
    then show ?thesis
      using Response co_flush_dropped [of closed sent "c\<lparr>co_pending := rest, co_acked := co_acked c @ [(handler, bytes)]\<rparr>"]
      by simp
  next
    case False
    then have "co_dropped (conn_step ev closed sent c) = co_dropped c"
      using Response by (cases r) (auto split: list.split)
    then show ?thesis by simp
  qed
qed auto

lemma conn_run_dropped:
  "m \<in> set (co_dropped (conn_run evs c)) \<Longrightarrow>
   m \<in> set (co_dropped c) \<or> (\<exists>(ev, closed, sent) \<in> set evs. snd m \<in> closed)"
proof (induction evs c rule: conn_run.induct)
  case (2 ev closed sent evs c)
  obtain ms where "co_dropped (conn_step ev closed sent c) = co_dropped c @ ms" "snd ` set ms \<subseteq> closed"
    using conn_step_dropped by blast
  then show ?case using 2 by auto
qed simp

text \<open>The retry delay stays between its initial value and a minute.\<close>

definition delay_ok :: "Connection \<Rightarrow> bool" where
  "delay_ok c \<longleftrightarrow> co_retry_delay c = 200 \<and> 200 \<le> co_delay c \<and> co_delay c \<le> 60000"

lemma delay_ok_new [simp]: "delay_ok (Connection_new a)"
  by (simp add: delay_ok_def Connection_new_def)

lemma double_delay: "200 \<le> (d :: u64) \<Longrightarrow> d \<le> 60000 \<Longrightarrow> 200 \<le> min (2 * d) 60000 \<and> min (2 * d) 60000 \<le> 60000"
  by (auto simp: min_def word_le_nat_alt unat_word_ariths)

lemma delay_ok_flush: "delay_ok (co_flush closed sent c) = delay_ok c" "delay_ok (co_fail e c) = delay_ok c"
  by (auto simp: co_flush_def co_fail_def Let_def delay_ok_def split: prod.split option.split)

lemma conn_step_delay: "delay_ok c \<Longrightarrow> delay_ok (conn_step ev closed sent c)"
  using double_delay [of "co_delay c"]
  by (cases ev) (auto simp: delay_ok_flush Let_def split: list.split option.split ConnPhase.split,
      auto simp: delay_ok_def)

lemma conn_run_delay: "delay_ok c \<Longrightarrow> delay_ok (conn_run evs c)"
  by (induction evs c rule: conn_run.induct) (auto intro: conn_step_delay)

section \<open>The senders\<close>

text \<open>
  \<open>ReliableSender\<close>: one queue per address. The queue's length bound and the task behind it are the
  environment; \<open>send\<close> hands the caller the number of the handler it made.
\<close>

record ReliableSender =
  rs_connections :: "(SocketAddr \<times> NetMsg list) list"
  rs_next :: Handler

definition ReliableSender_new :: ReliableSender where
  "ReliableSender_new = \<lparr>rs_connections = [], rs_next = 0\<rparr>"

definition reliable_send :: "SocketAddr \<Rightarrow> byte list \<Rightarrow> ReliableSender \<Rightarrow> Handler \<times> ReliableSender" where
  "reliable_send address data s =
     (let handler = rs_next s;
          queue = hm_entry (rs_connections s) address []
      in (handler, s\<lparr>rs_connections := AList.update address (queue @ [(data, handler)]) (rs_connections s),
                     rs_next := Suc handler\<rparr>))"

fun reliable_broadcast :: "SocketAddr list \<Rightarrow> byte list \<Rightarrow> ReliableSender \<Rightarrow> Handler list \<times> ReliableSender" where
  "reliable_broadcast [] data s = ([], s)"
| "reliable_broadcast (address # addresses) data s =
     (case reliable_send address data s of (handler, s) \<Rightarrow>
      case reliable_broadcast addresses data s of (handlers, s) \<Rightarrow> (handler # handlers, s))"

definition reliable_lucky_broadcast ::
  "(SocketAddr list \<Rightarrow> SocketAddr list) \<Rightarrow> SocketAddr list \<Rightarrow> byte list \<Rightarrow> nat \<Rightarrow> ReliableSender \<Rightarrow>
   Handler list \<times> ReliableSender" where
  "reliable_lucky_broadcast shuffle addresses data nodes s =
     reliable_broadcast (take nodes (shuffle addresses)) data s"

text \<open>
  \<open>SimpleSender::send\<close>: try the existing channel, else a new connection. \<open>alive\<close> says whether the
  task behind the existing channel still runs (a send on a closed channel fails); a connection just
  spawned accepts its first message. The connections are numbered; \<open>ss_sent\<close> lists what was handed
  to them.
\<close>

record SimpleSender =
  ss_connections :: "(SocketAddr \<times> nat) list"
  ss_next :: nat
  ss_sent :: "(nat \<times> byte list) list"

definition SimpleSender_new :: SimpleSender where
  "SimpleSender_new = \<lparr>ss_connections = [], ss_next = 0, ss_sent = []\<rparr>"

definition simple_send :: "nat set \<Rightarrow> SocketAddr \<Rightarrow> byte list \<Rightarrow> SimpleSender \<Rightarrow> bool \<times> SimpleSender" where
  "simple_send alive address data s =
     (let fresh = (True, s\<lparr>ss_connections := AList.update address (ss_next s) (ss_connections s),
                          ss_next := Suc (ss_next s), ss_sent := ss_sent s @ [(ss_next s, data)]\<rparr>)
      in case map_of (ss_connections s) address of
           Some tx \<Rightarrow> if tx \<in> alive then (True, s\<lparr>ss_sent := ss_sent s @ [(tx, data)]\<rparr>) else fresh
         | None \<Rightarrow> fresh)"

fun simple_broadcast :: "nat set \<Rightarrow> SocketAddr list \<Rightarrow> byte list \<Rightarrow> SimpleSender \<Rightarrow> SimpleSender" where
  "simple_broadcast alive [] data s = s"
| "simple_broadcast alive (address # addresses) data s =
     simple_broadcast alive addresses data (snd (simple_send alive address data s))"

definition simple_lucky_broadcast ::
  "(SocketAddr list \<Rightarrow> SocketAddr list) \<Rightarrow> nat set \<Rightarrow> SocketAddr list \<Rightarrow> byte list \<Rightarrow> nat \<Rightarrow> SimpleSender \<Rightarrow>
   SimpleSender" where
  "simple_lucky_broadcast shuffle alive addresses data nodes s =
     simple_broadcast alive (take nodes (shuffle addresses)) data s"

text \<open>
  The connection of the simple sender: if it connects, it forwards messages and drops replies until
  an error ends it. An event says how the write of a message or the read of a reply turned out; the
  result is what was written and the error logged.
\<close>

datatype SimpleConnEvent = ScData "byte list" "string option" | ScReply bool

fun simple_connection ::
  "SocketAddr \<Rightarrow> SimpleConnEvent list \<Rightarrow> byte list list \<Rightarrow> byte list list \<times> NetworkError option" where
  "simple_connection address [] out = (out, None)"
| "simple_connection address (ScData data sent # evs) out =
     (case sent of
        None \<Rightarrow> simple_connection address evs (out @ [data])
      | Some e \<Rightarrow> (out, Some (FailedToSendMessage address e)))"
| "simple_connection address (ScReply ok # evs) out =
     (if ok then simple_connection address evs out else (out, Some (FailedToReceiveAck address)))"

definition simple_connection_run ::
  "SocketAddr \<Rightarrow> string option \<Rightarrow> SimpleConnEvent list \<Rightarrow> byte list list \<times> NetworkError option" where
  "simple_connection_run address connect evs =
     (case connect of
        None \<Rightarrow> simple_connection address evs []
      | Some e \<Rightarrow> ([], Some (FailedToConnect address 0 e)))"

section \<open>The receiver\<close>

text \<open>
  \<open>spawn_runner\<close>: frames are dispatched in order until the stream ends, a frame fails, or the handler
  returns an error or panics.
\<close>

fun runner :: "('m \<Rightarrow> 's \<Rightarrow> ('e, unit) outcome \<times> 's) \<Rightarrow> (string + 'm) list \<Rightarrow> 's \<Rightarrow> 's" where
  "runner dispatch [] s = s"
| "runner dispatch (Inl e # frames) s = s"
| "runner dispatch (Inr message # frames) s =
     (case dispatch message s of
        (Ok _, s) \<Rightarrow> runner dispatch frames s
      | (_, s) \<Rightarrow> s)"

text \<open>
  The runners of a receiver interleave: each has its own stream, all dispatch to clones of one
  handler, whose channels lead to the state \<open>rx_state\<close>. \<open>rx_open\<close> are the runners that still read.
\<close>

record 's ReceiverTask =
  rx_open :: "nat set"
  rx_next :: nat
  rx_errors :: "NetworkError list"
  rx_state :: 's

datatype 'm ReceiverEvent =
    RxAccept
  | RxAcceptFailed string
  | RxFrame nat SocketAddr "string + 'm"
  | RxEnd nat

definition rx_close :: "nat \<Rightarrow> 's ReceiverTask \<Rightarrow> 's ReceiverTask" where
  "rx_close i rx = rx\<lparr>rx_open := rx_open rx - {i}\<rparr>"

fun receiver_step ::
  "('m \<Rightarrow> 's \<Rightarrow> ('e, unit) outcome \<times> 's) \<Rightarrow> 'm ReceiverEvent \<Rightarrow> 's ReceiverTask \<Rightarrow> 's ReceiverTask" where
  "receiver_step dispatch RxAccept rx =
     rx\<lparr>rx_open := insert (rx_next rx) (rx_open rx), rx_next := Suc (rx_next rx)\<rparr>"
| "receiver_step dispatch (RxAcceptFailed e) rx = rx\<lparr>rx_errors := rx_errors rx @ [FailedToListen e]\<rparr>"
| "receiver_step dispatch (RxFrame i peer frame) rx =
     (if i \<notin> rx_open rx then rx
      else
        case frame of
          Inl e \<Rightarrow> rx_close i (rx\<lparr>rx_errors := rx_errors rx @ [FailedToReceiveMessage peer e]\<rparr>)
        | Inr message \<Rightarrow>
            (case dispatch message (rx_state rx) of
               (Ok _, s) \<Rightarrow> rx\<lparr>rx_state := s\<rparr>
             | (_, s) \<Rightarrow> rx_close i (rx\<lparr>rx_state := s\<rparr>)))"
| "receiver_step dispatch (RxEnd i) rx = rx_close i rx"

definition receiver_run ::
  "('m \<Rightarrow> 's \<Rightarrow> ('e, unit) outcome \<times> 's) \<Rightarrow> bool \<Rightarrow> 'm ReceiverEvent list \<Rightarrow> 's \<Rightarrow>
   (string, unit) outcome \<times> 's ReceiverTask" where
  "receiver_run dispatch bound evs s =
     (let rx = \<lparr>rx_open = {}, rx_next = 0, rx_errors = [], rx_state = s\<rparr>
      in if bound then (Ok (), fold (receiver_step dispatch) evs rx)
         else (Panic ''Failed to bind TCP port'', rx))"

text \<open>The frames of one connection, up to the end of its stream, and the messages before a broken one.\<close>

fun frames_of :: "nat \<Rightarrow> 'm ReceiverEvent list \<Rightarrow> (string + 'm) list" where
  "frames_of i [] = []"
| "frames_of i (RxFrame j peer frame # evs) = (if j = i then frame # frames_of i evs else frames_of i evs)"
| "frames_of i (RxEnd j # evs) = (if j = i then [] else frames_of i evs)"
| "frames_of i (ev # evs) = frames_of i evs"

fun unbroken :: "(string + 'm) list \<Rightarrow> 'm list" where
  "unbroken [] = []"
| "unbroken (Inl e # frames) = []"
| "unbroken (Inr m # frames) = m # unbroken frames"

text \<open>The messages of connection \<open>i\<close> that the handler is called on in a run, and whether it returned \<open>Ok\<close>.\<close>

definition dispatch_now ::
  "('m \<Rightarrow> 's \<Rightarrow> ('e, unit) outcome \<times> 's) \<Rightarrow> nat \<Rightarrow> 'm ReceiverEvent \<Rightarrow> 's ReceiverTask \<Rightarrow> ('m \<times> bool) list" where
  "dispatch_now dispatch i ev rx =
     (case ev of
        RxFrame j peer (Inr m) \<Rightarrow>
          if j = i \<and> j \<in> rx_open rx then [(m, fst (dispatch m (rx_state rx)) = Ok ())] else []
      | _ \<Rightarrow> [])"

fun dispatched ::
  "('m \<Rightarrow> 's \<Rightarrow> ('e, unit) outcome \<times> 's) \<Rightarrow> nat \<Rightarrow> 'm ReceiverEvent list \<Rightarrow> 's ReceiverTask \<Rightarrow> ('m \<times> bool) list" where
  "dispatched dispatch i [] rx = []"
| "dispatched dispatch i (ev # evs) rx =
     dispatch_now dispatch i ev rx @ dispatched dispatch i evs (receiver_step dispatch ev rx)"

text \<open>A receiver with one connection is its runner.\<close>

lemma runner_alone:
  "i \<in> rx_open rx \<Longrightarrow>
   rx_state (fold (receiver_step dispatch) (map (RxFrame i peer) frames) rx) = runner dispatch frames (rx_state rx)"
proof (induction frames arbitrary: rx)
  case (Cons frame frames)
  have closed: "rx_state (fold (receiver_step dispatch) (map (RxFrame i peer) fs) rx) = rx_state rx"
    if "i \<notin> rx_open rx" for fs and rx :: "'a ReceiverTask"
    using that by (induction fs arbitrary: rx) simp_all
  show ?case
    using Cons closed
    by (cases frame; cases "dispatch (projr frame) (rx_state rx)"; cases "fst (dispatch (projr frame) (rx_state rx))")
      (simp_all add: rx_close_def)
qed simp

text \<open>The handlers of a broadcast are distinct and come in the order of the addresses.\<close>

lemma reliable_broadcast_handlers:
  "reliable_broadcast addresses data s = (hs, s') \<Longrightarrow>
   hs = [rs_next s..<rs_next s + length addresses] \<and> rs_next s' = rs_next s + length addresses"
proof (induction addresses arbitrary: s hs)
  case (Cons a as)
  obtain h s1 where 1: "reliable_send a data s = (h, s1)" by (cases "reliable_send a data s")
  obtain hs1 where 2: "reliable_broadcast as data s1 = (hs1, s')" and hs: "hs = h # hs1"
    using Cons.prems 1 by (auto split: prod.splits)
  have h: "h = rs_next s" "rs_next s1 = Suc (rs_next s)"
    using 1 by (auto simp: reliable_send_def Let_def)
  have "[rs_next s..<rs_next s + length (a # as)] = rs_next s # [Suc (rs_next s)..<rs_next s + length (a # as)]"
    by (rule upt_conv_Cons) simp
  with Cons.IH [OF 2] h hs show ?case by simp
qed simp

end
