(* ===== verification/Defl_Sender.thy ===== *)
theory Defl_Sender
  imports Mempool_Model Network_Model
begin

text \<open>
  The crate \<open>proto\<close>: the messages of \<open>proto/src/defl.proto\<close>, the weights bank
  (\<open>proto/src/lib.rs\<close>) and the sender that answers clients (\<open>proto/src/defl_sender.rs\<close>). The
  generated encoders and decoders, the random UUIDs and the parser of IPv6 addresses are parameters.
  An \<open>i32\<close> or \<open>i64\<close> is a word: the code only compares and increments them.
\<close>

type_synonym i32 = "32 word"
type_synonym i64 = "64 word"
type_synonym ClientWeights = "(string \<times> byte list) list"

section \<open>Messages\<close>

record RegisterInfo =
  ri_host :: string
  ri_port :: i32
  ri_pasv_host :: string
  ri_pasv_port :: i32

record ClientRequest =
  rq_method :: i32
  rq_request_uuid :: string
  rq_client_name :: string
  rq_target_epoch_id :: i64
  rq_weights :: "byte list option"

datatype ClientMethod = UpdWeights | NewEpochVote

definition ClientMethod_from_i32 :: "i32 \<Rightarrow> ClientMethod option" where
  "ClientMethod_from_i32 n = (if n = 0 then Some UpdWeights else if n = 1 then Some NewEpochVote else None)"

record ObsidoRequest =
  ob_method :: i32
  ob_request_uuid :: string
  ob_client_name :: string
  ob_register_info :: "RegisterInfo option"

datatype ObsidoMethod = FetchWLast | ClientRegister

definition ObsidoMethod_from_i32 :: "i32 \<Rightarrow> ObsidoMethod option" where
  "ObsidoMethod_from_i32 n = (if n = 0 then Some FetchWLast else if n = 1 then Some ClientRegister else None)"

datatype Status =
    StatusOk
  | NotMeetQuorumWait
  | UwTargetEpochIdError
  | NevTargetEpochIdError
  | NoWeightsInRequestError
  | ClientAlreadyVotedError
  | ServerInternalError

fun Status_to_i32 :: "Status \<Rightarrow> i32" where
  "Status_to_i32 StatusOk = 0x00"
| "Status_to_i32 NotMeetQuorumWait = 0x01"
| "Status_to_i32 UwTargetEpochIdError = 0x10"
| "Status_to_i32 NevTargetEpochIdError = 0x11"
| "Status_to_i32 NoWeightsInRequestError = 0x20"
| "Status_to_i32 ClientAlreadyVotedError = 0x30"
| "Status_to_i32 ServerInternalError = 0xff"

record Response =
  re_stat :: i32
  re_response_uuid :: string
  re_request_uuid :: string

record WeightsResponse =
  wr_response_uuid :: string
  wr_request_uuid :: "string option"
  wr_r_last_epoch_id :: i64
  wr_w_last :: ClientWeights

record node_env = mp_env +
  decode_client :: "byte list \<Rightarrow> string + ClientRequest"
  decode_obsido :: "byte list \<Rightarrow> string + ObsidoRequest"
  encode_response :: "Response \<Rightarrow> byte list"
  encode_weights :: "WeightsResponse \<Rightarrow> byte list"
  parse_ipv6 :: "string \<Rightarrow> u128 option"
  new_uuid :: "nat \<Rightarrow> string"
  conn_alive :: "nat \<Rightarrow> nat set"

text \<open>
  \<open>new_uuid n\<close> is the n-th UUID drawn; \<open>conn_alive n\<close> are the connections of a \<open>SimpleSender\<close> whose
  task still runs when it sends its n-th message. The mempool's receiver and the node use one
  generated decoder.
\<close>

definition client_codec :: "'a node_env_scheme \<Rightarrow> bool" where
  "client_codec E \<longleftrightarrow> (\<forall>m. client_decodes E m \<longleftrightarrow> (\<exists>r. decode_client E m = Inr r))"

section \<open>The weights bank\<close>

record DeflDatabank =
  dk_client_weights :: ClientWeights
  dk_epoch_id :: i64

definition DeflDatabank_new :: "i64 \<Rightarrow> DeflDatabank" where
  "DeflDatabank_new init_epoch_id = \<lparr>dk_client_weights = [], dk_epoch_id = init_epoch_id\<rparr>"

record SimpleRegisterInfo =
  sr_host :: string
  sr_port :: u16
  sr_pasv_host :: string
  sr_pasv_port :: u16

definition RegisterInfo_into :: "RegisterInfo \<Rightarrow> SimpleRegisterInfo" where
  "RegisterInfo_into info =
     \<lparr>sr_host = ri_host info, sr_port = ucast (ri_port info),
      sr_pasv_host = ri_pasv_host info, sr_pasv_port = ucast (ri_pasv_port info)\<rparr>"

section \<open>Parsing an address\<close>

text \<open>
  \<open>str::parse\<close> at \<open>IpAddr\<close>: four decimal octets of at most three digits, without leading zeros,
  separated by dots, or an IPv6 address.
\<close>

fun split_on :: "char \<Rightarrow> string \<Rightarrow> string list" where
  "split_on c [] = [[]]"
| "split_on c (x # xs) =
     (if x = c then [] # split_on c xs
      else case split_on c xs of [] \<Rightarrow> [[x]] | w # ws \<Rightarrow> (x # w) # ws)"

definition digit_value :: "char \<Rightarrow> nat option" where
  "digit_value c = (let n = of_char c :: nat in if 48 \<le> n \<and> n \<le> 57 then Some (n - 48) else None)"

fun decimal :: "nat \<Rightarrow> string \<Rightarrow> nat option" where
  "decimal acc [] = Some acc"
| "decimal acc (c # cs) = (case digit_value c of None \<Rightarrow> None | Some d \<Rightarrow> decimal (10 * acc + d) cs)"

definition parse_octet :: "string \<Rightarrow> u32 option" where
  "parse_octet s =
     (if s = [] \<or> length s > 3 \<or> (hd s = CHR ''0'' \<and> length s > 1) then None
      else case decimal 0 s of
             None \<Rightarrow> None
           | Some n \<Rightarrow> if n < 256 then Some (of_nat n) else None)"

definition parse_ipv4 :: "string \<Rightarrow> u32 option" where
  "parse_ipv4 s =
     (case map parse_octet (split_on (CHR ''.'') s) of
        [Some a, Some b, Some c, Some d] \<Rightarrow> Some (((a * 256 + b) * 256 + c) * 256 + d)
      | _ \<Rightarrow> None)"

definition parse_ip :: "'a node_env_scheme \<Rightarrow> string \<Rightarrow> IpAddr option" where
  "parse_ip E s =
     (case parse_ipv4 s of
        Some a \<Rightarrow> Some (V4 a)
      | None \<Rightarrow> map_option V6 (parse_ipv6 E s))"

section \<open>The sender\<close>

text \<open>
  The contacts are shared between the clones of a \<open>DeflSender\<close>, each has a \<open>SimpleSender\<close> of its own.
  No holder of the lock on the contacts panics while it holds it, so the lock is never poisoned and
  \<open>ContactsLockPoisonError\<close> never returned.
\<close>

type_synonym Contacts = "(string \<times> SimpleRegisterInfo) list"

datatype RespondError =
    RegistrationError string
  | RespondNetworkError string
  | ContactsLockPoisonError

definition unwrap_message :: string where
  "unwrap_message = ''called Result::unwrap() on an Err value''"

definition sender_send :: "'a node_env_scheme \<Rightarrow> SocketAddr \<Rightarrow> byte list \<Rightarrow> SimpleSender \<Rightarrow> bool \<times> SimpleSender" where
  "sender_send E address data s = simple_send (conn_alive E (length (ss_sent s))) address data s"

definition respond_to_client ::
  "'a node_env_scheme \<Rightarrow> string \<Rightarrow> Response \<Rightarrow> Contacts \<Rightarrow> SimpleSender \<Rightarrow>
   (RespondError, nat) outcome \<times> SimpleSender" where
  "respond_to_client E client_name response contacts s =
     (case map_of contacts client_name of
        None \<Rightarrow> (Err (RegistrationError client_name), s)
      | Some info \<Rightarrow>
          let data = encode_response E response
          in case parse_ip E (sr_host info) of
               None \<Rightarrow> (Panic unwrap_message, s)
             | Some ip \<Rightarrow>
                 (case sender_send E (SocketAddr ip (sr_port info)) data s of
                    (sent, s) \<Rightarrow>
                      (if sent then Ok (length data) else Err (RespondNetworkError client_name), s)))"

text \<open>The loop over the contacts, in the order of the map.\<close>

fun send_to_all ::
  "'a node_env_scheme \<Rightarrow> byte list \<Rightarrow> Contacts \<Rightarrow> SimpleSender \<Rightarrow> (RespondError, unit) outcome \<times> SimpleSender" where
  "send_to_all E data [] s = (Ok (), s)"
| "send_to_all E data ((_, info) # contacts) s =
     (case parse_ip E (sr_pasv_host info) of
        None \<Rightarrow> (Panic unwrap_message, s)
      | Some ip \<Rightarrow>
          send_to_all E data contacts (snd (sender_send E (SocketAddr ip (sr_pasv_port info)) data s)))"

definition respond_to_all_client ::
  "'a node_env_scheme \<Rightarrow> WeightsResponse \<Rightarrow> Contacts \<Rightarrow> SimpleSender \<Rightarrow>
   (RespondError, nat) outcome \<times> SimpleSender" where
  "respond_to_all_client E response contacts s =
     (let data = encode_weights E response
      in then_ok (send_to_all E data contacts s) (\<lambda>_ s. (Ok (length data), s)))"

definition client_register :: "string \<Rightarrow> SimpleRegisterInfo \<Rightarrow> Contacts \<Rightarrow> Contacts" where
  "client_register client_name info contacts = AList.update client_name info contacts"

lemma sender_send_True [simp]: "fst (sender_send E address data s)"
  by (simp add: sender_send_def simple_send_def Let_def split: option.split)

lemma sender_send_sent:
  "map snd (ss_sent (snd (sender_send E address data s))) = map snd (ss_sent s) @ [data]"
  by (simp add: sender_send_def simple_send_def Let_def split: option.split)

lemma send_to_all_not_Err: "fst (send_to_all E data contacts s) \<noteq> Err e"
  by (induction E data contacts s rule: send_to_all.induct) (auto split: option.split)

lemma respond_to_all_not_Err: "fst (respond_to_all_client E w contacts s) \<noteq> Err e"
  using send_to_all_not_Err [of E "encode_weights E w" contacts s]
  by (cases "send_to_all E (encode_weights E w) contacts s"; cases "fst (send_to_all E (encode_weights E w) contacts s)")
    (auto simp: respond_to_all_client_def Let_def)

text \<open>A contact whose hosts parse, and a table of such contacts.\<close>

definition reachable_contact :: "'a node_env_scheme \<Rightarrow> SimpleRegisterInfo \<Rightarrow> bool" where
  "reachable_contact E info \<longleftrightarrow> parse_ip E (sr_host info) \<noteq> None \<and> parse_ip E (sr_pasv_host info) \<noteq> None"

definition contacts_ok :: "'a node_env_scheme \<Rightarrow> Contacts \<Rightarrow> bool" where
  "contacts_ok E contacts \<longleftrightarrow> (\<forall>(n, info) \<in> set contacts. reachable_contact E info)"

lemma send_to_all_Ok:
  "contacts_ok E contacts \<Longrightarrow> \<exists>s'. send_to_all E data contacts s = (Ok (), s')
     \<and> map snd (ss_sent s') = map snd (ss_sent s) @ replicate (length contacts) data"
proof (induction E data contacts s rule: send_to_all.induct)
  case (2 E data n info contacts s)
  from 2(2) obtain ip where ip: "parse_ip E (sr_pasv_host info) = Some ip"
    by (auto simp: contacts_ok_def reachable_contact_def)
  have "contacts_ok E contacts" using 2(2) by (auto simp: contacts_ok_def)
  from 2(1) [OF ip this] show ?case using ip by (auto simp: sender_send_sent)
qed simp

lemma respond_to_all_Ok:
  assumes "contacts_ok E contacts"
  shows "\<exists>s'. respond_to_all_client E w contacts s = (Ok (length (encode_weights E w)), s')
     \<and> map snd (ss_sent s') = map snd (ss_sent s) @ replicate (length contacts) (encode_weights E w)"
  using send_to_all_Ok [OF assms, of "encode_weights E w" s]
  by (auto simp: respond_to_all_client_def Let_def)

lemma respond_to_client_completes:
  assumes "contacts_ok E contacts"
  shows "completes (fst (respond_to_client E name response contacts s))"
proof (cases "map_of contacts name")
  case (Some info)
  then have "reachable_contact E info" using assms map_of_SomeD [OF Some] by (auto simp: contacts_ok_def)
  then show ?thesis
    using Some by (auto simp: respond_to_client_def reachable_contact_def Let_def split: prod.split)
qed (simp add: respond_to_client_def del: hm_keys_None)

end
