(* ===== verification/Node_Model.thy ===== *)
theory Node_Model
  imports Defl_Sender
begin

text \<open>
  The node (\<open>node/src/node.rs\<close>), which applies the client requests of committed blocks to the weights
  bank, and Obsido (\<open>obsido/src/lib.rs\<close>), which serves the bank of the last epoch and registers
  clients. They share the last bank and the contacts; their state is one record.
\<close>

record Node =
  nd_last :: DeflDatabank
  nd_cur :: DeflDatabank
  nd_voted :: "string set"
  nd_contacts :: Contacts
  nd_sender :: SimpleSender
  nd_obsido_sender :: SimpleSender
  nd_quorum :: nat
  nd_uuids :: nat

definition Node_new :: "nat \<Rightarrow> Node" where
  "Node_new quorum =
     \<lparr>nd_last = DeflDatabank_new (- 1), nd_cur = DeflDatabank_new 0, nd_voted = {}, nd_contacts = [],
      nd_sender = SimpleSender_new, nd_obsido_sender = SimpleSender_new, nd_quorum = quorum,
      nd_uuids = 0\<rparr>"

definition draw_uuid :: "'a node_env_scheme \<Rightarrow> Node \<Rightarrow> string \<times> Node" where
  "draw_uuid E st = (new_uuid E (nd_uuids st), st\<lparr>nd_uuids := Suc (nd_uuids st)\<rparr>)"

section \<open>Requests\<close>

definition upd_weights :: "ClientRequest \<Rightarrow> Node \<Rightarrow> Status \<times> Node" where
  "upd_weights request st =
     (case (rq_target_epoch_id request = dk_epoch_id (nd_cur st), rq_weights request) of
        (True, Some weights) \<Rightarrow>
          (StatusOk, st\<lparr>nd_cur := (nd_cur st)\<lparr>dk_client_weights :=
             AList.update (rq_client_name request) weights (dk_client_weights (nd_cur st))\<rparr>\<rparr>)
      | (True, None) \<Rightarrow> (NoWeightsInRequestError, st)
      | (False, _) \<Rightarrow> (UwTargetEpochIdError, st))"

text \<open>Enough votes: publish the bank of this epoch, enter the next.\<close>

definition enter_epoch :: "'a node_env_scheme \<Rightarrow> Node \<Rightarrow> WeightsResponse \<times> Node" where
  "enter_epoch E st =
     (case draw_uuid E st of (uuid, st) \<Rightarrow>
        (\<lparr>wr_response_uuid = uuid, wr_request_uuid = None, wr_r_last_epoch_id = dk_epoch_id (nd_cur st),
          wr_w_last = dk_client_weights (nd_cur st)\<rparr>,
         st\<lparr>nd_last := nd_cur st,
            nd_cur := \<lparr>dk_client_weights = [], dk_epoch_id = dk_epoch_id (nd_cur st) + 1\<rparr>,
            nd_voted := {}\<rparr>))"

definition new_epoch_vote ::
  "'a node_env_scheme \<Rightarrow> ClientRequest \<Rightarrow> Node \<Rightarrow> (Status \<times> WeightsResponse option) \<times> Node" where
  "new_epoch_vote E request st =
     (if rq_target_epoch_id request = dk_epoch_id (nd_cur st) then
        if rq_client_name request \<notin> nd_voted st then
          let st = st\<lparr>nd_voted := insert (rq_client_name request) (nd_voted st)\<rparr>
          in if card (nd_voted st) < nd_quorum st then ((NotMeetQuorumWait, None), st)
             else (case enter_epoch E st of (passive, st) \<Rightarrow> ((StatusOk, Some passive), st))
        else ((ClientAlreadyVotedError, None), st)
      else ((NevTargetEpochIdError, None), st))"

definition get_responses ::
  "'a node_env_scheme \<Rightarrow> ClientRequest \<Rightarrow> Node \<Rightarrow> (Response \<times> WeightsResponse option) \<times> Node" where
  "get_responses E request st =
     (case (case ClientMethod_from_i32 (rq_method request) of
              Some UpdWeights \<Rightarrow> (case upd_weights request st of (stat, st) \<Rightarrow> ((stat, None), st))
            | Some NewEpochVote \<Rightarrow> new_epoch_vote E request st
            | None \<Rightarrow> ((ServerInternalError, None), st))
      of ((stat, passive), st) \<Rightarrow>
        (case draw_uuid E st of (uuid, st) \<Rightarrow>
           ((\<lparr>re_stat = Status_to_i32 stat, re_response_uuid = uuid,
              re_request_uuid = rq_request_uuid request\<rparr>, passive), st)))"

section \<open>Transactions and blocks\<close>

text \<open>\<open>result.unwrap()\<close>\<close>

fun unwrap :: "('e, 'a) outcome \<Rightarrow> (string, 'a) outcome" where
  "unwrap (Ok a) = Ok a"
| "unwrap (Err e) = Panic unwrap_message"
| "unwrap (Panic m) = Panic m"
| "unwrap Hang = Hang"

text \<open>The \<open>match\<close> that logs whatever error the answer met.\<close>

fun logged :: "('e, 'a) outcome \<Rightarrow> (string, unit) outcome" where
  "logged (Ok a) = Ok ()"
| "logged (Err e) = Ok ()"
| "logged (Panic m) = Panic m"
| "logged Hang = Hang"

definition answer_client ::
  "'a node_env_scheme \<Rightarrow> string \<Rightarrow> Response \<Rightarrow> Node \<Rightarrow> (string, unit) outcome \<times> Node" where
  "answer_client E client_name response st =
     (case respond_to_client E client_name response (nd_contacts st) (nd_sender st) of
        (r, s) \<Rightarrow> (logged r, st\<lparr>nd_sender := s\<rparr>))"

definition answer_all ::
  "'a node_env_scheme \<Rightarrow> WeightsResponse option \<Rightarrow> Node \<Rightarrow> (string, unit) outcome \<times> Node" where
  "answer_all E passive st =
     (case passive of
        None \<Rightarrow> (Ok (), st)
      | Some w \<Rightarrow>
          (case respond_to_all_client E w (nd_contacts st) (nd_sender st) of
             (r, s) \<Rightarrow> (logged (unwrap r), st\<lparr>nd_sender := s\<rparr>)))"

definition analyze_transaction ::
  "'a node_env_scheme \<Rightarrow> byte list \<Rightarrow> Node \<Rightarrow> (string, unit) outcome \<times> Node" where
  "analyze_transaction E client_tx st =
     (case decode_client E client_tx of
        Inl e \<Rightarrow> (Panic ''Failed to decode client request.'', st)
      | Inr client_request \<Rightarrow>
          (case get_responses E client_request st of ((response, passive), st) \<Rightarrow>
             then_ok (answer_client E (rq_client_name client_request) response st) (\<lambda>_ st.
               answer_all E passive st)))"

fun analyze_batch ::
  "'a node_env_scheme \<Rightarrow> Batch \<Rightarrow> Node \<Rightarrow> (string, unit) outcome \<times> Node" where
  "analyze_batch E [] st = (Ok (), st)"
| "analyze_batch E (client_tx # batch) st =
     then_ok (analyze_transaction E client_tx st) (\<lambda>_ st. analyze_batch E batch st)"

text \<open>\<open>dbs n\<close> is the shared store when the n-th digest of the payload is read.\<close>

fun analyze_payload ::
  "'a node_env_scheme \<Rightarrow> (nat \<Rightarrow> puts) \<Rightarrow> Digest list \<Rightarrow> Node \<Rightarrow> (string, unit) outcome \<times> Node" where
  "analyze_payload E dbs [] st = (Ok (), st)"
| "analyze_payload E dbs (digest # payload) st =
     (case Store_read E (dbs 0) (Digest_to_vec digest) of
        Ok (Some serialized_batch) \<Rightarrow>
          (case de_mempool E serialized_batch of
             Inr (MBatch batch) \<Rightarrow>
               then_ok (analyze_batch E batch st) (\<lambda>_ st. analyze_payload E (\<lambda>n. dbs (Suc n)) payload st)
           | _ \<Rightarrow> analyze_payload E (\<lambda>n. dbs (Suc n)) payload st)
      | Ok None \<Rightarrow> (Panic ''Digest not in block_store.'', st)
      | Err e \<Rightarrow> (Panic ''Call store read failed.'', st)
      | Panic m \<Rightarrow> (Panic m, st)
      | Hang \<Rightarrow> (Hang, st))"

fun analyze_blocks ::
  "'a node_env_scheme \<Rightarrow> ((nat \<Rightarrow> puts) \<times> Block) list \<Rightarrow> Node \<Rightarrow> (string, unit) outcome \<times> Node" where
  "analyze_blocks E [] st = (Ok (), st)"
| "analyze_blocks E ((dbs, block) # blocks) st =
     then_ok (if b_payload block = [] then (Ok (), st) else analyze_payload E dbs (b_payload block) st)
       (\<lambda>_ st. analyze_blocks E blocks st)"

section \<open>Obsido\<close>

datatype ObsidoEffect = ObToHandler "byte list" | ObReply string

definition obsido_dispatch :: "'a node_env_scheme \<Rightarrow> byte list \<Rightarrow> ObsidoEffect list" where
  "obsido_dispatch E message =
     (case decode_obsido E message of
        Inr _ \<Rightarrow> [ObToHandler message, ObReply ''Ack'']
      | Inl _ \<Rightarrow> [ObReply ''Invalid OBSIDO Transaction''])"

definition fetch_w_last ::
  "'a node_env_scheme \<Rightarrow> ObsidoRequest \<Rightarrow> Node \<Rightarrow> (string, unit) outcome \<times> Node" where
  "fetch_w_last E request st =
     (case draw_uuid E st of (uuid, st) \<Rightarrow>
        let response = \<lparr>wr_response_uuid = uuid, wr_request_uuid = Some (ob_request_uuid request),
              wr_r_last_epoch_id = dk_epoch_id (nd_last st), wr_w_last = dk_client_weights (nd_last st)\<rparr>
        in case respond_to_all_client E response (nd_contacts st) (nd_obsido_sender st) of
             (r, s) \<Rightarrow> (logged r, st\<lparr>nd_obsido_sender := s\<rparr>))"

definition obsido_handle ::
  "'a node_env_scheme \<Rightarrow> byte list \<Rightarrow> Node \<Rightarrow> (string, unit) outcome \<times> Node" where
  "obsido_handle E transaction st =
     (case decode_obsido E transaction of
        Inl e \<Rightarrow> (Panic unwrap_message, st)
      | Inr request \<Rightarrow>
          (case ObsidoMethod_from_i32 (ob_method request) of
             Some FetchWLast \<Rightarrow> fetch_w_last E request st
           | Some ClientRegister \<Rightarrow>
               (case ob_register_info request of
                  Some info \<Rightarrow>
                    (Ok (), st\<lparr>nd_contacts :=
                       client_register (ob_client_name request) (RegisterInfo_into info) (nd_contacts st)\<rparr>)
                | None \<Rightarrow> (Ok (), st))
           | None \<Rightarrow> (Ok (), st)))"

text \<open>
  The node's and Obsido's tasks interleave; every step leaves the state it reached, also when it
  panicked (the other task goes on).
\<close>

datatype NodeEvent = NdTransaction "byte list" | NdObsido "byte list"

fun node_step :: "'a node_env_scheme \<Rightarrow> NodeEvent \<Rightarrow> Node \<Rightarrow> Node" where
  "node_step E (NdTransaction tx) st = snd (analyze_transaction E tx st)"
| "node_step E (NdObsido tx) st = snd (obsido_handle E tx st)"

definition node_run :: "'a node_env_scheme \<Rightarrow> NodeEvent list \<Rightarrow> Node \<Rightarrow> Node" where
  "node_run E evs st = fold (node_step E) evs st"

end
