(* ===== verification/Mempool_Sync.thy ===== *)
theory Mempool_Sync
  imports Mempool_Model
begin

text \<open>
  The mempool's synchronizer (\<open>mempool/src/synchronizer.rs\<close>): its table of missing batches, its garbage
  collection by round, and the retries. The clock is an argument; \<open>pick\<close> stands for the random choice
  of \<open>lucky_broadcast\<close> (a shuffle, truncated).
\<close>

definition TIMER_RESOLUTION :: u64 where
  "TIMER_RESOLUTION = 1000"

record MempoolSync =
  ms_name :: PublicKey
  ms_committee :: MpCommittee
  ms_gc_depth :: Round
  ms_retry_delay :: u64
  ms_retry_nodes :: nat
  ms_round :: Round
  ms_pending :: "(Digest \<times> Round \<times> nat \<times> u128) list"
  ms_waiting :: "(nat \<times> Digest) list"
  ms_next :: nat
  ms_out :: "MpEffect list"

definition MempoolSync_new :: "PublicKey \<Rightarrow> MpCommittee \<Rightarrow> Round \<Rightarrow> u64 \<Rightarrow> nat \<Rightarrow> MempoolSync" where
  "MempoolSync_new name com gc_depth retry_delay retry_nodes =
     \<lparr>ms_name = name, ms_committee = com, ms_gc_depth = gc_depth, ms_retry_delay = retry_delay,
      ms_retry_nodes = retry_nodes, ms_round = 0, ms_pending = [], ms_waiting = [], ms_next = 0,
      ms_out = []\<rparr>"

text \<open>The loop over the digests of \<open>Synchronize\<close>; the list collected is \<open>missing\<close>.\<close>

fun register_missing :: "u128 \<Rightarrow> Digest list \<Rightarrow> Digest list \<Rightarrow> MempoolSync \<Rightarrow> Digest list \<times> MempoolSync" where
  "register_missing now [] missing st = (missing, st)"
| "register_missing now (digest # digests) missing st =
     (if digest \<in> hm_keys (ms_pending st) then register_missing now digests missing st
      else register_missing now digests (missing @ [digest])
        (st\<lparr>ms_waiting := ms_waiting st @ [(ms_next st, digest)],
            ms_pending := AList.update digest (ms_round st, ms_next st, now) (ms_pending st),
            ms_next := Suc (ms_next st)\<rparr>))"

definition ms_synchronize ::
  "'a mp_env_scheme \<Rightarrow> u128 \<Rightarrow> Digest list \<Rightarrow> PublicKey \<Rightarrow> MempoolSync \<Rightarrow> MempoolSync" where
  "ms_synchronize E now digests target st =
     (case register_missing now digests [] st of (missing, st) \<Rightarrow>
        case mp_mempool_address (ms_committee st) target of
          None \<Rightarrow> st
        | Some address \<Rightarrow>
            st\<lparr>ms_out := ms_out st @ [MpSend address (ser_mempool E (MBatchRequest missing (ms_name st)))]\<rparr>)"

definition ms_cleanup :: "Round \<Rightarrow> MempoolSync \<Rightarrow> MempoolSync" where
  "ms_cleanup round st =
     (let st = st\<lparr>ms_round := round\<rparr>
      in if ms_round st < ms_gc_depth st then st
         else
           let gc_round = ms_round st - ms_gc_depth st
           in st\<lparr>ms_pending := filter (\<lambda>(_, r, _). r > gc_round) (ms_pending st)\<rparr>)"

text \<open>Requests older than the delay.\<close>

definition ms_expired :: "u128 \<Rightarrow> MempoolSync \<Rightarrow> Digest list" where
  "ms_expired now st = map fst (filter (\<lambda>(_, _, _, timestamp).
     timestamp + ucast (ms_retry_delay st) < now) (ms_pending st))"

definition ms_timer ::
  "'a mp_env_scheme \<Rightarrow> (SocketAddr list \<Rightarrow> SocketAddr list) \<Rightarrow> u128 \<Rightarrow> MempoolSync \<Rightarrow> MempoolSync" where
  "ms_timer E pick now st =
     (let retry = ms_expired now st
      in if retry = [] then st
         else
           let addresses = map snd (mp_broadcast_addresses (ms_committee st) (ms_name st));
               serialized = ser_mempool E (MBatchRequest retry (ms_name st))
           in st\<lparr>ms_out := ms_out st @ [MpBroadcast (take (ms_retry_nodes st) (pick addresses)) serialized]\<rparr>)"

text \<open>
  The events: a message, a future that read its batch, was cancelled (its channel is closed, that is,
  no pending entry holds it), or met a store error, and the timer.
\<close>

datatype MsEvent =
    MsMessage u128 ConsensusMempoolMessage
  | MsRead nat
  | MsCancelled nat
  | MsError nat
  | MsTimer u128

definition ms_finish :: "nat \<Rightarrow> MempoolSync \<Rightarrow> MempoolSync" where
  "ms_finish i st = st\<lparr>ms_waiting := filter (\<lambda>(j, _). j \<noteq> i) (ms_waiting st)\<rparr>"

fun ms_step ::
  "'a mp_env_scheme \<Rightarrow> (SocketAddr list \<Rightarrow> SocketAddr list) \<Rightarrow> MsEvent \<Rightarrow> MempoolSync \<Rightarrow> MempoolSync" where
  "ms_step E pick (MsMessage now (Synchronize digests target)) st = ms_synchronize E now digests target st"
| "ms_step E pick (MsMessage now (MempoolCleanup round)) st = ms_cleanup round st"
| "ms_step E pick (MsRead i) st =
     (case map_of (ms_waiting st) i of
        None \<Rightarrow> st
      | Some digest \<Rightarrow>
          let st = ms_finish i st
          in st\<lparr>ms_pending := AList.delete digest (ms_pending st)\<rparr>)"
| "ms_step E pick (MsCancelled i) st =
     (if \<exists>(d, r, j, t) \<in> set (ms_pending st). j = i then st else ms_finish i st)"
| "ms_step E pick (MsError i) st = ms_finish i st"
| "ms_step E pick (MsTimer now) st = ms_timer E pick now st"

definition ms_run ::
  "'a mp_env_scheme \<Rightarrow> (SocketAddr list \<Rightarrow> SocketAddr list) \<Rightarrow> MsEvent list \<Rightarrow> MempoolSync \<Rightarrow> MempoolSync" where
  "ms_run E pick evs st = fold (ms_step E pick) evs st"

section \<open>Registration\<close>

lemma register_missing_frame:
  assumes "register_missing now digests missing st = (missing', st')"
  shows "ms_round st' = ms_round st \<and> ms_committee st' = ms_committee st \<and> ms_name st' = ms_name st
    \<and> ms_out st' = ms_out st \<and> ms_gc_depth st' = ms_gc_depth st
    \<and> hm_keys (ms_pending st') = hm_keys (ms_pending st) \<union> set digests"
  using assms by (induction digests arbitrary: missing st) (auto split: if_splits)

text \<open>The digests asked for are those not pending already, once each, in order.\<close>

lemma register_missing_missing:
  assumes "register_missing now digests missing st = (missing', st')"
  shows "set missing' = set missing \<union> (set digests - hm_keys (ms_pending st))
    \<and> (distinct missing \<and> set missing \<subseteq> hm_keys (ms_pending st) \<longrightarrow> distinct missing')"
  using assms
proof (induction digests arbitrary: missing st)
  case (Cons d ds)
  show ?case
  proof (cases "d \<in> hm_keys (ms_pending st)")
    case True
    then have "register_missing now ds missing st = (missing', st')" using Cons.prems by simp
    from Cons.IH [OF this] True show ?thesis by auto
  next
    case False
    let ?st = "st\<lparr>ms_waiting := ms_waiting st @ [(ms_next st, d)],
            ms_pending := AList.update d (ms_round st, ms_next st, now) (ms_pending st),
            ms_next := Suc (ms_next st)\<rparr>"
    have "register_missing now ds (missing @ [d]) ?st = (missing', st')"
      using Cons.prems False by simp
    from Cons.IH [OF this] False show ?thesis by auto
  qed
qed simp

text \<open>
  The invariant: the table has distinct keys, an entry holds the channel of a future for its digest
  (if that future is still there), no entry is of a round after the synchronizer's, and after a
  collection none is at or below the collected round.
\<close>

definition ms_inv :: "MempoolSync \<Rightarrow> bool" where
  "ms_inv st \<longleftrightarrow> distinct_keys (ms_pending st) \<and> distinct_keys (ms_waiting st)
     \<and> (\<forall>i \<in> hm_keys (ms_waiting st). i < ms_next st)
     \<and> (\<forall>(d, r, i, t) \<in> set (ms_pending st). i < ms_next st
          \<and> (\<forall>d'. (i, d') \<in> set (ms_waiting st) \<longrightarrow> d' = d))"

lemma ms_inv_new [simp]: "ms_inv (MempoolSync_new name com gc delay nodes)"
  by (simp add: ms_inv_def MempoolSync_new_def)

lemma ms_inv_register1:
  assumes i: "ms_inv st" and d: "d \<notin> hm_keys (ms_pending st)"
  shows "ms_inv (st\<lparr>ms_waiting := ms_waiting st @ [(ms_next st, d)],
            ms_pending := AList.update d (r, ms_next st, now) (ms_pending st),
            ms_next := Suc (ms_next st)\<rparr>)"
proof -
  have keys: "distinct_keys (ms_waiting st @ [(ms_next st, d)])"
    using i by (force simp: ms_inv_def distinct_keys_def hm_keys_def)
  have old: "(k, v) \<in> set (ms_pending st)" if "(k, v) \<in> set (AList.update d (r, ms_next st, now) (ms_pending st))"
    "\<not> (k = d \<and> v = (r, ms_next st, now))" for k v
    using set_AList_update [OF _ that(1)] that(2) i by (auto simp: ms_inv_def)
  have fresh: "(ms_next st, d') \<notin> set (ms_waiting st)" for d'
    using i by (force simp: ms_inv_def hm_keys_def)
  have "i' < Suc (ms_next st) \<and> (\<forall>d'. (i', d') \<in> set (ms_waiting st @ [(ms_next st, d)]) \<longrightarrow> d' = k)"
    if m: "(k, q, i', t) \<in> set (AList.update d (r, ms_next st, now) (ms_pending st))" for k q i' t
  proof (cases "k = d \<and> (q, i', t) = (r, ms_next st, now)")
    case True
    then show ?thesis using fresh by auto
  next
    case False
    from old [OF m] False i have "i' < ms_next st \<and> (\<forall>d'. (i', d') \<in> set (ms_waiting st) \<longrightarrow> d' = k)"
      by (fastforce simp: ms_inv_def)
    then show ?thesis by auto
  qed
  then show ?thesis
    using keys i by (fastforce simp: ms_inv_def hm_keys_def)
qed

lemma ms_inv_register:
  assumes "ms_inv st" and "register_missing now digests missing st = (missing', st')"
  shows "ms_inv st'"
  using assms
proof (induction digests arbitrary: missing st)
  case (Cons d ds)
  then show ?case using ms_inv_register1 [of st d "ms_round st" now] by (auto split: if_splits)
qed simp

lemma ms_inv_sub:
  assumes "ms_inv st" "distinct_keys p" "set p \<subseteq> set (ms_pending st)" "distinct_keys w"
    "set w \<subseteq> set (ms_waiting st)"
  shows "ms_inv (st\<lparr>ms_pending := p, ms_waiting := w\<rparr>)"
proof -
  have "hm_keys w \<subseteq> hm_keys (ms_waiting st)" using assms(5) by (auto simp: hm_keys_def)
  then show ?thesis using assms unfolding ms_inv_def by fastforce
qed

lemma ms_step_inv: "ms_inv st \<Longrightarrow> ms_inv (ms_step E pick ev st)"
proof (cases "(E, pick, ev, st)" rule: ms_step.cases)
  case (1 E pick now digests target st')
  assume i: "ms_inv st"
  obtain missing st1 where r: "register_missing now digests [] st = (missing, st1)"
    by (cases "register_missing now digests [] st")
  from ms_inv_register [OF i r] have "ms_inv st1" .
  then show ?thesis
    using 1 r by (auto simp: ms_synchronize_def ms_inv_def split: option.split)
next
  case (2 E pick now round st')
  assume i: "ms_inv st"
  have "ms_inv (st\<lparr>ms_round := round, ms_pending := filter (\<lambda>(_, r, _). r > g) (ms_pending st)\<rparr>)" for g
    using ms_inv_sub [OF i, of "filter (\<lambda>(_, r, _). r > g) (ms_pending st)" "ms_waiting st"] i
    by (simp add: ms_inv_def)
  moreover have "ms_inv (st\<lparr>ms_round := round\<rparr>)" using i by (simp add: ms_inv_def)
  ultimately show ?thesis using 2 by (simp add: ms_cleanup_def Let_def)
next
  case (3 E pick i st')
  assume inv: "ms_inv st"
  have "ms_inv (st\<lparr>ms_pending := AList.delete d (ms_pending st),
      ms_waiting := filter (\<lambda>(j, _). j \<noteq> i) (ms_waiting st)\<rparr>)" for d
    by (rule ms_inv_sub [OF inv _ set_AList_delete]) (use inv in \<open>auto simp: ms_inv_def\<close>)
  then have "ms_inv (st\<lparr>ms_waiting := filter (\<lambda>(j, _). j \<noteq> i) (ms_waiting st),
      ms_pending := AList.delete d (ms_pending st)\<rparr>)" for d
    by (simp add: ms_inv_def)
  then show ?thesis using 3 inv by (auto simp: ms_finish_def Let_def split: option.split)
next
  case (4 E pick i st')
  assume inv: "ms_inv st"
  have "ms_inv (st\<lparr>ms_pending := ms_pending st, ms_waiting := filter (\<lambda>(j, _). j \<noteq> i) (ms_waiting st)\<rparr>)"
    by (rule ms_inv_sub [OF inv]) (use inv in \<open>auto simp: ms_inv_def\<close>)
  then show ?thesis using 4 inv by (simp add: ms_finish_def)
next
  case (5 E pick i st')
  assume inv: "ms_inv st"
  have "ms_inv (st\<lparr>ms_pending := ms_pending st, ms_waiting := filter (\<lambda>(j, _). j \<noteq> i) (ms_waiting st)\<rparr>)"
    by (rule ms_inv_sub [OF inv]) (use inv in \<open>auto simp: ms_inv_def\<close>)
  then show ?thesis using 5 by (simp add: ms_finish_def)
next
  case (6 E pick now st')
  assume "ms_inv st"
  then show ?thesis using 6 by (auto simp: ms_timer_def Let_def ms_inv_def)
qed

lemma ms_run_inv: "ms_inv st \<Longrightarrow> ms_inv (ms_run E pick evs st)"
  unfolding ms_run_def by (induction evs arbitrary: st) (auto intro: ms_step_inv)

end
