(* ===== verification/Mempool_Tasks.thy ===== *)
theory Mempool_Tasks
  imports Mempool_Sync
begin

text \<open>
  The mempool of a node put together (\<open>mempool/src/mempool.rs\<close>): the tasks \<open>Mempool::spawn\<close> starts,
  the channels between them as queues, and the steps of their interleaving. The store is shared with
  the consensus; a write of the consensus is an event.
\<close>

section \<open>Spawning\<close>

definition set_ip_localhost :: "SocketAddr \<Rightarrow> SocketAddr" where
  "set_ip_localhost address = SocketAddr (V4 0x7F000001) (sa_port address)"

record MempoolTasks =
  mt_committee :: MpCommittee
  mt_stake :: Stake
  mt_tx_address :: SocketAddr
  mt_mempool_address :: SocketAddr
  mt_transactions :: "Transaction list"
  mt_batch_maker :: BatchMaker
  mt_quorum_waiter :: "(SerializedBatchMessage \<times> PublicKey list) list"
  mt_processor :: "SerializedBatchMessage list"
  mt_peer_processor :: "SerializedBatchMessage list"
  mt_helper :: "(Digest list \<times> PublicKey) list"
  mt_sync :: MempoolSync
  mt_db :: puts
  mt_sent :: "MpEffect list"
  mt_digests :: "Digest list"

definition handle_consensus_messages :: "PublicKey \<Rightarrow> MpCommittee \<Rightarrow> MpParameters \<Rightarrow> MempoolSync" where
  "handle_consensus_messages name com par =
     MempoolSync_new name com (mp_gc_depth par) (mp_sync_retry_delay par) (mp_sync_retry_nodes par)"

definition own_committee_message :: string where
  "own_committee_message = ''Our public key is not in the committee''"

definition handle_clients_transactions ::
  "PublicKey \<Rightarrow> MpCommittee \<Rightarrow> MpParameters \<Rightarrow> ('e, SocketAddr \<times> BatchMaker \<times> Stake) outcome" where
  "handle_clients_transactions name com par =
     (case mp_transactions_address com name of
        None \<Rightarrow> Panic own_committee_message
      | Some address \<Rightarrow>
          Ok (set_ip_localhost address, BatchMaker_new (mp_batch_size par) (mp_broadcast_addresses com name),
              mp_stake com name))"

definition handle_mempool_messages :: "PublicKey \<Rightarrow> MpCommittee \<Rightarrow> ('e, SocketAddr) outcome" where
  "handle_mempool_messages name com =
     (case mp_mempool_address com name of
        None \<Rightarrow> Panic own_committee_message
      | Some address \<Rightarrow> Ok (set_ip_localhost address))"

definition Mempool_spawn ::
  "PublicKey \<Rightarrow> MpCommittee \<Rightarrow> MpParameters \<Rightarrow> puts \<Rightarrow> ('e, MempoolTasks) outcome" where
  "Mempool_spawn name com par db =
     (let sync = handle_consensus_messages name com par
      in and_then (handle_clients_transactions name com par) (\<lambda>(tx_address, bm, stake).
         and_then (handle_mempool_messages name com) (\<lambda>mempool_address.
           Ok \<lparr>mt_committee = com, mt_stake = stake, mt_tx_address = tx_address,
               mt_mempool_address = mempool_address, mt_transactions = [], mt_batch_maker = bm,
               mt_quorum_waiter = [], mt_processor = [], mt_peer_processor = [], mt_helper = [],
               mt_sync = sync, mt_db = db, mt_sent = [], mt_digests = []\<rparr>)))"

section \<open>Steps\<close>

text \<open>Where an effect of a task goes; a processor's input comes from the quorum waiter or from a peer.\<close>

fun route :: "MpEffect \<Rightarrow> MempoolTasks \<Rightarrow> MempoolTasks" where
  "route (MpToBatchMaker tx) st = st\<lparr>mt_transactions := mt_transactions st @ [tx]\<rparr>"
| "route (MpToProcessor batch) st = st\<lparr>mt_processor := mt_processor st @ [batch]\<rparr>"
| "route (MpToHelper digests origin) st = st\<lparr>mt_helper := mt_helper st @ [(digests, origin)]\<rparr>"
| "route (MpToQuorumWaiter batch names) st = st\<lparr>mt_quorum_waiter := mt_quorum_waiter st @ [(batch, names)]\<rparr>"
| "route (MpToConsensus digest) st = st\<lparr>mt_digests := mt_digests st @ [digest]\<rparr>"
| "route (MpReply r) st = st\<lparr>mt_sent := mt_sent st @ [MpReply r]\<rparr>"
| "route (MpSend address bytes) st = st\<lparr>mt_sent := mt_sent st @ [MpSend address bytes]\<rparr>"
| "route (MpBroadcast addresses bytes) st = st\<lparr>mt_sent := mt_sent st @ [MpBroadcast addresses bytes]\<rparr>"

fun route_peer :: "MpEffect \<Rightarrow> MempoolTasks \<Rightarrow> MempoolTasks" where
  "route_peer (MpToProcessor batch) st = st\<lparr>mt_peer_processor := mt_peer_processor st @ [batch]\<rparr>"
| "route_peer e st = route e st"

text \<open>
  A step of one task: a frame on one of the two ports (for a peer's, whether the reply could be
  written), the batch maker takes a transaction or its timer fires, the quorum waiter takes a message
  and gets the acknowledgements of these names, a processor takes a batch, the helper a request, the
  synchronizer an event; and the consensus writes to the store.
\<close>

datatype MempoolStep =
    MtClient "byte list"
  | MtPeer bool "byte list"
  | MtBatchMaker
  | MtBatchTimer
  | MtQuorumWaiter "PublicKey list"
  | MtProcessor
  | MtPeerProcessor
  | MtHelper
  | MtSync "SocketAddr list \<Rightarrow> SocketAddr list" MsEvent
  | MtStore Key Value

definition run_batch_maker :: "'a mp_env_scheme \<Rightarrow> BatchMakerEvent \<Rightarrow> MempoolTasks \<Rightarrow> MempoolTasks" where
  "run_batch_maker E ev st =
     (let bm = batch_maker_step E ev (mt_batch_maker st)
      in fold route (bm_out bm) (st\<lparr>mt_batch_maker := bm\<lparr>bm_out := []\<rparr>\<rparr>))"

fun mempool_step :: "'a mp_env_scheme \<Rightarrow> MempoolStep \<Rightarrow> MempoolTasks \<Rightarrow> MempoolTasks" where
  "mempool_step E (MtClient message) st = fold route (tx_dispatch E message) st"
| "mempool_step E (MtPeer writable message) st = fold route_peer (snd (mempool_dispatch E writable message)) st"
| "mempool_step E MtBatchMaker st =
     (case mt_transactions st of
        [] \<Rightarrow> st
      | tx # txs \<Rightarrow> run_batch_maker E (BmTransaction tx) (st\<lparr>mt_transactions := txs\<rparr>))"
| "mempool_step E MtBatchTimer st = run_batch_maker E BmTimer st"
| "mempool_step E (MtQuorumWaiter acks) st =
     (case mt_quorum_waiter st of
        [] \<Rightarrow> st
      | (batch, handlers) # rest \<Rightarrow>
          (case quorum_waiter_step (mt_committee st) (mt_stake st) batch handlers acks of
             Ok es \<Rightarrow> fold route es (st\<lparr>mt_quorum_waiter := rest\<rparr>)
           | _ \<Rightarrow> st))"
| "mempool_step E MtProcessor st =
     (case mt_processor st of
        [] \<Rightarrow> st
      | batch # rest \<Rightarrow>
          (case processor_step E batch (mt_db st) of
             (es, db) \<Rightarrow> fold route es (st\<lparr>mt_processor := rest, mt_db := db\<rparr>)))"
| "mempool_step E MtPeerProcessor st =
     (case mt_peer_processor st of
        [] \<Rightarrow> st
      | batch # rest \<Rightarrow>
          (case processor_step E batch (mt_db st) of
             (es, db) \<Rightarrow> fold route es (st\<lparr>mt_peer_processor := rest, mt_db := db\<rparr>)))"
| "mempool_step E MtHelper st =
     (case mt_helper st of
        [] \<Rightarrow> st
      | request # rest \<Rightarrow>
          (case mp_helper_request E (mt_committee st) (mt_db st) request of
             Ok es \<Rightarrow> fold route es (st\<lparr>mt_helper := rest\<rparr>)
           | _ \<Rightarrow> st))"
| "mempool_step E (MtSync pick ev) st =
     (let sync = ms_step E pick ev (mt_sync st)
      in fold route (ms_out sync) (st\<lparr>mt_sync := sync\<lparr>ms_out := []\<rparr>\<rparr>))"
| "mempool_step E (MtStore key v) st = st\<lparr>mt_db := Store_write key v (mt_db st)\<rparr>"

definition mempool_run :: "'a mp_env_scheme \<Rightarrow> MempoolStep list \<Rightarrow> MempoolTasks \<Rightarrow> MempoolTasks" where
  "mempool_run E steps st = fold (mempool_step E) steps st"

section \<open>What flows through the channels\<close>

text \<open>
  A batch the mempool made itself: the serialization of a batch that is not empty and whose
  transactions all decode as client requests. A batch from anywhere deserializes as a batch.
\<close>

definition own_batch :: "'a mp_env_scheme \<Rightarrow> SerializedBatchMessage \<Rightarrow> bool" where
  "own_batch E serialized \<longleftrightarrow>
     (\<exists>batch. serialized = ser_mempool E (MBatch batch) \<and> batch \<noteq> [] \<and> (\<forall>tx \<in> set batch. client_decodes E tx))"

definition any_batch :: "'a mp_env_scheme \<Rightarrow> SerializedBatchMessage \<Rightarrow> bool" where
  "any_batch E serialized \<longleftrightarrow> (\<exists>batch. de_mempool E serialized = Inr (MBatch batch))"

lemma own_batchI: "batch \<noteq> [] \<Longrightarrow> \<forall>tx \<in> set batch. client_decodes E tx \<Longrightarrow> own_batch E (ser_mempool E (MBatch batch))"
  by (auto simp: own_batch_def)

lemma own_batch_any: "mempool_bincode_ok E \<Longrightarrow> own_batch E s \<Longrightarrow> any_batch E s"
  by (auto simp: own_batch_def any_batch_def mempool_bincode_ok_def)

text \<open>A digest handed to the consensus whose batch is in the store, unless its key is in \<open>F\<close>.\<close>

definition digest_stored :: "'a mp_env_scheme \<Rightarrow> Key set \<Rightarrow> puts \<Rightarrow> Digest \<Rightarrow> bool" where
  "digest_stored E F db d \<longleftrightarrow> Digest_to_vec d \<in> F
     \<or> (\<exists>s. Store_read E db (Digest_to_vec d) = Ok (Some s) \<and> sha_digest E s = d \<and> any_batch E s)"

text \<open>The invariant: what is in the channels, and that the digests sent are in the store. \<open>F\<close> are the
  keys the consensus may write.\<close>

definition flow_ok :: "'a mp_env_scheme \<Rightarrow> Key set \<Rightarrow> MempoolTasks \<Rightarrow> bool" where
  "flow_ok E F st \<longleftrightarrow>
     (\<forall>tx \<in> set (mt_transactions st) \<union> set (bm_current_batch (mt_batch_maker st)). client_decodes E tx)
     \<and> bm_out (mt_batch_maker st) = [] \<and> ms_out (mt_sync st) = []
     \<and> (\<forall>s \<in> fst ` set (mt_quorum_waiter st) \<union> set (mt_processor st). own_batch E s)
     \<and> (\<forall>s \<in> set (mt_peer_processor st). any_batch E s)
     \<and> (\<forall>d \<in> set (mt_digests st). digest_stored E F (mt_db st) d)"

text \<open>Effects that \<open>flow_ok\<close> allows on a route.\<close>

definition flow_effect :: "'a mp_env_scheme \<Rightarrow> MpEffect \<Rightarrow> bool" where
  "flow_effect E e \<longleftrightarrow>
     (case e of
        MpToBatchMaker tx \<Rightarrow> client_decodes E tx
      | MpToProcessor s \<Rightarrow> own_batch E s
      | MpToQuorumWaiter s names \<Rightarrow> own_batch E s
      | MpToConsensus d \<Rightarrow> False
      | _ \<Rightarrow> True)"

lemma flow_route: "flow_ok E F st \<Longrightarrow> flow_effect E e \<Longrightarrow> flow_ok E F (route e st)"
  by (cases e) (auto simp: flow_ok_def flow_effect_def)

lemma flow_routes: "flow_ok E F st \<Longrightarrow> \<forall>e \<in> set es. flow_effect E e \<Longrightarrow> flow_ok E F (fold route es st)"
  by (induction es arbitrary: st) (auto simp: flow_route)

lemma flow_quorum_waiter:
  "quorum_waiter_step com stake s handlers acks = Ok es \<Longrightarrow> own_batch E s \<Longrightarrow> \<forall>e \<in> set es. flow_effect E e"
  by (cases "ack_loop (mp_quorum_threshold com) stake (length handlers) (map (mp_stake com) acks) ::
      (string, _) outcome")
    (auto simp: quorum_waiter_step_def flow_effect_def split: if_splits)

lemma mp_helper_sends:
  "mp_helper_digests E db address digests = Ok es \<Longrightarrow> \<forall>e \<in> set es. \<exists>bytes. e = MpSend address bytes"
proof (induction digests arbitrary: es)
  case (Cons d ds)
  then obtain es1 es2 where "mp_helper_digests E db address ds = Ok es2" "es = es1 @ es2"
    "\<forall>e \<in> set es1. \<exists>bytes. e = MpSend address bytes"
    by (auto simp: and_then_Ok_iff split: outcome.splits option.splits)
  with Cons.IH [of es2] show ?case by auto
qed simp

lemma mp_helper_request_sends:
  "mp_helper_request E com db request = Ok es \<Longrightarrow> \<forall>e \<in> set es. \<exists>address bytes. e = MpSend address bytes"
  using mp_helper_sends
  by (cases request) (fastforce simp: mp_helper_request_def simp del: hm_keys_None split: option.splits)

lemma ms_out_step:
  "\<forall>e \<in> set (ms_out (ms_step E pick ev st)) - set (ms_out st). flow_effect E e"
proof (cases "(E, pick, ev, st)" rule: ms_step.cases)
  case (1 E' pick' now digests target st')
  obtain missing st1 where r: "register_missing now digests [] st = (missing, st1)"
    by (cases "register_missing now digests [] st")
  with register_missing_frame [OF r] 1 show ?thesis
    by (auto simp: ms_synchronize_def flow_effect_def split: option.split)
qed (auto simp: ms_cleanup_def ms_timer_def ms_finish_def Let_def flow_effect_def split: option.split)

lemma flow_batch_maker:
  assumes "flow_ok E F st" and "case ev of BmTransaction tx \<Rightarrow> client_decodes E tx | BmTimer \<Rightarrow> True"
  shows "flow_ok E F (run_batch_maker E ev st)"
proof -
  let ?bm = "batch_maker_step E ev (mt_batch_maker st)"
  have current: "\<forall>tx \<in> set (bm_current_batch ?bm). client_decodes E tx"
    using assms by (cases ev) (auto simp: flow_ok_def Let_def seal_def)
  have out: "\<forall>e \<in> set (bm_out ?bm). flow_effect E e"
    using assms by (cases ev) (auto simp: flow_ok_def Let_def seal_def flow_effect_def intro!: own_batchI)
  have "flow_ok E F (st\<lparr>mt_batch_maker := ?bm\<lparr>bm_out := []\<rparr>\<rparr>)"
    using assms(1) current by (auto simp: flow_ok_def)
  from flow_routes [OF this out] show ?thesis by (simp add: run_batch_maker_def Let_def)
qed

lemma flow_dispatch: "\<forall>e \<in> set (tx_dispatch E message). flow_effect E e"
  by (auto simp: tx_dispatch_def flow_effect_def)

lemma flow_peer: "flow_ok E F st \<Longrightarrow> flow_ok E F (fold route_peer (snd (mempool_dispatch E writable message)) st)"
  by (auto simp: mempool_dispatch_def flow_ok_def any_batch_def split: sum.split MempoolMessage.split)

text \<open>A processor stores the batch before it hands its digest on.\<close>

lemma flow_processor:
  assumes ok: "rocks_ok E" and f: "flow_ok E F st" and b: "any_batch E s"
    and p: "processor_step E s (mt_db st) = (es, db)"
  shows "flow_ok E F (fold route es (st\<lparr>mt_db := db\<rparr>))"
proof -
  let ?d = "sha_digest E s"
  have es: "es = [MpToConsensus ?d]" and db: "db = Store_write (Digest_to_vec ?d) s (mt_db st)"
    using p by (simp_all add: processor_step_def Let_def)
  have "digest_stored E F db d" if "d = ?d \<or> digest_stored E F (mt_db st) d" for d
  proof (cases "Digest_to_vec d = Digest_to_vec ?d")
    case True
    then show ?thesis using db.kv_same [OF ok] b db by (auto simp: digest_stored_def)
  next
    case False
    then show ?thesis using that db.kv_other [OF ok False] db by (auto simp: digest_stored_def)
  qed
  then show ?thesis using f es by (auto simp: flow_ok_def)
qed

lemma flow_store: "rocks_ok E \<Longrightarrow> flow_ok E F st \<Longrightarrow> key \<in> F \<Longrightarrow> flow_ok E F (st\<lparr>mt_db := Store_write key v (mt_db st)\<rparr>)"
  using db.kv_other [of E _ key v "mt_db st"] by (fastforce simp: flow_ok_def digest_stored_def)

lemma flow_step:
  assumes env: "rocks_ok E" "mempool_bincode_ok E" and "flow_ok E F st"
    and "\<And>key v. ev = MtStore key v \<Longrightarrow> key \<in> F"
  shows "flow_ok E F (mempool_step E ev st)"
proof (cases ev)
  case (MtClient message)
  then show ?thesis using flow_routes [OF assms(3) flow_dispatch] by simp
next
  case (MtPeer writable message)
  then show ?thesis using flow_peer [OF assms(3)] by simp
next
  case MtBatchMaker
  show ?thesis
  proof (cases "mt_transactions st")
    case (Cons tx txs)
    then have "flow_ok E F (st\<lparr>mt_transactions := txs\<rparr>)" "client_decodes E tx" using assms by (auto simp: flow_ok_def)
    then show ?thesis using MtBatchMaker Cons by (simp add: flow_batch_maker)
  qed (use assms MtBatchMaker in simp)
next
  case MtBatchTimer
  then show ?thesis using assms by (simp add: flow_batch_maker)
next
  case (MtQuorumWaiter acks)
  show ?thesis
  proof (cases "mt_quorum_waiter st")
    case (Cons m rest)
    obtain s handlers where m: "m = (s, handlers)" by (cases m)
    have "flow_ok E F (st\<lparr>mt_quorum_waiter := rest\<rparr>)" "own_batch E s"
      using assms Cons m by (auto simp: flow_ok_def)
    then show ?thesis
      using MtQuorumWaiter Cons m assms flow_routes flow_quorum_waiter
      by (cases "quorum_waiter_step (mt_committee st) (mt_stake st) s handlers acks") fastforce+
  qed (use assms MtQuorumWaiter in simp)
next
  case MtProcessor
  show ?thesis
  proof (cases "mt_processor st")
    case (Cons s rest)
    then have f: "flow_ok E F (st\<lparr>mt_processor := rest\<rparr>)" and b: "any_batch E s"
      using assms own_batch_any [OF env(2)] by (auto simp: flow_ok_def)
    from flow_processor [OF env(1) f b] show ?thesis
      using MtProcessor Cons by (cases "processor_step E s (mt_db st)") simp
  qed (use assms MtProcessor in simp)
next
  case MtPeerProcessor
  show ?thesis
  proof (cases "mt_peer_processor st")
    case (Cons s rest)
    then have f: "flow_ok E F (st\<lparr>mt_peer_processor := rest\<rparr>)" and b: "any_batch E s"
      using assms by (auto simp: flow_ok_def)
    from flow_processor [OF env(1) f b] show ?thesis
      using MtPeerProcessor Cons by (cases "processor_step E s (mt_db st)") simp
  qed (use assms MtPeerProcessor in simp)
next
  case MtHelper
  show ?thesis
  proof (cases "mt_helper st")
    case (Cons request rest)
    have f: "flow_ok E F (st\<lparr>mt_helper := rest\<rparr>)" using assms by (auto simp: flow_ok_def)
    have "flow_ok E F (fold route es (st\<lparr>mt_helper := rest\<rparr>))"
      if "mp_helper_request E (mt_committee st) (mt_db st) request = Ok es" for es
      using flow_routes [OF f] mp_helper_request_sends [OF that] by (fastforce simp: flow_effect_def)
    then show ?thesis
      using MtHelper Cons assms by (cases "mp_helper_request E (mt_committee st) (mt_db st) request") simp_all
  qed (use assms MtHelper in simp)
next
  case (MtSync pick sev)
  let ?sync = "ms_step E pick sev (mt_sync st)"
  have "\<forall>e \<in> set (ms_out ?sync). flow_effect E e"
    using ms_out_step [where E = E and pick = pick and ev = sev and st = "mt_sync st"] assms
    by (simp add: flow_ok_def)
  moreover have "flow_ok E F (st\<lparr>mt_sync := ?sync\<lparr>ms_out := []\<rparr>\<rparr>)" using assms by (auto simp: flow_ok_def)
  ultimately show ?thesis using flow_routes MtSync by (simp add: Let_def)
next
  case (MtStore key v)
  then show ?thesis using assms flow_store by simp
qed

definition foreign_keys :: "MempoolStep list \<Rightarrow> Key set" where
  "foreign_keys steps = {key. \<exists>v. MtStore key v \<in> set steps}"

lemma flow_run:
  assumes "rocks_ok E" "mempool_bincode_ok E" "flow_ok E F st" "foreign_keys steps \<subseteq> F"
  shows "flow_ok E F (mempool_run E steps st)"
  using assms(3,4)
proof (induction steps arbitrary: st)
  case (Cons ev steps)
  have "flow_ok E F (mempool_step E ev st)"
    by (rule flow_step [OF assms(1,2) Cons.prems(1)]) (use Cons.prems(2) in \<open>auto simp: foreign_keys_def\<close>)
  moreover have "foreign_keys steps \<subseteq> F" using Cons.prems(2) by (auto simp: foreign_keys_def)
  ultimately show ?case using Cons.IH by (simp add: mempool_run_def)
qed (simp add: mempool_run_def)

lemma Mempool_spawn_Ok:
  assumes "Mempool_spawn name com par db = Ok st"
  shows "flow_ok E F st \<and> mt_db st = db \<and> mt_digests st = [] \<and> mt_committee st = com
    \<and> mt_stake st = mp_stake com name \<and> ms_inv (mt_sync st) \<and> batch_maker_ok (mt_batch_maker st)"
  using assms
  by (auto simp: Mempool_spawn_def Let_def and_then_Ok_iff handle_clients_transactions_def
      handle_mempool_messages_def handle_consensus_messages_def flow_ok_def MempoolSync_new_def
      BatchMaker_new_def batch_maker_ok_def ms_inv_def simp del: hm_keys_None split: option.splits)

end
