(* ===== verification/Consensus_Tasks.thy ===== *)
theory Consensus_Tasks
  imports Core_Model
begin

text \<open>
  The other tasks of the consensus crate: the loop inside \<open>Synchronizer::new\<close>
  (\<open>consensus/src/synchronizer.rs\<close>), the payload waiter (\<open>consensus/src/mempool.rs\<close>), the helper
  (\<open>consensus/src/helper.rs\<close>) and the timer (\<open>consensus/src/timer.rs\<close>). A task is its state and one
  function per branch of its \<open>select!\<close>; the clock is an argument. A \<open>FuturesUnordered\<close> is a list
  of what its futures wait for, and an event names the future that completes.
\<close>

datatype TaskEffect =
    TSend SocketAddr ConsensusMessage
  | TBroadcast "SocketAddr list" ConsensusMessage
  | TLoopback Block

section \<open>The synchronizer's task\<close>

definition TIMER_ACCURACY :: u64 where
  "TIMER_ACCURACY = 5000"

text \<open>A waiting future \<open>(parent, block)\<close> reads \<open>parent\<close> with \<open>notify_read\<close> and delivers \<open>block\<close>.\<close>

record SyncTask =
  sy_waiting :: "(Digest \<times> Block) list"
  sy_pending :: "Digest set"
  sy_requests :: "(Digest \<times> u128) list"
  sy_out :: "TaskEffect list"

definition SyncTask_new :: SyncTask where
  "SyncTask_new = \<lparr>sy_waiting = [], sy_pending = {}, sy_requests = [], sy_out = []\<rparr>"

definition sync_block ::
  "'a env_scheme \<Rightarrow> PublicKey \<Rightarrow> Committee \<Rightarrow> u128 \<Rightarrow> Block \<Rightarrow> SyncTask \<Rightarrow>
   (ConsensusError, unit) outcome \<times> SyncTask" where
  "sync_block E name com now block st =
     (if Block_digest E block \<in> sy_pending st then (Ok (), st)
      else
        let parent = Block_parent block;
            author = b_author block;
            st = st\<lparr>sy_pending := insert (Block_digest E block) (sy_pending st),
                    sy_waiting := sy_waiting st @ [(parent, block)]\<rparr>
        in if parent \<in> hm_keys (sy_requests st) then (Ok (), st)
           else
             let st = st\<lparr>sy_requests := AList.update parent now (sy_requests st)\<rparr>
             in case committee_address com author of
                  None \<Rightarrow> (Panic ''Author of valid block is not in the committee'', st)
                | Some address \<Rightarrow>
                    (Ok (), st\<lparr>sy_out := sy_out st @ [TSend address (MSyncRequest parent name)]\<rparr>))"

text \<open>The future \<open>w\<close> completes with the result of its \<open>notify_read\<close>.\<close>

fun sync_done ::
  "'a env_scheme \<Rightarrow> (Digest \<times> Block) \<Rightarrow> string + Value \<Rightarrow> SyncTask \<Rightarrow> SyncTask" where
  "sync_done E (parent, block) (Inr bytes) st =
     (let st = st\<lparr>sy_waiting := remove1 (parent, block) (sy_waiting st)\<rparr>;
          st = st\<lparr>sy_pending := sy_pending st - {Block_digest E block},
                  sy_requests := AList.delete (Block_parent block) (sy_requests st)\<rparr>
      in st\<lparr>sy_out := sy_out st @ [TLoopback block]\<rparr>)"
| "sync_done E (parent, block) (Inl e) st = st\<lparr>sy_waiting := remove1 (parent, block) (sy_waiting st)\<rparr>"

text \<open>The timer: every request older than the delay is broadcast again, in the order of the table.\<close>

definition sync_timer ::
  "PublicKey \<Rightarrow> Committee \<Rightarrow> u64 \<Rightarrow> u128 \<Rightarrow> SyncTask \<Rightarrow> SyncTask" where
  "sync_timer name com retry_delay now st =
     st\<lparr>sy_out := sy_out st
       @ map (\<lambda>(digest, _). TBroadcast (map snd (broadcast_addresses com name)) (MSyncRequest digest name))
           (filter (\<lambda>(_, timestamp). timestamp + ucast retry_delay < now) (sy_requests st))\<rparr>"

datatype SyncEvent =
    SyncBlock u128 Block
  | SyncDone "Digest \<times> Block" "string + Value"
  | SyncTimer u128

fun sync_step ::
  "'a env_scheme \<Rightarrow> PublicKey \<Rightarrow> Committee \<Rightarrow> u64 \<Rightarrow> SyncEvent \<Rightarrow> SyncTask \<Rightarrow>
   (ConsensusError, unit) outcome \<times> SyncTask" where
  "sync_step E name com delay (SyncBlock now block) st = sync_block E name com now block st"
| "sync_step E name com delay (SyncDone w r) st =
     (if w \<in> set (sy_waiting st) then (Ok (), sync_done E w r st) else (Ok (), st))"
| "sync_step E name com delay (SyncTimer now) st = (Ok (), sync_timer name com delay now st)"

fun sync_run ::
  "'a env_scheme \<Rightarrow> PublicKey \<Rightarrow> Committee \<Rightarrow> u64 \<Rightarrow> SyncEvent list \<Rightarrow> SyncTask \<Rightarrow>
   (ConsensusError, unit) outcome \<times> SyncTask" where
  "sync_run E name com delay [] st = (Ok (), st)"
| "sync_run E name com delay (ev # evs) st =
     then_ok (sync_step E name com delay ev st) (\<lambda>_ st. sync_run E name com delay evs st)"

text \<open>
  The invariant: no two futures wait for one block, each waits for its block's parent, and every
  waiting block is marked pending.
\<close>

definition sync_inv :: "'a env_scheme \<Rightarrow> SyncTask \<Rightarrow> bool" where
  "sync_inv E st \<longleftrightarrow> distinct (map (Block_digest E \<circ> snd) (sy_waiting st))
     \<and> (\<forall>(p, b) \<in> set (sy_waiting st). p = Block_parent b \<and> Block_digest E b \<in> sy_pending st)"

fun received_blocks :: "SyncEvent list \<Rightarrow> Block list" where
  "received_blocks [] = []"
| "received_blocks (SyncBlock now b # evs) = b # received_blocks evs"
| "received_blocks (ev # evs) = received_blocks evs"

definition looped :: "TaskEffect list \<Rightarrow> Block set" where
  "looped es = {b. TLoopback b \<in> set es}"

lemma looped_simps [simp]:
  "looped [] = {}" "looped (xs @ ys) = looped xs \<union> looped ys"
  "looped (TLoopback b # es) = insert b (looped es)"
  "looped (TSend a m # es) = looped es" "looped (TBroadcast l m # es) = looped es"
  by (auto simp: looped_def)

lemma sync_inv_new [simp]: "sync_inv E SyncTask_new"
  by (simp add: sync_inv_def SyncTask_new_def)

lemma distinct_map_remove1: "distinct (map f xs) \<Longrightarrow> distinct (map f (remove1 x xs))"
  by (simp add: distinct_map distinct_remove1 set_remove1_eq inj_on_diff)

lemma distinct_map_remove1_gone:
  "distinct (map f xs) \<Longrightarrow> x \<in> set xs \<Longrightarrow> y \<in> set (remove1 x xs) \<Longrightarrow> f y \<noteq> f x"
  by (auto simp: distinct_map set_remove1_eq inj_on_def)

lemma sync_inv_frame:
  "sync_inv E (st\<lparr>sy_requests := r\<rparr>) = sync_inv E st" "sync_inv E (st\<lparr>sy_out := es\<rparr>) = sync_inv E st"
  by (simp_all add: sync_inv_def)

lemma sync_block_inv:
  assumes "sync_inv E st" and "sync_block E name com now block st = (r, st')"
  shows "sync_inv E st'"
proof (cases "Block_digest E block \<in> sy_pending st")
  case True
  then show ?thesis using assms by (simp add: sync_block_def)
next
  case False
  let ?st = "st\<lparr>sy_pending := insert (Block_digest E block) (sy_pending st),
    sy_waiting := sy_waiting st @ [(Block_parent block, block)]\<rparr>"
  have "sync_inv E ?st" using assms(1) False by (fastforce simp: sync_inv_def)
  then show ?thesis
    using assms(2) False
    by (auto simp: sync_block_def Let_def sync_inv_def split: if_splits option.splits)
qed

lemma sync_done_inv:
  assumes i: "sync_inv E st" and w: "w \<in> set (sy_waiting st)"
  shows "sync_inv E (sync_done E w r st)"
proof -
  obtain p b where pb: "w = (p, b)" by (cases w)
  have d: "distinct (map (Block_digest E \<circ> snd) (sy_waiting st))" using i by (simp add: sync_inv_def)
  have sub: "set (remove1 w (sy_waiting st)) \<subseteq> set (sy_waiting st)" by (rule set_remove1_subset)
  have other: "Block_digest E (snd y) \<noteq> Block_digest E b" if "y \<in> set (remove1 w (sy_waiting st))" for y
    using distinct_map_remove1_gone [OF d w that] pb by simp
  have "\<forall>(p', b') \<in> set (remove1 w (sy_waiting st)). p' = Block_parent b'
      \<and> Block_digest E b' \<in> sy_pending st - {Block_digest E b}"
    using i sub other by (fastforce simp: sync_inv_def)
  then show ?thesis
    using distinct_map_remove1 [OF d, of w] pb
    by (cases r) (auto simp: sync_inv_def Let_def)
qed

lemma sync_step_inv:
  assumes "sync_inv E st" and "sync_step E name com delay ev st = (r, st')"
  shows "sync_inv E st' \<and> looped (sy_out st') \<subseteq> looped (sy_out st) \<union> snd ` set (sy_waiting st)
    \<and> snd ` set (sy_waiting st') \<subseteq> snd ` set (sy_waiting st) \<union> set (received_blocks [ev])"
proof (cases ev)
  case (SyncBlock now block)
  then show ?thesis
    using assms sync_block_inv [OF assms(1), of name com now block r st']
    by (auto simp: sync_block_def Let_def split: if_splits option.splits)
next
  case (SyncDone w res)
  then show ?thesis
  proof (cases "w \<in> set (sy_waiting st)")
    case True
    have "set (remove1 w (sy_waiting st)) \<subseteq> set (sy_waiting st)" by (rule set_remove1_subset)
    then show ?thesis
      using assms(2) SyncDone True sync_done_inv [OF assms(1) True, of res]
      by (cases w; cases res) (force simp: Let_def)+
  qed (use assms SyncDone in auto)
next
  case (SyncTimer now)
  have "looped (map (\<lambda>(d, _). TBroadcast as (MSyncRequest d n)) xs) = {}" for as n and xs :: "(Digest \<times> u128) list"
    by (auto simp: looped_def)
  then show ?thesis using assms SyncTimer by (auto simp: sync_timer_def sync_inv_def)
qed

lemma received_Cons: "received_blocks (ev # evs) = received_blocks [ev] @ received_blocks evs"
  by (cases ev) auto

lemma sync_run_inv:
  assumes "sync_inv E st" and "sync_run E name com delay evs st = (r, st')"
  shows "sync_inv E st' \<and> looped (sy_out st') \<union> snd ` set (sy_waiting st')
    \<subseteq> looped (sy_out st) \<union> snd ` set (sy_waiting st) \<union> set (received_blocks evs)"
  using assms
proof (induction evs arbitrary: st)
  case (Cons ev evs)
  obtain r1 st1 where s: "sync_step E name com delay ev st = (r1, st1)"
    by (cases "sync_step E name com delay ev st")
  note step = sync_step_inv [OF Cons.prems(1) s]
  show ?case
  proof (cases r1)
    case (Ok u)
    then have "sync_run E name com delay evs st1 = (r, st')" using Cons.prems(2) s by simp
    from Cons.IH [OF _ this] step show ?thesis
      unfolding received_Cons [of ev evs] set_append by blast
  next
    case (Err e)
    then have "st' = st1" using Cons.prems(2) s by simp
    then show ?thesis using step unfolding received_Cons [of ev evs] by auto
  next
    case (Panic m)
    then have "st' = st1" using Cons.prems(2) s by simp
    then show ?thesis using step unfolding received_Cons [of ev evs] by auto
  next
    case Hang
    then have "st' = st1" using Cons.prems(2) s by simp
    then show ?thesis using step unfolding received_Cons [of ev evs] by auto
  qed
qed simp

text \<open>
  Nothing is lost while the store answers: a block the task received is waiting or has been looped
  back, or another block with its digest has.
\<close>

definition sync_full :: "'a env_scheme \<Rightarrow> SyncTask \<Rightarrow> bool" where
  "sync_full E st \<longleftrightarrow> sync_inv E st \<and> (\<forall>d \<in> sy_pending st. \<exists>w \<in> set (sy_waiting st). Block_digest E (snd w) = d)"

definition sync_covers :: "'a env_scheme \<Rightarrow> SyncTask \<Rightarrow> Block \<Rightarrow> bool" where
  "sync_covers E st b \<longleftrightarrow> (\<exists>b'. Block_digest E b' = Block_digest E b
     \<and> (b' \<in> looped (sy_out st) \<or> b' \<in> snd ` set (sy_waiting st)))"

lemma sync_covers_mono:
  "sync_covers E st b \<Longrightarrow> looped (sy_out st) \<subseteq> looped (sy_out st') \<Longrightarrow>
    set (sy_waiting st) \<subseteq> set (sy_waiting st') \<Longrightarrow> sync_covers E st' b"
  unfolding sync_covers_def by blast

lemma sync_done_full:
  assumes f: "sync_full E st" and w: "(p, b) \<in> set (sy_waiting st)"
  shows "sync_full E (sync_done E (p, b) (Inr bytes) st)
    \<and> (\<forall>x. sync_covers E st x \<longrightarrow> sync_covers E (sync_done E (p, b) (Inr bytes) st) x)"
proof -
  let ?st = "sync_done E (p, b) (Inr bytes) st"
  have keep: "y \<in> set (sy_waiting ?st)" if "y \<in> set (sy_waiting st)" "y \<noteq> (p, b)" for y
    using that by (simp add: Let_def in_set_remove1)
  have "sync_inv E ?st" using sync_done_inv [OF _ w, of E "Inr bytes"] f by (simp add: sync_full_def)
  moreover have "\<exists>y \<in> set (sy_waiting ?st). Block_digest E (snd y) = d" if "d \<in> sy_pending ?st" for d
  proof -
    from that have d: "d \<in> sy_pending st" "d \<noteq> Block_digest E b" by (simp_all add: Let_def)
    then obtain y where "y \<in> set (sy_waiting st)" "Block_digest E (snd y) = d"
      using f unfolding sync_full_def by blast
    moreover from this d(2) have "y \<noteq> (p, b)" by auto
    ultimately show ?thesis using keep by blast
  qed
  moreover have "sync_covers E ?st x" if cov: "sync_covers E st x" for x
  proof (cases "Block_digest E x = Block_digest E b")
    case True
    then show ?thesis by (auto simp: sync_covers_def Let_def)
  next
    case False
    then obtain y where y: "Block_digest E y = Block_digest E x" "y \<in> looped (sy_out st) \<or> y \<in> snd ` set (sy_waiting st)"
      using cov unfolding sync_covers_def by blast
    then have "y \<in> looped (sy_out ?st) \<or> y \<in> snd ` set (sy_waiting ?st)"
    proof (elim disjE imageE)
      fix w
      assume "y = snd w" "w \<in> set (sy_waiting st)"
      moreover from this y(1) False have "w \<noteq> (p, b)" by auto
      ultimately show ?thesis using keep [of w] by blast
    qed (simp add: Let_def)
    then show ?thesis using y(1) unfolding sync_covers_def by blast
  qed
  ultimately show ?thesis by (auto simp: sync_full_def)
qed

lemma sync_step_full:
  assumes f: "sync_full E st" and s: "sync_step E name com delay ev st = (Ok (), st')"
    and ok: "\<And>w e. ev \<noteq> SyncDone w (Inl e)"
  shows "sync_full E st' \<and> (\<forall>x. sync_covers E st x \<or> x \<in> set (received_blocks [ev]) \<longrightarrow> sync_covers E st' x)"
proof (cases ev)
  case (SyncBlock now block)
  have i: "sync_inv E st'" using sync_step_inv [OF _ s] f by (simp add: sync_full_def)
  show ?thesis
  proof (cases "Block_digest E block \<in> sy_pending st")
    case True
    then have "st' = st" using s SyncBlock by (simp add: sync_block_def)
    moreover have "sync_covers E st block"
      using True f unfolding sync_full_def sync_covers_def by blast
    ultimately show ?thesis using f SyncBlock by auto
  next
    case False
    then have st: "sy_waiting st' = sy_waiting st @ [(Block_parent block, block)]"
      "sy_pending st' = insert (Block_digest E block) (sy_pending st)" "looped (sy_out st') = looped (sy_out st)"
      using s SyncBlock by (auto simp: sync_block_def Let_def split: if_splits option.splits)
    have "sync_covers E st' block" using st(1) by (auto simp: sync_covers_def)
    moreover have "sync_covers E st' x" if "sync_covers E st x" for x
      by (rule sync_covers_mono [OF that]) (use st in auto)
    moreover have "sync_full E st'" using f i st by (auto simp: sync_full_def)
    ultimately show ?thesis using SyncBlock by auto
  qed
next
  case (SyncDone w r)
  then obtain bytes where r: "r = Inr bytes" using ok by (cases r) auto
  show ?thesis
  proof (cases "w \<in> set (sy_waiting st)")
    case True
    then show ?thesis
      using sync_done_full [OF f, of "fst w" "snd w" bytes] s SyncDone r by simp
  qed (use f s SyncDone in simp)
next
  case (SyncTimer now)
  with s have "sy_waiting st' = sy_waiting st" "sy_pending st' = sy_pending st"
    "looped (sy_out st) \<subseteq> looped (sy_out st')" by (auto simp: sync_timer_def)
  then show ?thesis
    using f SyncTimer sync_covers_mono [of E st _ st'] by (auto simp: sync_full_def sync_inv_def)
qed

lemma sync_run_full:
  assumes "sync_full E st" and "sync_run E name com delay evs st = (Ok (), st')"
    and "\<And>w e. SyncDone w (Inl e) \<notin> set evs"
  shows "sync_full E st' \<and> (\<forall>x. sync_covers E st x \<or> x \<in> set (received_blocks evs) \<longrightarrow> sync_covers E st' x)"
  using assms
proof (induction evs arbitrary: st)
  case (Cons ev evs)
  then obtain st1 where s: "sync_step E name com delay ev st = (Ok (), st1)"
    and run: "sync_run E name com delay evs st1 = (Ok (), st')" by (auto simp: then_ok_Ok_iff)
  have "ev \<noteq> SyncDone w (Inl e)" for w e using Cons.prems(3) [of w e] by auto
  note step = sync_step_full [OF Cons.prems(1) s this]
  have "SyncDone w (Inl e) \<notin> set evs" for w e using Cons.prems(3) [of w e] by simp
  from Cons.IH [OF _ run this] step show ?case
    unfolding received_Cons [of ev evs] set_append by blast
qed simp

section \<open>The payload waiter\<close>

text \<open>
  A future \<open>(id, missing, block)\<close> joins the \<open>notify_read\<close>s of \<open>missing\<close> and delivers \<open>block\<close>, or ends
  when its cancel channel gets a message or is closed; \<open>pw_pending\<close> keeps, per block digest, the round
  and the future whose channel it holds. Dropping an entry closes the channel: the messages that
  \<open>Cleanup\<close> sends before it drops the entries change nothing else.
\<close>

record PayloadWaiter =
  pw_waiting :: "(nat \<times> Digest list \<times> Block) list"
  pw_pending :: "(Digest \<times> Round \<times> nat) list"
  pw_next :: nat
  pw_loopback :: "Block list"

definition PayloadWaiter_new :: PayloadWaiter where
  "PayloadWaiter_new = \<lparr>pw_waiting = [], pw_pending = [], pw_next = 0, pw_loopback = []\<rparr>"

text \<open>A future ends with the joined reads, with the cancellation, or with a store error.\<close>

datatype PayloadWaiterEvent =
    PwMessage PayloadWaiterMessage
  | PwJoined nat
  | PwCancelled nat
  | PwError nat

definition pw_block :: "PayloadWaiter \<Rightarrow> nat \<Rightarrow> Block option" where
  "pw_block st i = map_option snd (map_of (pw_waiting st) i)"

definition pw_remove :: "nat \<Rightarrow> PayloadWaiter \<Rightarrow> PayloadWaiter" where
  "pw_remove i st = st\<lparr>pw_waiting := filter (\<lambda>(j, _). j \<noteq> i) (pw_waiting st)\<rparr>"

fun pw_step :: "'a env_scheme \<Rightarrow> PayloadWaiterEvent \<Rightarrow> PayloadWaiter \<Rightarrow> PayloadWaiter" where
  "pw_step E (PwMessage (PWait missing block)) st =
     (if Block_digest E block \<in> hm_keys (pw_pending st) then st
      else st\<lparr>pw_pending := AList.update (Block_digest E block) (b_round block, pw_next st) (pw_pending st),
              pw_waiting := pw_waiting st @ [(pw_next st, missing, block)],
              pw_next := Suc (pw_next st)\<rparr>)"
| "pw_step E (PwMessage (PWCleanup round)) st =
     st\<lparr>pw_pending := filter (\<lambda>(_, r, _). r > round) (pw_pending st)\<rparr>"
| "pw_step E (PwJoined i) st =
     (case pw_block st i of
        None \<Rightarrow> st
      | Some block \<Rightarrow>
          let st = pw_remove i st;
              st = st\<lparr>pw_pending := AList.delete (Block_digest E block) (pw_pending st)\<rparr>
          in st\<lparr>pw_loopback := pw_loopback st @ [block]\<rparr>)"
| "pw_step E (PwCancelled i) st =
     (if \<exists>(d, r, j) \<in> set (pw_pending st). j = i then st else pw_remove i st)"
| "pw_step E (PwError i) st = pw_remove i st"

definition pw_run :: "'a env_scheme \<Rightarrow> PayloadWaiterEvent list \<Rightarrow> PayloadWaiter \<Rightarrow> PayloadWaiter" where
  "pw_run E evs st = fold (pw_step E) evs st"

fun pw_asked :: "PayloadWaiterEvent list \<Rightarrow> Block list" where
  "pw_asked [] = []"
| "pw_asked (PwMessage (PWait missing b) # evs) = b # pw_asked evs"
| "pw_asked (ev # evs) = pw_asked evs"

text \<open>
  The invariant: a pending entry holds the channel of a future that waits for its block, at the
  block's round, and the futures have distinct numbers. (An entry whose future met a store error
  has no future any more.)
\<close>

definition pw_inv :: "'a env_scheme \<Rightarrow> PayloadWaiter \<Rightarrow> bool" where
  "pw_inv E st \<longleftrightarrow> distinct_keys (pw_waiting st) \<and> (\<forall>i \<in> hm_keys (pw_waiting st). i < pw_next st)
     \<and> distinct_keys (pw_pending st)
     \<and> (\<forall>(d, r, i) \<in> set (pw_pending st). i < pw_next st
          \<and> (\<forall>b. pw_block st i = Some b \<longrightarrow> d = Block_digest E b \<and> r = b_round b))"

lemma pw_step_blocks:
  "set (pw_loopback (pw_step E ev st)) \<union> snd ` snd ` set (pw_waiting (pw_step E ev st))
   \<subseteq> set (pw_loopback st) \<union> snd ` snd ` set (pw_waiting st) \<union> set (pw_asked [ev])"
proof (cases "(E, ev, st)" rule: pw_step.cases)
  case (3 E i st)
  have "b \<in> snd ` snd ` set (pw_waiting st)" if "pw_block st i = Some b" for b
    using that map_of_SomeD by (force simp: pw_block_def)
  then show ?thesis using 3 by (auto simp: pw_remove_def Let_def split: option.split)
qed (auto simp: pw_remove_def)

lemma pw_asked_Cons: "pw_asked (ev # evs) = pw_asked [ev] @ pw_asked evs"
proof (cases ev)
  case (PwMessage m)
  then show ?thesis by (cases m) simp_all
qed simp_all

lemma pw_block_simps:
  "pw_block (st\<lparr>pw_pending := m\<rparr>) i = pw_block st i" "pw_block (st\<lparr>pw_loopback := bs\<rparr>) i = pw_block st i"
  "pw_block (pw_remove j st) i = (if i = j then None else pw_block st i)"
proof -
  have "map_of (filter (\<lambda>(k, _). k \<noteq> j) m) i = (if i = j then None else map_of m i)" for m :: "(nat \<times> Digest list \<times> Block) list"
    by (induction m) auto
  then show "pw_block (pw_remove j st) i = (if i = j then None else pw_block st i)"
    by (simp add: pw_block_def pw_remove_def)
qed (simp_all add: pw_block_def)

lemma pw_inv_sub:
  assumes "pw_inv E st" and "set (pw_pending st') \<subseteq> set (pw_pending st)" and "distinct_keys (pw_pending st')"
    and "distinct_keys (pw_waiting st')" and "hm_keys (pw_waiting st') \<subseteq> hm_keys (pw_waiting st)"
    and "pw_next st' = pw_next st" and "\<And>i b. pw_block st' i = Some b \<Longrightarrow> pw_block st i = Some b"
  shows "pw_inv E st'"
  using assms unfolding pw_inv_def by fastforce

lemma pw_remove_sel [simp]:
  "pw_pending (pw_remove i st) = pw_pending st" "pw_next (pw_remove i st) = pw_next st"
  "pw_loopback (pw_remove i st) = pw_loopback st"
  by (simp_all add: pw_remove_def)

lemma pw_remove_keys:
  "hm_keys (pw_waiting (pw_remove i st)) \<subseteq> hm_keys (pw_waiting st)"
  "distinct_keys (pw_waiting st) \<Longrightarrow> distinct_keys (pw_waiting (pw_remove i st))"
  by (auto simp: pw_remove_def hm_keys_def)

lemma pw_inv_remove: "pw_inv E st \<Longrightarrow> pw_inv E (pw_remove i st)"
  by (rule pw_inv_sub [of E st])
    (use pw_remove_keys [where st = st] in \<open>auto simp: pw_inv_def pw_block_simps split: if_splits\<close>)

lemma pw_step_inv: "pw_inv E st \<Longrightarrow> pw_inv E (pw_step E ev st)"
proof (cases "(E, ev, st)" rule: pw_step.cases)
  case (1 E' missing block st')
  assume i: "pw_inv E st"
  have fresh: "map_of (pw_waiting st) (pw_next st) = None"
  proof (cases "map_of (pw_waiting st) (pw_next st)")
    case (Some v)
    from hm_keys_Some [OF this] show ?thesis using i by (auto simp: pw_inv_def)
  qed
  show ?thesis
  proof (cases "Block_digest E block \<in> hm_keys (pw_pending st)")
    case False
    let ?st = "pw_step E ev st"
    have b: "pw_block ?st j = (if j = pw_next st then Some block else pw_block st j)" for j
      using 1 False fresh by (simp add: pw_block_def map_add_def del: hm_keys_None split: option.split)
    have "distinct_keys (pw_waiting ?st)" "\<forall>j \<in> hm_keys (pw_waiting ?st). j < pw_next ?st"
      using 1 False i by (auto simp: pw_inv_def distinct_keys_def hm_keys_def less_Suc_eq)
    moreover have "distinct_keys (pw_pending ?st)" using 1 False i by (simp add: pw_inv_def)
    moreover have "j < pw_next ?st \<and> (\<forall>x. pw_block ?st j = Some x \<longrightarrow> d = Block_digest E x \<and> r = b_round x)"
      if "(d, r, j) \<in> set (pw_pending ?st)" for d r j
    proof -
      have dist: "distinct_keys (pw_pending st)" using i by (simp add: pw_inv_def)
      have "(d, r, j) \<in> set (AList.update (Block_digest E block) (b_round block, pw_next st) (pw_pending st))"
        using that 1 False by simp
      from set_AList_update [OF dist this]
      have "(d, r, j) = (Block_digest E block, b_round block, pw_next st) \<or> (d, r, j) \<in> set (pw_pending st)"
        by simp
      then show ?thesis
      proof (elim disjE)
        assume "(d, r, j) \<in> set (pw_pending st)"
        then have "j < pw_next st" "\<forall>x. pw_block st j = Some x \<longrightarrow> d = Block_digest E x \<and> r = b_round x"
          using i by (auto simp: pw_inv_def)
        then show ?thesis using b [of j] 1 False by simp
      qed (use b [of j] 1 False in simp)
    qed
    ultimately show ?thesis unfolding pw_inv_def by blast
  qed (use 1 i in simp)
next
  case (3 E' i st')
  assume inv: "pw_inv E st"
  show ?thesis
  proof (cases "pw_block st i")
    case (Some b)
    have r: "pw_inv E (pw_remove i st)" by (rule pw_inv_remove [OF inv])
    then have "distinct_keys (pw_pending (pw_remove i st))" "distinct_keys (pw_waiting (pw_remove i st))"
      by (simp_all add: pw_inv_def)
    then show ?thesis
      using 3 Some set_AList_delete [of "Block_digest E b" "pw_pending st"] pw_inv_sub [OF r, of "pw_step E ev st"]
      by (simp add: Let_def pw_block_simps)
  qed (use 3 inv in simp)
next
  case (2 E' round st')
  assume i: "pw_inv E st"
  then have "distinct_keys (pw_pending st)" "distinct_keys (pw_waiting st)" by (simp_all add: pw_inv_def)
  then show ?thesis using 2 pw_inv_sub [OF i, of "pw_step E ev st"] by (auto simp: pw_block_simps)
qed (simp_all add: pw_inv_remove)

end
