(* ===== verification/Proposer_Model.thy ===== *)
theory Proposer_Model
  imports Consensus_Tasks Ack_Quorum
begin

text \<open>
  The proposer (\<open>consensus/src/proposer.rs\<close>) and the helper (\<open>consensus/src/helper.rs\<close>). The hash set
  \<open>buffer\<close> is a list without duplicates: \<open>drain\<close> hands its elements out in an order the program does
  not fix.
\<close>

record Proposer =
  pr_name :: PublicKey
  pr_committee :: Committee
  pr_secret :: SecretKey
  pr_buffer :: "Digest list"
  pr_out :: "TaskEffect list"

definition Proposer_new :: "PublicKey \<Rightarrow> Committee \<Rightarrow> SecretKey \<Rightarrow> Proposer" where
  "Proposer_new name com sk =
     \<lparr>pr_name = name, pr_committee = com, pr_secret = sk, pr_buffer = [], pr_out = []\<rparr>"

text \<open>
  \<open>acks\<close> are the names whose handlers complete after the broadcast, in that order (a handler also
  completes when its connection drops it).
\<close>

definition make_block ::
  "'a env_scheme \<Rightarrow> Round \<Rightarrow> QC \<Rightarrow> TC option \<Rightarrow> PublicKey list \<Rightarrow> Proposer \<Rightarrow>
   (ConsensusError, unit) outcome \<times> Proposer" where
  "make_block E round qc tc acks p =
     (if round > 5 \<and> pr_buffer p = [] \<and> tc = None then (Ok (), p)
      else
        let payload = pr_buffer p;
            p = p\<lparr>pr_buffer := []\<rparr>
        in then_ok (Block_new E qc tc (pr_name p) round payload (pr_secret p), p) (\<lambda>block p.
             let others = broadcast_addresses (pr_committee p) (pr_name p);
                 p = p\<lparr>pr_out := pr_out p @ [TBroadcast (map snd others) (MPropose block), TLoopback block]\<rparr>
             in then_ok (ack_loop (quorum_threshold (pr_committee p))
                           (committee_stake (pr_committee p) (pr_name p)) (length others)
                           (map (committee_stake (pr_committee p)) acks), p) (\<lambda>_ p. (Ok (), p))))"

datatype ProposerEvent = PrDigest Digest | PrMessage ProposerMessage "PublicKey list"

fun proposer_step ::
  "'a env_scheme \<Rightarrow> ProposerEvent \<Rightarrow> Proposer \<Rightarrow> (ConsensusError, unit) outcome \<times> Proposer" where
  "proposer_step E (PrDigest digest) p = (Ok (), p\<lparr>pr_buffer := List.insert digest (pr_buffer p)\<rparr>)"
| "proposer_step E (PrMessage (PMake round qc tc) acks) p = make_block E round qc tc acks p"
| "proposer_step E (PrMessage (PCleanup digests) acks) p =
     (Ok (), p\<lparr>pr_buffer := fold removeAll digests (pr_buffer p)\<rparr>)"

definition proposed :: "TaskEffect list \<Rightarrow> Block list" where
  "proposed es = concat (map (\<lambda>e. case e of TLoopback b \<Rightarrow> [b] | _ \<Rightarrow> []) es)"

lemma proposed_simps [simp]:
  "proposed [] = []" "proposed (xs @ ys) = proposed xs @ proposed ys"
  "proposed (TLoopback b # es) = b # proposed es"
  "proposed (TBroadcast as m # es) = proposed es" "proposed (TSend a m # es) = proposed es"
  by (simp_all add: proposed_def)

text \<open>What a call of \<open>make_block\<close> proposes, when it proposes.\<close>

lemma make_block_proposes:
  assumes "make_block E round qc tc acks p = (r, p')" and "completes r"
  shows "(proposed (pr_out p') = proposed (pr_out p) \<and> p' = p
      \<and> round > 5 \<and> pr_buffer p = [] \<and> tc = None)
    \<or> (\<exists>b. proposed (pr_out p') = proposed (pr_out p) @ [b] \<and> b_payload b = pr_buffer p
        \<and> b_round b = round \<and> b_qc b = qc \<and> b_tc b = tc \<and> b_author b = pr_name p
        \<and> pr_buffer p' = [] \<and> Block_new E qc tc (pr_name p) round (pr_buffer p) (pr_secret p) = Ok b)
    \<or> (\<exists>e. r = Err e)"
proof (cases "round > 5 \<and> pr_buffer p = [] \<and> tc = None")
  case True
  then show ?thesis using assms by (simp add: make_block_def)
next
  case False
  show ?thesis
  proof (cases "Block_new E qc tc (pr_name p) round (pr_buffer p) (pr_secret p)")
    case (Ok b)
    then show ?thesis
      using assms False Block_new_Ok [OF Ok]
      by (cases "ack_loop (quorum_threshold (pr_committee p)) (committee_stake (pr_committee p) (pr_name p))
            (length (broadcast_addresses (pr_committee p) (pr_name p)))
            (map (committee_stake (pr_committee p)) acks) :: (ConsensusError, _) outcome")
        (auto simp: make_block_def Let_def)
  qed (use assms False in \<open>auto simp: make_block_def Let_def\<close>)
qed

section \<open>The helper\<close>

text \<open>
  \<open>hp_requests\<close> is the channel of the sync requests, \<open>hp_out\<close> what the task has sent. One request: the
  answer sent, if any.
\<close>

record Helper =
  hp_committee :: Committee
  hp_requests :: "(Digest \<times> PublicKey) list"
  hp_out :: "TaskEffect list"

definition Helper_new :: "Committee \<Rightarrow> Helper" where
  "Helper_new com = \<lparr>hp_committee = com, hp_requests = [], hp_out = []\<rparr>"

definition helper_request ::
  "'a env_scheme \<Rightarrow> Committee \<Rightarrow> puts \<Rightarrow> Digest \<times> PublicKey \<Rightarrow> ('e, TaskEffect list) outcome" where
  "helper_request E com db request =
     (case request of (digest, origin) \<Rightarrow>
        case committee_address com origin of
          None \<Rightarrow> Ok []
        | Some address \<Rightarrow>
            (case Store_read E db (Digest_to_vec digest) of
               Ok None \<Rightarrow> Ok []
             | Ok (Some bytes) \<Rightarrow>
                 (case de_block E bytes of
                    Inl e \<Rightarrow> Panic ''Failed to deserialize our own block''
                  | Inr block \<Rightarrow> Ok [TSend address (MPropose block)])
             | Err e \<Rightarrow> Panic ''Failed to read from storage''
             | Panic m \<Rightarrow> Panic m
             | Hang \<Rightarrow> Hang))"

text \<open>One turn of the task: the request in front of its channel, if there is one.\<close>

definition helper_step :: "'a env_scheme \<Rightarrow> puts \<Rightarrow> Helper \<Rightarrow> ('e, unit) outcome \<times> Helper" where
  "helper_step E db h =
     (case hp_requests h of
        [] \<Rightarrow> (Ok (), h)
      | request # requests \<Rightarrow>
          then_ok (helper_request E (hp_committee h) db request, h\<lparr>hp_requests := requests\<rparr>) (\<lambda>es h.
            (Ok (), h\<lparr>hp_out := hp_out h @ es\<rparr>)))"

text \<open>A request stops the task when a member asks for a key whose value is not a block.\<close>

definition no_block :: "'a env_scheme \<Rightarrow> Committee \<Rightarrow> puts \<Rightarrow> Digest \<times> PublicKey \<Rightarrow> bool" where
  "no_block E com db request \<longleftrightarrow> snd request \<in> committee_members com
     \<and> (\<exists>v e. Store_read E db (Digest_to_vec (fst request)) = Ok (Some v) \<and> de_block E v = Inl e)"

lemma helper_request_result:
  fixes r :: "('e, TaskEffect list) outcome"
  assumes "rocks_ok E" and "helper_request E com db request = r"
  shows "if no_block E com db request then r = Panic ''Failed to deserialize our own block'' else \<exists>es. r = Ok es"
proof -
  obtain d origin where req: "request = (d, origin)" by (cases request)
  have "committee_address com origin = None \<longleftrightarrow> origin \<notin> committee_members com"
    by (simp add: committee_address_def committee_members_def)
  then show ?thesis
    using assms(2) db.kv_total [OF assms(1), of db "Digest_to_vec d"] req
    by (auto simp: helper_request_def no_block_def split: option.splits sum.splits)
qed

section \<open>The timer\<close>

text \<open>\<open>Timer\<close> (\<open>consensus/src/timer.rs\<close>), with instants in milliseconds.\<close>

record Timer =
  tm_duration :: u64
  tm_deadline :: nat

definition Timer_new :: "u64 \<Rightarrow> nat \<Rightarrow> Timer" where
  "Timer_new duration now = \<lparr>tm_duration = duration, tm_deadline = now + unat duration\<rparr>"

definition Timer_reset :: "nat \<Rightarrow> Timer \<Rightarrow> Timer" where
  "Timer_reset now t = t\<lparr>tm_deadline := now + unat (tm_duration t)\<rparr>"

definition Timer_poll :: "nat \<Rightarrow> Timer \<Rightarrow> bool" where
  "Timer_poll now t \<longleftrightarrow> tm_deadline t \<le> now"

end
