(* ===== verification/Node_Boot.thy ===== *)
theory Node_Boot
  imports Crypto_Service Node_Model Mempool_Tasks Proposer_Model
begin

text \<open>
  How a node starts: the configuration files (\<open>node/src/config.rs\<close>), the spawn functions of the
  consensus (\<open>consensus/src/consensus.rs\<close>) and of Obsido (\<open>obsido/src/lib.rs\<close>), \<open>Node::new\<close>
  (\<open>node/src/node.rs\<close>) and the commands of the program (\<open>node/src/main.rs\<close>). \<open>serde_json\<close>, the
  outcome of file operations, the opening of RocksDB and the random generator are fields of \<open>boot_env\<close>.
\<close>

section \<open>Configuration files\<close>

datatype ConfigError = ReadError string string | WriteError string string

record NodeParameters =
  np_consensus :: Parameters
  np_mempool :: MpParameters

definition NodeParameters_default :: NodeParameters where
  "NodeParameters_default = \<lparr>np_consensus = Parameters_default, np_mempool = MpParameters_default\<rparr>"

record Secret =
  sc_name :: PublicKey
  sc_secret :: SecretKey

record NodeCommittee =
  nc_consensus :: Committee
  nc_mempool :: MpCommittee

type_synonym Files = "(string \<times> byte list) list"

text \<open>
  \<open>json_*\<close> are \<open>serde_json::from_slice\<close> at the three types (a panic of a key's deserialization goes
  through it), \<open>pretty_secret\<close> is \<open>to_string_pretty\<close>; \<open>read_error\<close> and \<open>write_error\<close> say which paths
  the system refuses to open; \<open>os_keypair\<close> is \<open>Keypair::generate\<close> on the system's random source,
  \<open>seed_keypair\<close> on a \<open>StdRng\<close> made of 32 zeros.
\<close>

record boot_env = node_env +
  json_committee :: "byte list \<Rightarrow> (string, NodeCommittee) outcome"
  json_parameters :: "byte list \<Rightarrow> (string, NodeParameters) outcome"
  json_secret :: "byte list \<Rightarrow> (string, Secret) outcome"
  pretty_secret :: "Secret \<Rightarrow> byte list"
  read_error :: "string \<Rightarrow> string option"
  write_error :: "string \<Rightarrow> string option"
  store_opens :: "string \<Rightarrow> bool"
  os_keypair :: "nat \<Rightarrow> (byte list \<times> byte list) \<times> nat"
  seed_keypair :: "byte list \<Rightarrow> (byte list \<times> byte list) \<times> byte list"

definition fs_read :: "'a boot_env_scheme \<Rightarrow> Files \<Rightarrow> string \<Rightarrow> (string, byte list) outcome" where
  "fs_read E files path =
     (case read_error E path of
        Some e \<Rightarrow> Err e
      | None \<Rightarrow> (case map_of files path of
                  None \<Rightarrow> Err ''No such file or directory''
                | Some data \<Rightarrow> Ok data))"

definition Export_read ::
  "'a boot_env_scheme \<Rightarrow> (byte list \<Rightarrow> (string, 'b) outcome) \<Rightarrow> Files \<Rightarrow> string \<Rightarrow> (ConfigError, 'b) outcome" where
  "Export_read E from_slice files path =
     map_err (ReadError path) (and_then (fs_read E files path) from_slice)"

text \<open>
  \<open>write\<close> opens the file without truncating it: the new bytes replace the first ones of what it held.
\<close>

definition Export_write ::
  "'a boot_env_scheme \<Rightarrow> ('b \<Rightarrow> byte list) \<Rightarrow> 'b \<Rightarrow> Files \<Rightarrow> string \<Rightarrow> (ConfigError, unit) outcome \<times> Files" where
  "Export_write E to_string_pretty x files path =
     (case write_error E path of
        Some e \<Rightarrow> (Err (WriteError path e), files)
      | None \<Rightarrow>
          let data = to_string_pretty x @ [10];
              old = hm_entry files path []
          in (Ok (), AList.update path (data @ drop (length data) old) files))"

definition Secret_new :: "'a boot_env_scheme \<Rightarrow> nat \<Rightarrow> Secret \<times> nat" where
  "Secret_new E rng =
     (case generate_keypair (os_keypair E) rng of ((name, secret), rng) \<Rightarrow>
        (\<lparr>sc_name = name, sc_secret = secret\<rparr>, rng))"

definition Secret_default :: "'a boot_env_scheme \<Rightarrow> Secret" where
  "Secret_default E =
     (case generate_keypair (seed_keypair E) (replicate 32 0) of ((name, secret), rng) \<Rightarrow>
        \<lparr>sc_name = name, sc_secret = secret\<rparr>)"

definition print_key_file ::
  "'a boot_env_scheme \<Rightarrow> nat \<Rightarrow> Files \<Rightarrow> string \<Rightarrow> (ConfigError, unit) outcome \<times> Files" where
  "print_key_file E rng files filename = Export_write E (pretty_secret E) (fst (Secret_new E rng)) files filename"

section \<open>Spawning\<close>

record ConsensusTasks =
  ct_address :: SocketAddr
  ct_core :: Core
  ct_timer_delay :: u64
  ct_sync :: SyncTask
  ct_sync_delay :: u64
  ct_payload_waiter :: PayloadWaiter
  ct_proposer :: Proposer
  ct_helper :: Helper

definition Consensus_spawn ::
  "PublicKey \<Rightarrow> Committee \<Rightarrow> Parameters \<Rightarrow> SecretKey \<Rightarrow> puts \<Rightarrow> ('e, ConsensusTasks) outcome" where
  "Consensus_spawn name com par secret db =
     (case committee_address com name of
        None \<Rightarrow> Panic own_committee_message
      | Some address \<Rightarrow>
          Ok \<lparr>ct_address = set_ip_localhost address, ct_core = Core_new name com secret db,
              ct_timer_delay = timeout_delay par, ct_sync = SyncTask_new,
              ct_sync_delay = sync_retry_delay par, ct_payload_waiter = PayloadWaiter_new,
              ct_proposer = Proposer_new name com secret, ct_helper = Helper_new com\<rparr>)"

definition Obsido_spawn :: "u16 \<Rightarrow> SocketAddr" where
  "Obsido_spawn obsido_port = SocketAddr (V4 0x7F000001) obsido_port"

record BootedNode =
  bn_name :: PublicKey
  bn_service :: SignatureService
  bn_mempool :: MempoolTasks
  bn_obsido_address :: SocketAddr
  bn_consensus :: ConsensusTasks
  bn_node :: Node

definition Node_boot ::
  "'a boot_env_scheme \<Rightarrow> Files \<Rightarrow> string \<Rightarrow> string \<Rightarrow> string \<Rightarrow> string option \<Rightarrow> nat \<Rightarrow> u16 \<Rightarrow>
   (ConfigError, BootedNode) outcome" where
  "Node_boot E files committee_file key_file store_path parameters quorum obsido_port =
     and_then (Export_read E (json_committee E) files committee_file) (\<lambda>committee.
     and_then (Export_read E (json_secret E) files key_file) (\<lambda>secret.
     and_then (case parameters of
                 Some filename \<Rightarrow> Export_read E (json_parameters E) files filename
               | None \<Rightarrow> Ok NodeParameters_default) (\<lambda>parameters.
       if \<not> store_opens E store_path then Panic ''Failed to create store''
       else
         let name = sc_name secret;
             db = []
         in and_then (Mempool_spawn name (nc_mempool committee) (np_mempool parameters) db) (\<lambda>mempool.
            let obsido = Obsido_spawn obsido_port
            in and_then (Consensus_spawn name (nc_consensus committee) (np_consensus parameters)
                           (sc_secret secret) db) (\<lambda>consensus.
               Ok \<lparr>bn_name = name, bn_service = SignatureService_new (sc_secret secret), bn_mempool = mempool,
                   bn_obsido_address = obsido, bn_consensus = consensus, bn_node = Node_new quorum\<rparr>)))))"

section \<open>Commands\<close>

definition log_level :: "nat \<Rightarrow> string" where
  "log_level v = (if v = 0 then ''error'' else if v = 1 then ''warn'' else if v = 2 then ''info''
     else if v = 3 then ''debug'' else ''trace'')"

text \<open>\<open>str::parse\<close> at an unsigned type of \<open>n\<close> bits: a sign \<open>+\<close> may precede the digits.\<close>

definition parse_unsigned :: "nat \<Rightarrow> string \<Rightarrow> nat option" where
  "parse_unsigned n s =
     (let digits = (case s of c # cs \<Rightarrow> if c = CHR ''+'' then cs else s | [] \<Rightarrow> [])
      in if digits = [] then None
         else case decimal 0 digits of
                None \<Rightarrow> None
              | Some v \<Rightarrow> if v < 2 ^ n then Some v else None)"

record RunArgs =
  ra_keys :: "string option"
  ra_committee :: "string option"
  ra_parameters :: "string option"
  ra_store :: "string option"
  ra_obsido :: "string option"
  ra_quorum :: "string option"

text \<open>The parser accepts a third command, \<open>deploy\<close>; its code is commented out.\<close>

datatype Command = CmdKeys "string option" | CmdRun RunArgs | CmdDeploy

definition value_of :: "string option \<Rightarrow> ('e, string) outcome" where
  "value_of arg = (case arg of None \<Rightarrow> Panic unwrap_none_message | Some s \<Rightarrow> Ok s)"

definition parse_arg :: "nat \<Rightarrow> string \<Rightarrow> ('e, nat) outcome" where
  "parse_arg n s = (case parse_unsigned n s of None \<Rightarrow> Panic unwrap_message | Some v \<Rightarrow> Ok v)"

datatype MainResult = KeysWritten Files | Running BootedNode | LoggedError ConfigError

fun logging_error :: "('a \<Rightarrow> MainResult) \<Rightarrow> (ConfigError, 'a) outcome \<Rightarrow> (string, MainResult) outcome" where
  "logging_error f (Ok a) = Ok (f a)"
| "logging_error f (Err e) = Ok (LoggedError e)"
| "logging_error f (Panic m) = Panic m"
| "logging_error f Hang = Hang"

definition run_command :: "'a boot_env_scheme \<Rightarrow> Files \<Rightarrow> RunArgs \<Rightarrow> (string, MainResult) outcome" where
  "run_command E files args =
     and_then (value_of (ra_keys args)) (\<lambda>key_file.
     and_then (value_of (ra_committee args)) (\<lambda>committee_file.
     and_then (value_of (ra_store args)) (\<lambda>store_path.
     and_then (and_then (value_of (ra_obsido args)) (parse_arg 16)) (\<lambda>obsido_port.
     and_then (and_then (value_of (ra_quorum args)) (parse_arg 64)) (\<lambda>quorum_size.
       logging_error Running (Node_boot E files committee_file key_file store_path (ra_parameters args)
         quorum_size (of_nat obsido_port)))))))"

fun main_command :: "'a boot_env_scheme \<Rightarrow> nat \<Rightarrow> Files \<Rightarrow> Command \<Rightarrow> (string, MainResult) outcome" where
  "main_command E rng files (CmdKeys filename) =
     and_then (value_of filename) (\<lambda>filename.
       case print_key_file E rng files filename of (r, files) \<Rightarrow> logging_error (\<lambda>_. KeysWritten files) r)"
| "main_command E rng files (CmdRun args) = run_command E files args"
| "main_command E rng files CmdDeploy = Panic ''internal error: entered unreachable code''"

section \<open>Reading back what was written\<close>

lemma map_err_Ok_iff [simp]: "map_err f m = Ok a \<longleftrightarrow> m = Ok a"
  by (cases m) simp_all

lemma Export_read_written:
  assumes "write_error E path = None" "read_error E path = None"
    and "Export_write E pretty x files path = (Ok (), files')"
  shows "Export_read E from_slice files' path =
    map_err (ReadError path) (from_slice (pretty x @ 10 # drop (Suc (length (pretty x))) (hm_entry files path [])))"
  using assms by (auto simp: Export_write_def Export_read_def fs_read_def Let_def update_conv')

text \<open>The members of a committee are the names with an address.\<close>

lemma address_member: "committee_address com name = None \<longleftrightarrow> name \<notin> committee_members com"
  by (simp add: committee_address_def committee_members_def)

lemma mp_address_member:
  "mp_mempool_address com name = None \<longleftrightarrow> name \<notin> mp_members com"
  "mp_transactions_address com name = None \<longleftrightarrow> name \<notin> mp_members com"
  by (simp_all add: mp_mempool_address_def mp_transactions_address_def mp_members_def)

lemma Mempool_spawn_member:
  "name \<in> mp_members com \<Longrightarrow> \<exists>st. Mempool_spawn name com par db = Ok st"
  "name \<notin> mp_members com \<Longrightarrow> Mempool_spawn name com par db = Panic own_committee_message"
  using mp_address_member [of com name]
  by (auto simp: Mempool_spawn_def Let_def handle_clients_transactions_def handle_mempool_messages_def
      simp del: hm_keys_None split: option.split)

lemma Consensus_spawn_member:
  "name \<notin> committee_members com \<Longrightarrow> Consensus_spawn name com par sk db = Panic own_committee_message"
  "name \<in> committee_members com \<Longrightarrow> \<exists>st. Consensus_spawn name com par sk db = Ok st
     \<and> ct_core st = Core_new name com sk db \<and> ct_proposer st = Proposer_new name com sk"
  using address_member [of com name] by (auto simp: Consensus_spawn_def split: option.split)

end
