(* ===== verification/Consensus_System.thy ===== *)
theory Consensus_System
  imports Core_Progress Node_Boot
begin

text \<open>
  The consensus of a node as \<open>Consensus::spawn\<close> puts it together (\<open>consensus/src/consensus.rs\<close>): the
  core, the synchronizer's task, the payload waiter, the proposer and the helper, with the channels
  between them and the store they share. One step is one turn of one task. What the core sends to a task is read
  off the core's effects, in order: a channel is the part of them the task has not read, and only
  \<open>tx_loopback\<close>, which has three senders, is a queue of its own. The helper keeps its channel
  (\<open>hp_requests\<close>); \<open>cs_helper\<close> is \<open>None\<close> once its task has panicked, which drops the receiver and closes
  the channel. Channels are unbounded.
\<close>

section \<open>The tasks and their channels\<close>

record Consensus =
  cs_core :: Core
  cs_sync :: SyncTask
  cs_sync_delay :: u64
  cs_waiter :: PayloadWaiter
  cs_proposer :: Proposer
  cs_helper :: "Helper option"
  cs_loopback :: "Block list"
  cs_sync_read :: nat
  cs_waiter_read :: nat
  cs_proposer_read :: nat

definition consensus_boot :: "ConsensusTasks \<Rightarrow> (ConsensusError, unit) outcome \<times> Consensus" where
  "consensus_boot tasks =
     (case core_boot (ct_core tasks) of (r, c) \<Rightarrow>
        (r, \<lparr>cs_core = c, cs_sync = ct_sync tasks, cs_sync_delay = ct_sync_delay tasks,
            cs_waiter = ct_payload_waiter tasks, cs_proposer = ct_proposer tasks,
            cs_helper = Some (ct_helper tasks), cs_loopback = [],
            cs_sync_read = 0, cs_waiter_read = 0, cs_proposer_read = 0\<rparr>))"

definition sync_inbox :: "Core \<Rightarrow> Block list" where
  "sync_inbox c = [b. ToSynchronizer b \<leftarrow> c_out c]"

definition waiter_inbox :: "Core \<Rightarrow> PayloadWaiterMessage list" where
  "waiter_inbox c = [m. ToPayloadWaiter m \<leftarrow> c_out c]"

definition proposer_inbox :: "Core \<Rightarrow> ProposerMessage list" where
  "proposer_inbox c = [m. ToProposer m \<leftarrow> c_out c]"

definition channel_head :: "'m list \<Rightarrow> nat \<Rightarrow> 'm option" where
  "channel_head ms n = (if n < length ms then Some (ms ! n) else None)"

section \<open>Futures\<close>

text \<open>
  What \<open>notify_read\<close> gives when it is polled: a value once the key is in the store, an error of the
  store, or nothing yet. \<open>try_join_all\<close> ends with the first error, or when all reads have ended.
\<close>

definition notify_poll :: "'a env_scheme \<Rightarrow> puts \<Rightarrow> Digest \<Rightarrow> (string + Value) option" where
  "notify_poll E db d =
     (case Store_read E db (Digest_to_vec d) of
        Ok (Some v) \<Rightarrow> Some (Inr v)
      | Err e \<Rightarrow> Some (Inl e)
      | _ \<Rightarrow> None)"

definition join_poll :: "'a env_scheme \<Rightarrow> puts \<Rightarrow> Digest list \<Rightarrow> (string + unit) option" where
  "join_poll E db missing =
     (case [e. Some (Inl e) \<leftarrow> map (notify_poll E db) missing] of
        e # es \<Rightarrow> Some (Inl e)
      | [] \<Rightarrow> if list_all (\<lambda>d. notify_poll E db d \<noteq> None) missing then Some (Inr ()) else None)"

section \<open>Turns\<close>

definition core_turn ::
  "'a env_scheme \<Rightarrow> CoreEvent \<Rightarrow> Consensus \<Rightarrow> (ConsensusError, unit) outcome \<times> Consensus" where
  "core_turn E ev s = (case core_handle E ev (cs_core s) of (r, c) \<Rightarrow> (r, s\<lparr>cs_core := c\<rparr>))"

definition sync_turn ::
  "'a env_scheme \<Rightarrow> SyncEvent \<Rightarrow> Consensus \<Rightarrow> (ConsensusError, unit) outcome \<times> Consensus" where
  "sync_turn E ev s =
     (case sync_step E (c_name (cs_core s)) (c_committee (cs_core s)) (cs_sync_delay s) ev (cs_sync s) of
        (r, st) \<Rightarrow>
          (r, s\<lparr>cs_sync := st,
                cs_loopback := cs_loopback s @ proposed (drop (length (sy_out (cs_sync s))) (sy_out st))\<rparr>))"

definition waiter_turn ::
  "'a env_scheme \<Rightarrow> PayloadWaiterEvent \<Rightarrow> Consensus \<Rightarrow> (ConsensusError, unit) outcome \<times> Consensus" where
  "waiter_turn E ev s =
     (let st = pw_step E ev (cs_waiter s)
      in (Ok (), s\<lparr>cs_waiter := st,
                   cs_loopback := cs_loopback s
                     @ drop (length (pw_loopback (cs_waiter s))) (pw_loopback st)\<rparr>))"

definition proposer_turn ::
  "'a env_scheme \<Rightarrow> ProposerEvent \<Rightarrow> Consensus \<Rightarrow> (ConsensusError, unit) outcome \<times> Consensus" where
  "proposer_turn E ev s =
     (case proposer_step E ev (cs_proposer s) of
        (r, p) \<Rightarrow>
          (r, s\<lparr>cs_proposer := p,
                cs_loopback := cs_loopback s @ proposed (drop (length (pr_out (cs_proposer s))) (pr_out p))\<rparr>))"

text \<open>
  The connection's handler sends a sync request to the helper; \<open>expect\<close> panics when the helper has
  stopped, in the task of that connection.
\<close>

definition helper_receives ::
  "Digest \<times> PublicKey \<Rightarrow> Consensus \<Rightarrow> (ConsensusError, unit) outcome \<times> Consensus" where
  "helper_receives request s =
     (case cs_helper s of
        None \<Rightarrow> (Panic ''Failed to send consensus message'', s)
      | Some h \<Rightarrow> (Ok (), s\<lparr>cs_helper := Some (h\<lparr>hp_requests := hp_requests h @ [request]\<rparr>)\<rparr>))"

definition helper_turn :: "'a env_scheme \<Rightarrow> Consensus \<Rightarrow> (ConsensusError, unit) outcome \<times> Consensus" where
  "helper_turn E s =
     (case cs_helper s of
        None \<Rightarrow> (Ok (), s)
      | Some h \<Rightarrow>
          (case helper_step E (c_db (cs_core s)) h of
             (r, h) \<Rightarrow> (r, s\<lparr>cs_helper := if completes r then Some h else None\<rparr>)))"

text \<open>
  \<open>Received\<close>: what the connection's handler makes of a message (deserialized or not). \<open>StoreWritten\<close> is a write by another task. A task with
  nothing to read and a future that is not ready take no turn.
\<close>

datatype ConsensusEvent =
    Received "string + ConsensusMessage"
  | TimerFired
  | StoreWritten Key Value
  | LoopbackTaken
  | SyncTakes u128
  | SyncPolls "Digest \<times> Block"
  | SyncTimerFired u128
  | WaiterTakes
  | WaiterPolls nat
  | WaiterCancelled nat
  | ProposerTakes "PublicKey list"
  | ProposerDigest Digest
  | HelperTakes

definition to_core :: "DispatchEffect list \<Rightarrow> ConsensusMessage list" where
  "to_core es = [m. ToCore m \<leftarrow> es]"

definition to_helper :: "DispatchEffect list \<Rightarrow> (Digest \<times> PublicKey) list" where
  "to_helper es = [(d, pk). ToHelper d pk \<leftarrow> es]"

fun consensus_step ::
  "'a env_scheme \<Rightarrow> ConsensusEvent \<Rightarrow> Consensus \<Rightarrow> (ConsensusError, unit) outcome \<times> Consensus" where
  "consensus_step E (Received m) s =
     (case consensus_dispatch m of
        Ok es \<Rightarrow>
          (case to_core es of
             m # ms \<Rightarrow> core_turn E (EvMessage m) s
           | [] \<Rightarrow>
               (case to_helper es of
                  request # requests \<Rightarrow> helper_receives request s
                | [] \<Rightarrow> (Ok (), s)))
      | Err e \<Rightarrow> (Err e, s)
      | Panic m \<Rightarrow> (Panic m, s)
      | Hang \<Rightarrow> (Hang, s))"
| "consensus_step E TimerFired s = core_turn E EvTimer s"
| "consensus_step E (StoreWritten k v) s = core_turn E (EvStoreWrite k v) s"
| "consensus_step E LoopbackTaken s =
     (case cs_loopback s of
        [] \<Rightarrow> (Ok (), s)
      | b # bs \<Rightarrow> core_turn E (EvLoopback b) (s\<lparr>cs_loopback := bs\<rparr>))"
| "consensus_step E (SyncTakes now) s =
     (case channel_head (sync_inbox (cs_core s)) (cs_sync_read s) of
        None \<Rightarrow> (Ok (), s)
      | Some b \<Rightarrow> sync_turn E (SyncBlock now b) (s\<lparr>cs_sync_read := cs_sync_read s + 1\<rparr>))"
| "consensus_step E (SyncPolls w) s =
     (if w \<notin> set (sy_waiting (cs_sync s)) then (Ok (), s)
      else case notify_poll E (c_db (cs_core s)) (fst w) of
          None \<Rightarrow> (Ok (), s)
        | Some r \<Rightarrow> sync_turn E (SyncDone w r) s)"
| "consensus_step E (SyncTimerFired now) s = sync_turn E (SyncTimer now) s"
| "consensus_step E WaiterTakes s =
     (case channel_head (waiter_inbox (cs_core s)) (cs_waiter_read s) of
        None \<Rightarrow> (Ok (), s)
      | Some m \<Rightarrow> waiter_turn E (PwMessage m) (s\<lparr>cs_waiter_read := cs_waiter_read s + 1\<rparr>))"
| "consensus_step E (WaiterPolls i) s =
     (case map_of (pw_waiting (cs_waiter s)) i of
        None \<Rightarrow> (Ok (), s)
      | Some (missing, block) \<Rightarrow>
          (case join_poll E (c_db (cs_core s)) missing of
             None \<Rightarrow> (Ok (), s)
           | Some (Inr u) \<Rightarrow> waiter_turn E (PwJoined i) s
           | Some (Inl e) \<Rightarrow> waiter_turn E (PwError i) s))"
| "consensus_step E (WaiterCancelled i) s = waiter_turn E (PwCancelled i) s"
| "consensus_step E (ProposerTakes acks) s =
     (case channel_head (proposer_inbox (cs_core s)) (cs_proposer_read s) of
        None \<Rightarrow> (Ok (), s)
      | Some m \<Rightarrow> proposer_turn E (PrMessage m acks) (s\<lparr>cs_proposer_read := cs_proposer_read s + 1\<rparr>))"
| "consensus_step E (ProposerDigest d) s = proposer_turn E (PrDigest d) s"
| "consensus_step E HelperTakes s = helper_turn E s"


text \<open>The request in front of the helper's channel is one that stops it.\<close>

definition helper_stops :: "'a env_scheme \<Rightarrow> Consensus \<Rightarrow> bool" where
  "helper_stops E s \<longleftrightarrow> (\<exists>h request requests. cs_helper s = Some h \<and> hp_requests h = request # requests
     \<and> no_block E (hp_committee h) (c_db (cs_core s)) request)"

lemma helper_turn_result:
  assumes "rocks_ok E" and "helper_turn E s = (r, s')"
  shows "if helper_stops E s then r = Panic ''Failed to deserialize our own block'' \<and> cs_helper s' = None
    else completes r \<and> (cs_helper s \<noteq> None \<longrightarrow> cs_helper s' \<noteq> None)"
proof (cases "cs_helper s")
  case (Some h)
  show ?thesis
  proof (cases "hp_requests h")
    case (Cons request requests)
    obtain d pk where "request = (d, pk)" by (cases request)
    with Cons show ?thesis
      using assms(2) Some helper_request_result [OF assms(1) refl, of "hp_committee h" "c_db (cs_core s)" request,
          where 'e = ConsensusError]
      by (auto simp: helper_turn_def helper_step_def helper_stops_def split: if_splits)
  qed (use assms(2) Some in \<open>auto simp: helper_turn_def helper_step_def helper_stops_def\<close>)
qed (use assms(2) in \<open>auto simp: helper_turn_def helper_stops_def\<close>)

text \<open>The helper and its channel touch nothing else.\<close>

lemma helper_frame:
  "helper_receives request s = (r, s') \<Longrightarrow> s' = s\<lparr>cs_helper := cs_helper s'\<rparr>"
  "helper_turn E s = (r, s') \<Longrightarrow> s' = s\<lparr>cs_helper := cs_helper s'\<rparr>"
  by (auto simp: helper_receives_def helper_turn_def split: option.splits prod.splits)

text \<open>The event the core handles in a turn, if it is the core's turn.\<close>

fun core_input :: "ConsensusEvent \<Rightarrow> Consensus \<Rightarrow> CoreEvent option" where
  "core_input (Received m) s =
     (case consensus_dispatch m of
        Ok es \<Rightarrow> (case to_core es of [] \<Rightarrow> None | m # ms \<Rightarrow> Some (EvMessage m))
      | _ \<Rightarrow> None)"
| "core_input TimerFired s = Some EvTimer"
| "core_input (StoreWritten k v) s = Some (EvStoreWrite k v)"
| "core_input LoopbackTaken s = (case cs_loopback s of [] \<Rightarrow> None | b # bs \<Rightarrow> Some (EvLoopback b))"
| "core_input ev s = None"

lemmas turn_defs = core_turn_def sync_turn_def waiter_turn_def proposer_turn_def helper_receives_def
  helper_turn_def Let_def

lemma consensus_step_core:
  assumes "consensus_step E ev s = (r, s')"
  shows "case core_input ev s of None \<Rightarrow> cs_core s' = cs_core s
    | Some cev \<Rightarrow> core_handle E cev (cs_core s) = (r, cs_core s')"
  using assms
  by (cases "(E, ev, s)" rule: consensus_step.cases)
    (auto simp: turn_defs split: outcome.splits list.splits option.splits sum.splits prod.splits if_splits)

section \<open>What is handed back\<close>

text \<open>
  \<open>handed_out c b\<close>: the core in state \<open>c\<close> has handed \<open>b\<close> to the synchronizer or to the payload waiter.
\<close>

definition handed_out :: "Core \<Rightarrow> Block \<Rightarrow> bool" where
  "handed_out c b \<longleftrightarrow> (\<exists>e \<in> set (c_out c). requested e = Some b)"

lemma handed_out_grows: "core_grows c c' \<Longrightarrow> handed_out c b \<Longrightarrow> handed_out c' b"
  by (auto simp: handed_out_def core_grows_def)

lemma own_grows: "core_grows c c' \<Longrightarrow> own_proposal c b \<Longrightarrow> own_proposal c' b"
  by (auto simp: own_proposal_def core_grows_def)

lemma inbox_effect:
  "channel_head (sync_inbox c) n = Some b \<Longrightarrow> ToSynchronizer b \<in> set (c_out c)"
  "channel_head (waiter_inbox c) n = Some m \<Longrightarrow> ToPayloadWaiter m \<in> set (c_out c)"
  "channel_head (proposer_inbox c) n = Some pm \<Longrightarrow> ToProposer pm \<in> set (c_out c)"
proof -
  have nth: "x \<in> set xs" if "channel_head xs n = Some x" for x and xs :: "'z list"
    using that by (auto simp: channel_head_def split: if_splits)
  show "channel_head (sync_inbox c) n = Some b \<Longrightarrow> ToSynchronizer b \<in> set (c_out c)"
    using nth [of "sync_inbox c" b] by (auto simp: sync_inbox_def split: Effect.splits)
  show "channel_head (waiter_inbox c) n = Some m \<Longrightarrow> ToPayloadWaiter m \<in> set (c_out c)"
    using nth [of "waiter_inbox c" m] by (auto simp: waiter_inbox_def split: Effect.splits)
  show "channel_head (proposer_inbox c) n = Some pm \<Longrightarrow> ToProposer pm \<in> set (c_out c)"
    using nth [of "proposer_inbox c" pm] by (auto simp: proposer_inbox_def split: Effect.splits)
qed

lemma inbox_member:
  "channel_head (sync_inbox c) n = Some b \<Longrightarrow> handed_out c b"
  "channel_head (waiter_inbox c) n = Some (PWait missing b) \<Longrightarrow> handed_out c b"
  using inbox_effect(1) [of c n b] inbox_effect(2) [of c n "PWait missing b"]
  by (force simp: handed_out_def)+

text \<open>All blocks that the tasks hold or have handed back.\<close>

definition held :: "Consensus \<Rightarrow> Block set" where
  "held s = looped (sy_out (cs_sync s)) \<union> snd ` set (sy_waiting (cs_sync s))
     \<union> set (pw_loopback (cs_waiter s)) \<union> snd ` snd ` set (pw_waiting (cs_waiter s))"

lemma set_proposed: "set (proposed es) = looped es"
  by (induction es) (auto simp: proposed_def looped_def split: TaskEffect.splits)

lemma looped_drop: "looped (drop n es) \<subseteq> looped es"
  using set_drop_subset [of n es] by (auto simp: looped_def)

definition proposer_ok :: "Core \<Rightarrow> Proposer \<Rightarrow> bool" where
  "proposer_ok c p \<longleftrightarrow> pr_name p = c_name c \<and> pr_committee p = c_committee c \<and> pr_secret p = c_secret c
     \<and> (\<forall>b \<in> looped (pr_out p). own_proposal c b)"

definition links_ok :: "'a env_scheme \<Rightarrow> Consensus \<Rightarrow> bool" where
  "links_ok E s \<longleftrightarrow> sync_inv E (cs_sync s) \<and> (\<forall>b \<in> held s. handed_out (cs_core s) b)
     \<and> proposer_ok (cs_core s) (cs_proposer s)
     \<and> (\<forall>b \<in> set (cs_loopback s). handed_out (cs_core s) b \<or> own_proposal (cs_core s) b)"

lemma links_admissible:
  "links_ok E s \<Longrightarrow> b \<in> set (cs_loopback s) \<Longrightarrow> admissible (cs_core s) (EvLoopback b)"
  by (auto simp: links_ok_def handed_out_def)

lemma links_core:
  "links_ok E s \<Longrightarrow> core_grows (cs_core s) c \<Longrightarrow> links_ok E (s\<lparr>cs_core := c\<rparr>)"
  using handed_out_grows own_grows
  by (auto simp: links_ok_def proposer_ok_def held_def) (auto simp: core_grows_def)

lemma proposer_step_links:
  assumes "proposer_step E ev p = (r, p')"
    and "\<And>m acks. ev = PrMessage m acks \<Longrightarrow> ToProposer m \<in> set (c_out c)" and "proposer_ok c p"
  shows "proposer_ok c p' \<and> looped (pr_out p) \<subseteq> looped (pr_out p')"
proof (cases "(E, ev, p)" rule: proposer_step.cases)
  case (2 E' round qc tc acks p1)
  then have mk: "make_block E round qc tc acks p = (r, p')" using assms(1) by simp
  show ?thesis
  proof (cases "\<exists>b. Block_new E qc tc (pr_name p) round (pr_buffer p) (pr_secret p) = Ok b")
    case True
    then obtain b where b: "Block_new E qc tc (pr_name p) round (pr_buffer p) (pr_secret p) = Ok b" by blast
    have "p' = p \<or> looped (pr_out p') = insert b (looped (pr_out p)) \<and> pr_name p' = pr_name p
        \<and> pr_committee p' = pr_committee p \<and> pr_secret p' = pr_secret p"
      using mk b
      by (cases "ack_loop (quorum_threshold (pr_committee p)) (committee_stake (pr_committee p) (pr_name p))
            (length (broadcast_addresses (pr_committee p) (pr_name p)))
            (map (committee_stake (pr_committee p)) acks) :: (ConsensusError, _) outcome")
        (auto simp: make_block_def Let_def split: if_splits)
    moreover have "own_proposal c b"
      using Block_new_Ok [OF b] assms(2,3) 2 by (auto simp: own_proposal_def proposer_ok_def)
    ultimately show ?thesis using assms(3) by (auto simp: proposer_ok_def)
  next
    case False
    then show ?thesis
      using mk assms(3)
      by (cases "Block_new E qc tc (pr_name p) round (pr_buffer p) (pr_secret p)")
        (auto simp: make_block_def Let_def proposer_ok_def split: if_splits)
  qed
qed (use assms in \<open>auto simp: proposer_ok_def\<close>)


text \<open>Each turn keeps the links.\<close>

lemma core_turn_links:
  "links_ok E s \<Longrightarrow> core_turn E ev s = (r, s') \<Longrightarrow> links_ok E s'"
  by (auto simp: core_turn_def split: prod.splits intro: links_core handle_grows)

lemma loopback_links:
  "links_ok E s \<Longrightarrow> set bs \<subseteq> set (cs_loopback s) \<Longrightarrow> links_ok E (s\<lparr>cs_loopback := bs\<rparr>)"
  by (auto simp: links_ok_def held_def)

lemma helper_links [simp]: "links_ok E (s\<lparr>cs_helper := h\<rparr>) = links_ok E s"
  by (simp add: links_ok_def held_def)

lemma helper_turn_links:
  "links_ok E s \<Longrightarrow> helper_receives request s = (r, s') \<Longrightarrow> links_ok E s'"
  "links_ok E s \<Longrightarrow> helper_turn E s = (r, s') \<Longrightarrow> links_ok E s'"
  by (metis helper_frame(1) helper_links) (metis helper_frame(2) helper_links)

lemma read_links [simp]:
  "links_ok E (s\<lparr>cs_sync_read := n\<rparr>) = links_ok E s" "links_ok E (s\<lparr>cs_waiter_read := n\<rparr>) = links_ok E s"
  "links_ok E (s\<lparr>cs_proposer_read := n\<rparr>) = links_ok E s"
  by (simp_all add: links_ok_def held_def)

lemma sync_turn_links:
  assumes l: "links_ok E s" and t: "sync_turn E ev s = (r, s')"
    and a: "\<And>b. b \<in> set (received_blocks [ev]) \<Longrightarrow> handed_out (cs_core s) b"
  shows "links_ok E s'"
proof -
  obtain st where st: "sync_step E (c_name (cs_core s)) (c_committee (cs_core s)) (cs_sync_delay s) ev (cs_sync s) = (r, st)"
    and s': "s' = s\<lparr>cs_sync := st,
      cs_loopback := cs_loopback s @ proposed (drop (length (sy_out (cs_sync s))) (sy_out st))\<rparr>"
    using t by (auto simp: sync_turn_def split: prod.splits)
  have i: "sync_inv E (cs_sync s)" using l by (simp add: links_ok_def)
  note step = sync_step_inv [OF i st]
  have new: "set (proposed (drop (length (sy_out (cs_sync s))) (sy_out st))) \<subseteq> held s'"
    using looped_drop [of "length (sy_out (cs_sync s))" "sy_out st"] by (auto simp: set_proposed s' held_def)
  have "held s' \<subseteq> held s \<union> set (received_blocks [ev])" using step by (auto simp: s' held_def)
  then have "\<forall>b \<in> held s'. handed_out (cs_core s') b" using l a by (auto simp: links_ok_def s')
  then show ?thesis using l step new by (auto simp: links_ok_def s')
qed

lemma waiter_turn_links:
  assumes l: "links_ok E s" and t: "waiter_turn E ev s = (r, s')"
    and a: "\<And>b. b \<in> set (pw_asked [ev]) \<Longrightarrow> handed_out (cs_core s) b"
  shows "links_ok E s'"
proof -
  let ?st = "pw_step E ev (cs_waiter s)"
  have s': "s' = s\<lparr>cs_waiter := ?st,
      cs_loopback := cs_loopback s @ drop (length (pw_loopback (cs_waiter s))) (pw_loopback ?st)\<rparr>"
    using t by (simp add: waiter_turn_def Let_def)
  have new: "set (drop (length (pw_loopback (cs_waiter s))) (pw_loopback ?st)) \<subseteq> held s'"
    using set_drop_subset [of "length (pw_loopback (cs_waiter s))" "pw_loopback ?st"] by (auto simp: s' held_def)
  have "held s' \<subseteq> held s \<union> set (pw_asked [ev])"
    using pw_step_blocks [of E ev "cs_waiter s"] by (auto simp: s' held_def)
  then have "\<forall>b \<in> held s'. handed_out (cs_core s') b" using l a by (auto simp: links_ok_def s')
  then show ?thesis using l new by (auto simp: links_ok_def s')
qed

lemma proposer_turn_links:
  assumes l: "links_ok E s" and t: "proposer_turn E ev s = (r, s')"
    and a: "\<And>m acks. ev = PrMessage m acks \<Longrightarrow> ToProposer m \<in> set (c_out (cs_core s))"
  shows "links_ok E s'"
proof -
  obtain p where p: "proposer_step E ev (cs_proposer s) = (r, p)"
    and s': "s' = s\<lparr>cs_proposer := p,
      cs_loopback := cs_loopback s @ proposed (drop (length (pr_out (cs_proposer s))) (pr_out p))\<rparr>"
    using t by (auto simp: proposer_turn_def split: prod.splits)
  have "proposer_ok (cs_core s) (cs_proposer s)" using l by (simp add: links_ok_def)
  with p a have ok: "proposer_ok (cs_core s) p"
    using proposer_step_links [of E ev "cs_proposer s" r p "cs_core s"] by blast
  have "set (proposed (drop (length (pr_out (cs_proposer s))) (pr_out p))) \<subseteq> looped (pr_out p)"
    unfolding set_proposed by (rule looped_drop)
  then show ?thesis using l ok by (auto simp: links_ok_def s' held_def proposer_ok_def)
qed

lemma quiet_turns:
  assumes "links_ok E s"
  shows "sync_turn E (SyncDone w x) s = (r, s') \<Longrightarrow> links_ok E s'"
    and "sync_turn E (SyncTimer now) s = (r, s') \<Longrightarrow> links_ok E s'"
    and "waiter_turn E (PwJoined i) s = (r, s') \<Longrightarrow> links_ok E s'"
    and "waiter_turn E (PwCancelled i) s = (r, s') \<Longrightarrow> links_ok E s'"
    and "waiter_turn E (PwError i) s = (r, s') \<Longrightarrow> links_ok E s'"
    and "proposer_turn E (PrDigest d) s = (r, s') \<Longrightarrow> links_ok E s'"
  by (erule sync_turn_links [OF assms] waiter_turn_links [OF assms] proposer_turn_links [OF assms], simp)+

lemma consensus_step_links:
  assumes l: "links_ok E s" and s: "consensus_step E ev s = (r, s')"
  shows "links_ok E s'"
  using s
proof (cases "(E, ev, s)" rule: consensus_step.cases)
  case (4 E' s1)
  then show ?thesis
    using s l core_turn_links [OF loopback_links [OF l]] by (auto split: list.splits)
next
  case (5 E' now s1)
  show ?thesis
  proof (cases "channel_head (sync_inbox (cs_core s)) (cs_sync_read s)")
    case (Some b)
    then show ?thesis
      using 5 s l sync_turn_links [of E "s\<lparr>cs_sync_read := cs_sync_read s + 1\<rparr>" "SyncBlock now b"]
      by (auto dest: inbox_member(1))
  qed (use 5 s l in auto)
next
  case (8 E' s1)
  show ?thesis
  proof (cases "channel_head (waiter_inbox (cs_core s)) (cs_waiter_read s)")
    case (Some m)
    then show ?thesis
      using 8 s l waiter_turn_links [of E "s\<lparr>cs_waiter_read := cs_waiter_read s + 1\<rparr>" "PwMessage m"]
      by (cases m) (auto dest: inbox_member(2))
  qed (use 8 s l in auto)
next
  case (11 E' acks s1)
  then show ?thesis
    using s l proposer_turn_links [of E "s\<lparr>cs_proposer_read := cs_proposer_read s + 1\<rparr>"]
    by (auto split: option.splits dest: inbox_effect(3))
qed (use l core_turn_links [OF l] quiet_turns [OF l] helper_turn_links [OF l] in \<open>auto split: outcome.splits list.splits option.splits sum.splits if_splits\<close>)

end
