(* ===== verification/Consensus_Runs.thy ===== *)
theory Consensus_Runs
  imports Consensus_System
begin

text \<open>
  Runs of the composed consensus (\<open>Consensus_System\<close>) in an environment that is fair: no task stops,
  what comes back to the core is what it handed out or proposed, and no suspended block is lost.
\<close>

section \<open>Fair inputs\<close>

text \<open>
  What is assumed of the environment: blocks come out of \<open>S\<close> (\<open>collision_free\<close> in \<open>Core_Progress\<close>),
  timeout certificates that arrive verify, other tasks write no blocks, and the blocks the proposer
  makes are in \<open>S\<close>. Nothing is assumed of what the tasks hand to each other.
\<close>

fun fair_input :: "'a env_scheme \<Rightarrow> Block set \<Rightarrow> ConsensusEvent \<Rightarrow> Consensus \<Rightarrow> bool" where
  "fair_input E S (Received (Inr (MPropose b))) s \<longleftrightarrow> b \<in> S"
| "fair_input E S (Received (Inr (MTC tc))) s \<longleftrightarrow> TC_verify E tc (c_committee (cs_core s)) = Ok ()"
| "fair_input E S (StoreWritten k v) s \<longleftrightarrow> foreign E S k v"
| "fair_input E S (ProposerTakes acks) s \<longleftrightarrow>
     looped (pr_out (cs_proposer (snd (consensus_step E (ProposerTakes acks) s)))) \<subseteq> S"
| "fair_input E S ev s \<longleftrightarrow> True"

text \<open>A run in which every event is one that \<open>A\<close> admits in the state it meets.\<close>

inductive consensus_run ::
  "'a env_scheme \<Rightarrow> (ConsensusEvent \<Rightarrow> Consensus \<Rightarrow> bool) \<Rightarrow> ConsensusTasks \<Rightarrow> Consensus \<Rightarrow> bool"
  for E A tasks where
  boot: "consensus_boot tasks = (r, s) \<Longrightarrow> consensus_run E A tasks s"
| step: "consensus_run E A tasks s \<Longrightarrow> A ev s \<Longrightarrow> consensus_step E ev s = (r, s') \<Longrightarrow>
    consensus_run E A tasks s'"

lemma consensus_run_mono:
  "consensus_run E A tasks s \<Longrightarrow> (\<And>ev s. A ev s \<Longrightarrow> B ev s) \<Longrightarrow> consensus_run E B tasks s"
  by (induction rule: consensus_run.induct) (auto intro: consensus_run.intros)

text \<open>The blocks the core hands out are blocks it was given.\<close>

definition requests_in :: "Block set \<Rightarrow> Core \<Rightarrow> bool" where
  "requests_in S c \<longleftrightarrow> (\<forall>b. handed_out c b \<longrightarrow> b \<in> S)"

lemma handed_out_app:
  "c_out c' = c_out c @ es \<Longrightarrow> \<forall>e \<in> set es. requested e = None \<Longrightarrow> handed_out c' = handed_out c"
  by (auto simp: handed_out_def fun_eq_iff)

lemma plain_requested: "plain_effect e \<Longrightarrow> requested e = None"
  by (cases e rule: plain_effect.cases) auto

lemma handed_out_mutations [simp]:
  "handed_out (advance_round r c) = handed_out c" "handed_out (process_qc qc c) = handed_out c"
  "handed_out (increase_last_voted_round r c) = handed_out c" "handed_out (store_block E b c) = handed_out c"
  "handed_out (sign_vote block vote c) = handed_out c" "handed_out (sign_timeout timeout c) = handed_out c"
  "handed_out (deliver_commits block blocks c) = handed_out c"
  "handed_out (generate_proposal tc c) = handed_out c" "handed_out (c\<lparr>c_db := db\<rparr>) = handed_out c"
  "handed_out (absorb_vote E vote c) = handed_out c" "handed_out (absorb_timeout timeout c) = handed_out c"
proof -
  show "handed_out (absorb_vote E vote c) = handed_out c"
    using out_absorb(1) [where E = E and vote = vote and c = c] by (auto intro!: handed_out_app)
  show "handed_out (absorb_timeout timeout c) = handed_out c"
    using out_absorb(2) [where timeout = timeout and c = c] by (auto intro!: handed_out_app)
qed (rule handed_out_app, simp add: out_mutations generate_proposal_def emit_def, simp)+

lemma requests_mutations [simp]:
  "requests_in S (advance_round r c) = requests_in S c" "requests_in S (process_qc qc c) = requests_in S c"
  "requests_in S (increase_last_voted_round r c) = requests_in S c"
  "requests_in S (store_block E b c) = requests_in S c" "requests_in S (sign_vote block vote c) = requests_in S c"
  "requests_in S (sign_timeout timeout c) = requests_in S c"
  "requests_in S (deliver_commits block blocks c) = requests_in S c"
  "requests_in S (generate_proposal tc c) = requests_in S c"
  "requests_in S (c\<lparr>c_db := db\<rparr>) = requests_in S c"
  "requests_in S (absorb_vote E vote c) = requests_in S c"
  "requests_in S (absorb_timeout timeout c) = requests_in S c"
  by (simp_all add: requests_in_def)

lemma handed_out_emit: "handed_out (emit e c) b \<longleftrightarrow> handed_out c b \<or> requested e = Some b"
  by (auto simp: handed_out_def emit_def)

interpretation asks: core_relation_any E "\<lambda>c c'. requests_in S c \<longrightarrow> requests_in S c'" "\<lambda>_ b. b \<in> S" False
  "\<lambda>ev. \<forall>b. ev = EvMessage (MPropose b) \<longrightarrow> b \<in> S"
  for E :: "'a env_scheme" and S
proof unfold_locales
  fix e and c :: Core
  assume "plain_effect e"
  then show "requests_in S c \<longrightarrow> requests_in S (emit e c)"
    by (simp add: requests_in_def handed_out_emit plain_requested)
next
  fix e b and c :: Core
  assume "requested e = Some b" "b \<in> S \<or> False"
  then show "requests_in S c \<longrightarrow> requests_in S (emit e c)" by (auto simp: requests_in_def handed_out_emit)
qed simp_all

definition consensus_inv ::
  "'a env_scheme \<Rightarrow> Block set \<Rightarrow> PublicKey \<Rightarrow> Committee \<Rightarrow> SecretKey \<Rightarrow> Consensus \<Rightarrow> bool" where
  "consensus_inv E S name com sk s \<longleftrightarrow> core_fair E S (Core_new name com sk []) (cs_core s) \<and> links_ok E s
     \<and> requests_in S (cs_core s) \<and> set (cs_loopback s) \<subseteq> S"

text \<open>
  The helper's turns, and those of a connection that hands it a request. They may end in a panic: of
  the helper, or of the connection once the helper has stopped.
\<close>

fun helper_event :: "ConsensusEvent \<Rightarrow> bool" where
  "helper_event (Received (Inr (MSyncRequest d pk))) = True"
| "helper_event HelperTakes = True"
| "helper_event ev = False"

text \<open>
  The task goes on: its handler completed, or the proposer waits for acknowledgements. The helper is
  left aside: no other task depends on it.
\<close>

definition goes_on :: "ConsensusEvent \<Rightarrow> (ConsensusError, unit) outcome \<Rightarrow> bool" where
  "goes_on ev r \<longleftrightarrow> completes r \<or> (\<exists>acks. ev = ProposerTakes acks) \<and> r = Hang \<or> helper_event ev"

lemma goes_on_core: "goes_on ev r \<Longrightarrow> core_input ev s = Some cev \<Longrightarrow> completes r"
  by (cases ev rule: helper_event.cases) (auto simp: goes_on_def to_core_def)

text \<open>What is new in the loopback channel comes from the tasks.\<close>

lemma turn_loopback:
  "sync_turn E sev s = (r, s') \<Longrightarrow> b \<in> set (cs_loopback s') \<Longrightarrow> b \<in> set (cs_loopback s) \<or> b \<in> held s'"
  "waiter_turn E wev s = (r, s') \<Longrightarrow> b \<in> set (cs_loopback s') \<Longrightarrow> b \<in> set (cs_loopback s) \<or> b \<in> held s'"
  "proposer_turn E pev s = (r, s') \<Longrightarrow> b \<in> set (cs_loopback s') \<Longrightarrow>
    b \<in> set (cs_loopback s) \<or> b \<in> looped (pr_out (cs_proposer s'))"
  using looped_drop
  by (fastforce simp: turn_defs held_def set_proposed split: prod.splits dest: in_set_dropD)+

lemma consensus_step_loopback:
  assumes "consensus_step E ev s = (r, s')" and "b \<in> set (cs_loopback s')"
  shows "b \<in> set (cs_loopback s) \<or> b \<in> held s'
    \<or> (\<exists>acks. ev = ProposerTakes acks) \<and> b \<in> looped (pr_out (cs_proposer s'))"
  using assms(1)
proof (cases "(E, ev, s)" rule: consensus_step.cases)
  case (1 E' m s1)
  then have "cs_loopback s' = cs_loopback s"
    using assms(1) by (auto simp: core_turn_def helper_receives_def split: outcome.splits list.splits option.splits prod.splits)
  then show ?thesis using assms(2) by simp
next
  case (12 E' d s1)
  then show ?thesis using assms by (auto simp: proposer_turn_def)
next
  case (13 E' s1)
  then have "cs_loopback s' = cs_loopback s"
    using assms(1) by (auto simp: helper_turn_def split: option.splits prod.splits)
  then show ?thesis using assms(2) by simp
qed (use assms turn_loopback [OF _ assms(2)] in \<open>fastforce simp: core_turn_def
      split: outcome.splits list.splits option.splits sum.splits prod.splits if_splits\<close>)+

lemma fair_core_input:
  assumes fair: "fair_input E S ev s" and inv: "consensus_inv E S name com sk s" and cev: "core_input ev s = Some cev"
  shows "fair_event E S (cs_core s) cev"
  using cev
proof (cases "(ev, s)" rule: core_input.cases)
  case (1 m s1)
  then show ?thesis using fair cev by (cases m rule: consensus_dispatch.cases) (auto simp: to_core_def)
next
  case (4 s1)
  then show ?thesis
    using cev inv links_admissible [of E s] by (auto simp: consensus_inv_def split: list.splits)
qed (use fair cev in auto)

lemma consensus_fair_inv:
  "progress_env E S com sk \<Longrightarrow> consensus_inv E S name com sk s \<Longrightarrow> fair_inv E S com (cs_core s)"
  using fair_inv_run by (auto simp: consensus_inv_def)

lemma consensus_core:
  "consensus_inv E S name com sk s \<Longrightarrow>
    c_name (cs_core s) = name \<and> c_committee (cs_core s) = com \<and> c_secret (cs_core s) = sk"
  using fair_grows [of E S "Core_new name com sk []" "cs_core s"]
  by (simp add: consensus_inv_def core_grows_def) (simp add: Core_new_def)

lemma fair_event_blocks:
  "fair_event E S c ev \<Longrightarrow> (\<forall>b. ev = EvLoopback b \<longrightarrow> b \<in> S) \<and> (\<forall>b. ev = EvMessage (MPropose b) \<longrightarrow> b \<in> S)"
  by auto

section \<open>Every turn completes\<close>

text \<open>
  The author of a suspended block has an address: the block was verified, or it is an own proposal.
\<close>

lemma handed_out_author:
  assumes env: "progress_env E S com sk" and inv: "consensus_inv E S name com sk s"
    and name: "name \<in> committee_members com" and b: "handed_out (cs_core s) b"
  shows "\<exists>a. committee_address com (b_author b) = Some a"
proof -
  note core = consensus_core [OF inv]
  have lock: "lock_ok E (justified E com (cs_core s)) (cs_core s)"
    using consensus_fair_inv [OF env inv] by (simp add: fair_inv_def)
  obtain e where "e \<in> set (c_out (cs_core s))" "requested e = Some b" using b by (auto simp: handed_out_def)
  then have "processed E (justified E com (cs_core s)) (cs_core s) b" using lock by (simp add: lock_ok_def)
  then have "Block_verify E b com = Ok () \<or> own_proposal (cs_core s) b"
    using core by (auto simp: processed_def justified_def)
  then have "b_author b \<in> committee_members com"
    using name core by (auto simp: Block_verify_Ok_iff own_proposal_def intro: stake_pos_member)
  then show ?thesis by (rule Core_Progress.committee_address_member)
qed

lemma sync_block_completes:
  "committee_address com (b_author b) = Some a \<Longrightarrow> completes (fst (sync_block E name com now b st))"
  by (simp add: sync_block_def Let_def)

lemma proposer_step_result:
  assumes "\<forall>d. \<exists>s. request_signature E (pr_secret p) d = Ok s"
  shows "completes (fst (proposer_step E ev p)) \<or> (\<exists>m acks. ev = PrMessage m acks) \<and> fst (proposer_step E ev p) = Hang"
proof (cases "(E, ev, p)" rule: proposer_step.cases)
  case (2 E' round qc tc acks p1)
  have "\<exists>b. Block_new E qc tc (pr_name p) round (pr_buffer p) (pr_secret p) = Ok b"
    using assms by (auto simp: Block_new_def Let_def and_then_Ok_iff)
  then obtain b where b: "Block_new E qc tc (pr_name p) round (pr_buffer p) (pr_secret p) = Ok b" by blast
  have ack: "completes (ack_loop th got n xs :: (ConsensusError, _) outcome)
      \<or> (ack_loop th got n xs :: (ConsensusError, _) outcome) = Hang" for th got n xs
    by (induction th got n xs rule: ack_loop.induct) (simp_all add: Let_def)
  show ?thesis
    using 2 b ack [of "quorum_threshold (pr_committee p)" "committee_stake (pr_committee p) (pr_name p)"
        "length (broadcast_addresses (pr_committee p) (pr_name p))" "map (committee_stake (pr_committee p)) acks"]
    by (cases "ack_loop (quorum_threshold (pr_committee p)) (committee_stake (pr_committee p) (pr_name p))
          (length (broadcast_addresses (pr_committee p) (pr_name p)))
          (map (committee_stake (pr_committee p)) acks) :: (ConsensusError, _) outcome")
      (auto simp: make_block_def Let_def)
qed (use assms in auto)

lemma ack_loop_waits: "(ack_loop th got n xs :: (ConsensusError, _) outcome) = Hang \<Longrightarrow> length xs < n"
proof (induction xs arbitrary: got n)
  case (Cons x xs)
  then have "(ack_loop th (got + x) (n - 1) xs :: (ConsensusError, _) outcome) = Hang"
    by (simp add: Let_def split: if_splits)
  from Cons.IH [OF this] show ?case by simp
qed (simp split: if_splits)

lemma proposer_waits:
  assumes "proposer_step E (PrMessage m acks) p = (Hang, p')"
    and "\<forall>d. \<exists>x. request_signature E (pr_secret p) d = Ok x"
  shows "length acks < length (broadcast_addresses (pr_committee p) (pr_name p))"
proof (cases m)
  case (PMake round qc tc)
  have "\<exists>b. Block_new E qc tc (pr_name p) round (pr_buffer p) (pr_secret p) = Ok b"
    using assms(2) by (auto simp: Block_new_def Let_def and_then_Ok_iff)
  then obtain b where "Block_new E qc tc (pr_name p) round (pr_buffer p) (pr_secret p) = Ok b" by blast
  then show ?thesis
    using assms(1) PMake ack_loop_waits [of "quorum_threshold (pr_committee p)"
        "committee_stake (pr_committee p) (pr_name p)" "length (broadcast_addresses (pr_committee p) (pr_name p))"
        "map (committee_stake (pr_committee p)) acks"]
    by (cases "ack_loop (quorum_threshold (pr_committee p)) (committee_stake (pr_committee p) (pr_name p))
          (length (broadcast_addresses (pr_committee p) (pr_name p)))
          (map (committee_stake (pr_committee p)) acks) :: (ConsensusError, _) outcome")
      (auto simp: make_block_def Let_def split: if_splits)
qed (use assms in simp)

lemma task_turn_completes:
  assumes "consensus_step E ev s = (r, s')" and "core_input ev s = None"
    and "\<forall>d. \<exists>x. request_signature E (pr_secret (cs_proposer s)) d = Ok x"
    and "\<And>b. handed_out (cs_core s) b \<Longrightarrow> \<exists>a. committee_address (c_committee (cs_core s)) (b_author b) = Some a"
  shows "goes_on ev r"
  using assms(1)
proof (cases "(E, ev, s)" rule: consensus_step.cases)
  case (1 E' m s1)
  then show ?thesis
    using assms(1,2) by (cases m rule: consensus_dispatch.cases) (auto simp: goes_on_def to_core_def)
next
  case (5 E' now s1)
  show ?thesis
  proof (cases "channel_head (sync_inbox (cs_core s)) (cs_sync_read s)")
    case (Some b)
    then show ?thesis
      using 5 assms(1) assms(4) [OF inbox_member(1) [OF Some]]
        sync_block_completes [of "c_committee (cs_core s)" b _ E "c_name (cs_core s)" now "cs_sync s"]
      by (auto simp: goes_on_def sync_turn_def split: prod.splits)
  qed (use 5 assms(1) in \<open>auto simp: goes_on_def\<close>)
next
  case (11 E' acks s1)
  show ?thesis
  proof (cases "channel_head (proposer_inbox (cs_core s)) (cs_proposer_read s)")
    case (Some m)
    then show ?thesis
      using 11 assms(1) proposer_step_result [OF assms(3), of "PrMessage m acks"]
      by (auto simp: goes_on_def proposer_turn_def split: prod.splits)
  qed (use 11 assms(1) in \<open>auto simp: goes_on_def\<close>)
qed (use assms(1,2) in \<open>auto simp: goes_on_def turn_defs split: outcome.splits list.splits option.splits
      sum.splits prod.splits if_splits\<close>)

lemma consensus_waits:
  assumes env: "progress_env E S com sk" and inv: "consensus_inv E S name com sk s"
    and step: "consensus_step E (ProposerTakes acks) s = (Hang, s')"
  shows "length acks < length (broadcast_addresses com name)"
proof -
  have p: "pr_name (cs_proposer s) = name" "pr_committee (cs_proposer s) = com" "pr_secret (cs_proposer s) = sk"
    using inv consensus_core [OF inv] by (simp_all add: consensus_inv_def links_ok_def proposer_ok_def)
  obtain m p' where "proposer_step E (PrMessage m acks) (cs_proposer s) = (Hang, p')"
    using step by (auto simp: proposer_turn_def split: option.splits prod.splits)
  from proposer_waits [OF this] show ?thesis using env p by (simp add: progress_env_def)
qed

lemma consensus_turn:
  assumes env: "progress_env E S com sk" and inv: "consensus_inv E S name com sk s"
    and name: "name \<in> committee_members com" and fair: "fair_input E S ev s"
    and step: "consensus_step E ev s = (r, s')"
  shows "goes_on ev r \<and> consensus_inv E S name com sk s'"
proof -
  note core = consensus_core [OF inv]
  have l: "links_ok E s'" using inv consensus_step_links [OF _ step] by (simp add: consensus_inv_def)
  have run: "goes_on ev r \<and> core_fair E S (Core_new name com sk []) (cs_core s') \<and> requests_in S (cs_core s')"
  proof (cases "core_input ev s")
    case None
    have "\<forall>d. \<exists>x. request_signature E (pr_secret (cs_proposer s)) d = Ok x"
      using env inv core by (simp add: consensus_inv_def links_ok_def proposer_ok_def progress_env_def)
    from task_turn_completes [OF step None this] have "goes_on ev r"
      using handed_out_author [OF env inv name] core by simp
    then show ?thesis using None inv consensus_step_core [OF step] by (simp add: consensus_inv_def)
  next
    case (Some cev)
    have ev: "fair_event E S (cs_core s) cev" using fair_core_input [OF fair inv Some] .
    have h: "core_handle E cev (cs_core s) = (r, cs_core s')" using consensus_step_core [OF step] Some by simp
    have r: "completes r"
      using fair_handle_completes [OF env consensus_fair_inv [OF env inv] ev] h by simp
    have "core_fair E S (Core_new name com sk []) (cs_core s')"
      using inv ev h by (auto simp: consensus_inv_def intro: core_fair.step)
    moreover have "requests_in S (cs_core s) \<longrightarrow> requests_in S (cs_core s')"
      using asks.core_handle_R [where ev = cev and c = "cs_core s" and E = E and S = S]
        fair_event_blocks [OF ev] h r by auto
    ultimately show ?thesis using r inv by (simp add: goes_on_def consensus_inv_def)
  qed
  have "b \<in> S" if "b \<in> set (cs_loopback s')" for b
  proof -
    have "b \<in> held s' \<Longrightarrow> b \<in> S" using l run by (auto simp: links_ok_def requests_in_def)
    then show ?thesis
      using consensus_step_loopback [OF step that] fair step inv by (auto simp: consensus_inv_def)
  qed
  then show ?thesis using run l by (auto simp: consensus_inv_def)
qed

section \<open>Runs\<close>

lemma spawn_tasks:
  assumes "(Consensus_spawn name com par sk db :: (ConfigError, _) outcome) = Ok tasks"
  shows "name \<in> committee_members com \<and> ct_core tasks = Core_new name com sk db \<and> ct_sync tasks = SyncTask_new
    \<and> ct_payload_waiter tasks = PayloadWaiter_new \<and> ct_proposer tasks = Proposer_new name com sk"
proof -
  have "name \<in> committee_members com"
    by (rule ccontr) (use assms in \<open>simp add: Consensus_spawn_member(1)\<close>)
  then show ?thesis using assms by (auto simp: Consensus_spawn_def split: option.splits)
qed

lemma boot_links:
  assumes spawn: "(Consensus_spawn name com par sk db :: (ConfigError, _) outcome) = Ok tasks"
    and boot: "consensus_boot tasks = (r, s)"
  shows "core_boot (Core_new name com sk db) = (r, cs_core s) \<and> links_ok E s \<and> cs_loopback s = []
    \<and> cs_sync s = SyncTask_new \<and> cs_sync_read s = 0"
proof -
  obtain c where c: "core_boot (Core_new name com sk db) = (r, c)" and s: "cs_core s = c" "cs_sync s = SyncTask_new"
    "cs_waiter s = PayloadWaiter_new" "cs_proposer s = Proposer_new name com sk" "cs_loopback s = []" "cs_sync_read s = 0"
    using boot spawn_tasks [OF spawn] by (auto simp: consensus_boot_def split: prod.splits)
  have "core_grows (Core_new name com sk db) c"
    using grows.core_boot_R [where c = "Core_new name com sk db"] c by simp
  then have "proposer_ok c (Proposer_new name com sk)"
    by (simp add: core_grows_def proposer_ok_def Proposer_new_def) (simp add: Core_new_def)
  then show ?thesis
    using c s by (simp add: links_ok_def held_def) (simp add: SyncTask_new_def PayloadWaiter_new_def)
qed

lemma consensus_run_inv:
  assumes env: "progress_env E S com sk"
    and spawn: "(Consensus_spawn name com par sk [] :: (ConfigError, _) outcome) = Ok tasks"
    and run: "consensus_run E (fair_input E S) tasks s"
  shows "consensus_inv E S name com sk s"
  using run
proof (induction rule: consensus_run.induct)
  case (boot r s)
  note b = boot_links [OF spawn boot, of E]
  have "requests_in S (Core_new name com sk []) \<longrightarrow> requests_in S (cs_core s)"
    using asks.core_boot_R [where c = "Core_new name com sk []" and S = S] b by simp
  then have "requests_in S (cs_core s)" by (simp add: requests_in_def handed_out_def Core_new_def)
  then show ?case using b by (auto simp: consensus_inv_def intro: core_fair.boot)
next
  case (step s ev r s')
  then show ?case using consensus_turn [OF env _ _ step.hyps(2,3)] spawn_tasks [OF spawn] by blast
qed

section \<open>Suspended blocks\<close>

text \<open>
  What the synchronizer's task has read off its channel is waiting or has been handed back (or a
  block with its digest is).
\<close>

definition sync_kept :: "'a env_scheme \<Rightarrow> Consensus \<Rightarrow> bool" where
  "sync_kept E s \<longleftrightarrow> sync_full E (cs_sync s) \<and> cs_sync_read s \<le> length (sync_inbox (cs_core s))
     \<and> (\<forall>b \<in> set (take (cs_sync_read s) (sync_inbox (cs_core s))). sync_covers E (cs_sync s) b)"

lemma sync_inbox_grows: "core_grows c c' \<Longrightarrow> \<exists>bs. sync_inbox c' = sync_inbox c @ bs"
  by (auto simp: core_grows_def sync_inbox_def)

lemma sync_kept_turn:
  assumes k: "sync_kept E s" and t: "sync_turn E ev (s\<lparr>cs_sync_read := n\<rparr>) = (Ok (), s')"
    and ok: "\<And>w e. ev \<noteq> SyncDone w (Inl e)" and len: "n \<le> length (sync_inbox (cs_core s))"
    and n: "set (take n (sync_inbox (cs_core s)))
      \<subseteq> set (take (cs_sync_read s) (sync_inbox (cs_core s))) \<union> set (received_blocks [ev])"
  shows "sync_kept E s'"
proof -
  obtain st where st: "sync_step E (c_name (cs_core s)) (c_committee (cs_core s)) (cs_sync_delay s) ev (cs_sync s) = (Ok (), st)"
    and s': "cs_sync s' = st" "cs_core s' = cs_core s" "cs_sync_read s' = n"
    using t by (auto simp: sync_turn_def split: prod.splits)
  have "sync_full E (cs_sync s)" using k by (simp add: sync_kept_def)
  from sync_step_full [OF this st ok] show ?thesis
    using k n len by (auto simp: sync_kept_def s')
qed

lemma sync_kept_frame:
  assumes k: "sync_kept E s" and g: "core_grows (cs_core s) (cs_core s')"
    and s': "cs_sync s' = cs_sync s" "cs_sync_read s' = cs_sync_read s"
  shows "sync_kept E s'"
proof -
  obtain bs where "sync_inbox (cs_core s') = sync_inbox (cs_core s) @ bs" using sync_inbox_grows [OF g] by blast
  then show ?thesis using k by (simp add: sync_kept_def s')
qed

lemma notify_poll_Inr: "rocks_ok E \<Longrightarrow> notify_poll E db d = Some r \<Longrightarrow> \<exists>v. r = Inr v"
  using db.kv_total [of E db "Digest_to_vec d"] by (auto simp: notify_poll_def split: option.splits)

lemma sync_turn_Ok:
  "sync_turn E ev s = (r, s') \<Longrightarrow> completes r \<Longrightarrow> r = Ok ()"
  by (cases "(E, c_name (cs_core s), c_committee (cs_core s), cs_sync_delay s, ev, cs_sync s)" rule: sync_step.cases)
    (auto simp: sync_turn_def sync_block_def Let_def split: prod.splits if_splits option.splits)

lemma take_channel_head:
  "channel_head xs n = Some x \<Longrightarrow> n + 1 \<le> length xs \<and> set (take (n + 1) xs) \<subseteq> insert x (set (take n xs))"
  by (simp add: channel_head_def take_Suc_conv_app_nth split: if_splits)

lemma consensus_step_grows: "consensus_step E ev s = (r, s') \<Longrightarrow> core_grows (cs_core s) (cs_core s')"
  using consensus_step_core [of E ev s r s']
  by (auto intro: handle_grows core_grows_refl split: option.splits)

fun sync_event :: "ConsensusEvent \<Rightarrow> bool" where
  "sync_event (SyncTakes now) = True"
| "sync_event (SyncPolls w) = True"
| "sync_event (SyncTimerFired now) = True"
| "sync_event ev = False"

lemma consensus_step_sync_same:
  "consensus_step E ev s = (r, s') \<Longrightarrow> \<not> sync_event ev \<Longrightarrow>
    cs_sync s' = cs_sync s \<and> cs_sync_read s' = cs_sync_read s"
  by (cases "(E, ev, s)" rule: consensus_step.cases)
    (auto simp: turn_defs split: outcome.splits list.splits option.splits sum.splits prod.splits)

lemma consensus_step_kept:
  assumes r: "rocks_ok E" and k: "sync_kept E s" and step: "consensus_step E ev s = (r, s')" and ret: "goes_on ev r"
  shows "sync_kept E s'"
  using step
proof (cases "(E, ev, s)" rule: consensus_step.cases)
  case (5 E' now s1)
  show ?thesis
  proof (cases "channel_head (sync_inbox (cs_core s)) (cs_sync_read s)")
    case (Some b)
    then have t: "sync_turn E (SyncBlock now b) (s\<lparr>cs_sync_read := cs_sync_read s + 1\<rparr>) = (r, s')"
      using 5 step by simp
    moreover have "completes r" using ret 5 by (simp add: goes_on_def)
    ultimately have "r = Ok ()" by (rule sync_turn_Ok)
    then show ?thesis
      using sync_kept_turn [OF k t [unfolded \<open>r = Ok ()\<close>]] take_channel_head [OF Some] by simp
  qed (use 5 step k in auto)
next
  case (6 E' w s1)
  show ?thesis
  proof (cases "w \<in> set (sy_waiting (cs_sync s)) \<and> notify_poll E (c_db (cs_core s)) (fst w) \<noteq> None")
    case True
    then obtain v where "notify_poll E (c_db (cs_core s)) (fst w) = Some (Inr v)"
      using notify_poll_Inr [OF r] by fastforce
    then have t: "sync_turn E (SyncDone w (Inr v)) (s\<lparr>cs_sync_read := cs_sync_read s\<rparr>) = (r, s')"
      using 6 step True by simp
    moreover have "completes r" using ret 6 by (simp add: goes_on_def)
    ultimately have "r = Ok ()" by (rule sync_turn_Ok)
    then show ?thesis
      using sync_kept_turn [OF k t [unfolded \<open>r = Ok ()\<close>]] k by (simp add: sync_kept_def)
  qed (use 6 step k in \<open>auto split: option.splits if_splits\<close>)
next
  case (7 E' now s1)
  then have t: "sync_turn E (SyncTimer now) (s\<lparr>cs_sync_read := cs_sync_read s\<rparr>) = (Ok (), s')"
    using step by (simp add: sync_turn_def)
  show ?thesis using sync_kept_turn [OF k t] k by (simp add: sync_kept_def)
qed (use sync_kept_frame [OF k consensus_step_grows [OF step]] consensus_step_sync_same [OF step] in simp_all)

lemma consensus_run_kept:
  assumes env: "progress_env E S com sk"
    and spawn: "(Consensus_spawn name com par sk [] :: (ConfigError, _) outcome) = Ok tasks"
    and run: "consensus_run E (fair_input E S) tasks s"
  shows "sync_kept E s"
  using run
proof (induction rule: consensus_run.induct)
  case (boot r s)
  then show ?case
    using boot_links [OF spawn boot, of E] by (simp add: sync_kept_def sync_full_def) (simp add: SyncTask_new_def)
next
  case (step s ev r s')
  have "goes_on ev r"
    using consensus_turn [OF env consensus_run_inv [OF env spawn step.hyps(1)] _ step.hyps(2,3)]
      spawn_tasks [OF spawn] by blast
  moreover have "rocks_ok E" using env by (simp add: progress_env_def)
  ultimately show ?case using consensus_step_kept [OF _ step.IH step.hyps(3)] by blast
qed

end
