(* ===== verification/Safety.thy ===== *)
theory Safety
  imports Core_Lock
begin

text \<open>
  Many replicas. The correct nodes \<open>H\<close> of a committee each run the core of \<open>Core_Model\<close>; everybody
  else, the network and the other tasks are the environment, which picks the events. What it cannot
  do is forge signatures: a certificate that verifies and names a correct node was made from a vote
  (or timeout) that this node signed. Any two blocks delivered to the application by correct nodes
  lie on one chain.
\<close>

section \<open>The system\<close>

type_synonym system = "PublicKey \<Rightarrow> Core"

definition qc_authentic :: "PublicKey set \<Rightarrow> system \<Rightarrow> QC \<Rightarrow> bool" where
  "qc_authentic H g qc \<longleftrightarrow> (\<forall>a \<in> qc_signers qc \<inter> H. \<exists>v. CreatedVote v \<in> set (c_out (g a))
     \<and> v_hash v = qc_hash qc \<and> v_round v = qc_round qc)"

definition tc_authentic :: "PublicKey set \<Rightarrow> system \<Rightarrow> TC \<Rightarrow> bool" where
  "tc_authentic H g tc \<longleftrightarrow> (\<forall>(a, s, q) \<in> set (tc_votes tc). a \<in> H \<longrightarrow>
     (\<exists>t. CreatedTimeout t \<in> set (c_out (g a)) \<and> t_round t = tc_round tc
        \<and> qc_round (t_high_qc t) = q))"

definition block_authentic ::
  "'a env_scheme \<Rightarrow> Committee \<Rightarrow> PublicKey set \<Rightarrow> system \<Rightarrow> Block \<Rightarrow> bool" where
  "block_authentic E com H g b \<longleftrightarrow>
     (QC_verify E (b_qc b) com = Ok () \<longrightarrow> qc_authentic H g (b_qc b))
     \<and> (\<forall>tc. b_tc b = Some tc \<longrightarrow> TC_verify E tc com = Ok () \<longrightarrow> tc_authentic H g tc)"

text \<open>
  The events the environment can cause in a state of the system. \<open>batch k v\<close>: the mempool may write
  the batch \<open>v\<close> under the key \<open>k\<close>. A block looped back to a correct node rests on certificates that
  verify: a block it asked for passed \<open>Block::verify\<close> before (\<open>requested_possible\<close>), for its own
  proposals this is \<open>own_proposals_checked\<close>, unless \<open>handle_tc\<close> took in a certificate that does not.
\<close>

fun possible ::
  "'a env_scheme \<Rightarrow> Committee \<Rightarrow> PublicKey set \<Rightarrow> (Key \<Rightarrow> Value \<Rightarrow> bool) \<Rightarrow> system \<Rightarrow> CoreEvent \<Rightarrow> bool"
where
  "possible E com H batch g (EvMessage (MPropose b)) \<longleftrightarrow> block_authentic E com H g b"
| "possible E com H batch g (EvLoopback b) \<longleftrightarrow>
     certs_verify E com (b_qc b) (b_tc b) \<and> block_authentic E com H g b"
| "possible E com H batch g (EvStoreWrite k v) \<longleftrightarrow> batch k v"
| "possible E com H batch g ev \<longleftrightarrow> True"

definition sys_boot :: "Committee \<Rightarrow> (PublicKey \<Rightarrow> SecretKey) \<Rightarrow> system" where
  "sys_boot com sk a = snd (core_boot (Core_new a com (sk a) []))"

inductive sys_step ::
  "'a env_scheme \<Rightarrow> Committee \<Rightarrow> PublicKey set \<Rightarrow> (Key \<Rightarrow> Value \<Rightarrow> bool) \<Rightarrow> system \<Rightarrow> system \<Rightarrow> bool"
  for E com H batch where
  event: "a \<in> H \<Longrightarrow> admissible (g a) ev \<Longrightarrow> possible E com H batch g ev \<Longrightarrow>
    core_handle E ev (g a) = (r, c') \<Longrightarrow> completes r \<Longrightarrow> sys_step E com H batch g (g(a := c'))"

inductive_cases sys_stepE: "sys_step E com H batch g g'"

abbreviation sys_run ::
  "'a env_scheme \<Rightarrow> Committee \<Rightarrow> PublicKey set \<Rightarrow> (Key \<Rightarrow> Value \<Rightarrow> bool) \<Rightarrow> system \<Rightarrow> system \<Rightarrow> bool" where
  "sys_run E com H batch \<equiv> (sys_step E com H batch)\<^sup>*\<^sup>*"

section \<open>Invariants of a run\<close>

definition log_kept :: "PublicKey set \<Rightarrow> system \<Rightarrow> system \<Rightarrow> bool" where
  "log_kept H g g' \<longleftrightarrow> (\<forall>a \<in> H. core_grows (g a) (g' a))"

definition sys_ok ::
  "'a env_scheme \<Rightarrow> Committee \<Rightarrow> PublicKey set \<Rightarrow> (CoreEvent \<Rightarrow> bool) \<Rightarrow> system \<Rightarrow> bool" where
  "sys_ok E com H A g \<longleftrightarrow> (\<forall>a \<in> H. c_name (g a) = a \<and> c_committee (g a) = com
     \<and> signing_ok (g a) \<and> lock_ok E A (g a))"

lemma log_kept_refl [simp]: "log_kept H g g"
  by (simp add: log_kept_def core_grows_refl)

lemma log_kept_trans: "log_kept H g g' \<Longrightarrow> log_kept H g' g'' \<Longrightarrow> log_kept H g g''"
  using core_grows_trans by (auto simp: log_kept_def)

lemma log_kept_out: "log_kept H g g' \<Longrightarrow> a \<in> H \<Longrightarrow> e \<in> set (c_out (g a)) \<Longrightarrow> e \<in> set (c_out (g' a))"
  by (fastforce simp: log_kept_def core_grows_def)

lemma qc_authentic_mono: "log_kept H g g' \<Longrightarrow> qc_authentic H g qc \<Longrightarrow> qc_authentic H g' qc"
  using log_kept_out unfolding qc_authentic_def by blast

lemma tc_authentic_mono: "log_kept H g g' \<Longrightarrow> tc_authentic H g tc \<Longrightarrow> tc_authentic H g' tc"
  using log_kept_out by (fastforce simp: tc_authentic_def)

lemma possible_mono:
  "log_kept H g g' \<Longrightarrow> possible E com H batch g ev \<Longrightarrow> possible E com H batch g' ev"
  by (cases "(E, com, H, batch, g, ev)" rule: possible.cases)
    (auto simp: block_authentic_def intro: qc_authentic_mono tc_authentic_mono)

lemma sys_ok_mono: "sys_ok E com H A g \<Longrightarrow> (\<And>ev. A ev \<Longrightarrow> B ev) \<Longrightarrow> sys_ok E com H B g"
  using lock_ok_mono unfolding sys_ok_def by blast

lemma sys_boot_ok: "sys_ok E com H A (sys_boot com sk)"
proof -
  have "signing_ok (sys_boot com sk a)" for a
    using signing.core_boot_R [of "Core_new a com (sk a) []"] by (simp add: sys_boot_def)
  moreover have "lock_ok E A (sys_boot com sk a) \<and> core_grows (Core_new a com (sk a) []) (sys_boot com sk a)"
    for a
    unfolding sys_boot_def by (rule lock_ok_boot [OF prod.collapse [symmetric]]) simp
  ultimately show ?thesis by (simp add: sys_ok_def core_grows_def Core_new_def)
qed

text \<open>After a step the logs rest on what was possible before it.\<close>

lemma sys_step_ok:
  assumes "sys_step E com H batch g g'" and ok: "sys_ok E com H (possible E com H batch g) g"
  shows "sys_ok E com H (possible E com H batch g) g' \<and> log_kept H g g'"
  using assms(1)
proof (cases rule: sys_step.cases)
  case (event a ev r c')
  let ?A = "possible E com H batch g"
  have old: "c_name (g a) = a" "c_committee (g a) = com" "signing_ok (g a)" "lock_ok E ?A (g a)"
    using ok event(2) by (simp_all add: sys_ok_def)
  have new: "lock_ok E ?A c'" "core_grows (g a) c'"
    using lock_ok_handle [OF old(4) event(3,4,5,6)] by simp_all
  have "signing_ok c'"
    using signing.core_handle_R [where E = E and ev = ev and c = "g a"] event(5) old(3) by simp
  then have "sys_ok E com H ?A g'"
    using ok new old event(1) by (auto simp: sys_ok_def core_grows_def)
  moreover have "log_kept H g g'"
    using new(2) by (simp add: event(1) log_kept_def core_grows_refl)
  ultimately show ?thesis ..
qed

lemma sys_run_ok:
  "sys_run E com H batch (sys_boot com sk) g \<Longrightarrow> sys_ok E com H (possible E com H batch g) g"
proof (induction rule: rtranclp_induct)
  case base
  show ?case by (rule sys_boot_ok)
next
  case (step g g')
  from sys_step_ok [OF step.hyps(2) step.IH]
  show ?case using sys_ok_mono possible_mono by blast
qed

lemma sys_run_log:
  "sys_run E com H batch g g' \<Longrightarrow> sys_ok E com H (possible E com H batch g) g \<Longrightarrow> log_kept H g g'"
proof (induction rule: converse_rtranclp_induct)
  case (step g g1)
  from sys_step_ok [OF step.hyps(1) step.prems] have 1: "log_kept H g g1"
    and "sys_ok E com H (possible E com H batch g) g1" by simp_all
  then have "sys_ok E com H (possible E com H batch g1) g1"
    using sys_ok_mono possible_mono by blast
  with step.IH 1 show ?case using log_kept_trans by blast
qed simp

text \<open>What a correct node asked for may be looped back to it at any later time.\<close>

lemma requested_possible:
  assumes "sys_ok E com H (possible E com H batch g) g" and "a \<in> H" and "e \<in> set (c_out (g a))"
    and "requested e = Some b"
  shows "possible E com H batch g (EvLoopback b)"
proof -
  have "processed E (possible E com H batch g) (g a) b" "c_committee (g a) = com"
    using assms by (auto simp: sys_ok_def lock_ok_def)
  then show ?thesis
    by (auto simp: processed_def Block_verify_Ok_iff certs_verify_def checked_qc_def split: option.splits)
qed

section \<open>Hypotheses\<close>

text \<open>
  The correct nodes are members and at most a third of the stake is not theirs; the store behaves.
\<close>

definition mostly_correct :: "Committee \<Rightarrow> PublicKey set \<Rightarrow> bool" where
  "mostly_correct com H \<longleftrightarrow> committee_valid com \<and> H \<subseteq> committee_members com
     \<and> 3 * sum (stake_of com) (committee_members com - H) \<le> total_stake com"

definition stored_block :: "'a env_scheme \<Rightarrow> PublicKey set \<Rightarrow> system \<Rightarrow> Block \<Rightarrow> bool" where
  "stored_block E H g b \<longleftrightarrow> (\<exists>a \<in> H. block_stored E (g a) b)"

text \<open>
  No accident of the hash function or the serializer among the blocks that correct nodes stored: two
  with one digest have one preimage, no digest is zero, none is the key of a batch, and
  deserializing returns the block.
\<close>

definition no_accident :: "'a env_scheme \<Rightarrow> PublicKey set \<Rightarrow> (Key \<Rightarrow> Value \<Rightarrow> bool) \<Rightarrow> system \<Rightarrow> bool" where
  "no_accident E H batch g \<longleftrightarrow>
     (\<forall>b b'. stored_block E H g b \<longrightarrow> stored_block E H g b' \<longrightarrow> Block_digest E b = Block_digest E b'
        \<longrightarrow> Block_preimage b = Block_preimage b')
     \<and> (\<forall>b. stored_block E H g b \<longrightarrow> Block_digest E b \<noteq> Digest_default
          \<and> de_block E (ser_block E b) = Inr b
          \<and> (\<forall>v. \<not> batch (Digest_to_vec (Block_digest E b)) v))"

lemma quorums_share_correct:
  assumes "mostly_correct com H" "stake_quorum com S" "stake_quorum com T"
  shows "\<exists>a. a \<in> S \<and> a \<in> T \<and> a \<in> H"
proof -
  have v: "committee_valid com" using assms(1) by (simp add: mostly_correct_def)
  have "\<exists>p. p \<in> S \<and> p \<in> T \<and> p \<notin> committee_members com - H"
    by (rule committee_quorums.correct_in_both [OF v assms(2,3)])
      (use assms(1) sum_members [OF v] in \<open>auto simp: mostly_correct_def\<close>)
  moreover have "S \<subseteq> committee_members com" using assms(2) by (simp add: stake_quorum_def)
  ultimately show ?thesis by blast
qed

section \<open>Certified blocks\<close>

definition certified :: "'a env_scheme \<Rightarrow> Committee \<Rightarrow> PublicKey set \<Rightarrow> system \<Rightarrow> QC \<Rightarrow> bool" where
  "certified E com H g qc \<longleftrightarrow> QC_verify E qc com = Ok () \<and> qc_authentic H g qc"

lemma certified_mono: "log_kept H g g' \<Longrightarrow> certified E com H g qc \<Longrightarrow> certified E com H g' qc"
  using qc_authentic_mono by (auto simp: certified_def)

text \<open>
  A correct signer of a certificate voted for a block of that digest and round, which it stored and
  which rests on what was possible.
\<close>

lemma signer_voted:
  assumes ok: "sys_ok E com H A g" and c: "certified E com H g qc" and a: "a \<in> qc_signers qc" "a \<in> H"
  obtains v b where "CreatedVote v \<in> set (c_out (g a))" "v_hash v = qc_hash qc" "v_round v = qc_round qc"
    "voted_for E A (g a) v b" "Block_digest E b = qc_hash qc" "b_round b = qc_round qc"
    "stored_block E H g b" "0 < qc_round qc"
proof -
  from c a obtain v where v: "CreatedVote v \<in> set (c_out (g a))" "v_hash v = qc_hash qc"
    "v_round v = qc_round qc"
    unfolding certified_def qc_authentic_def by blast
  from ok a(2) have s: "signing_ok (g a)" and l: "lock_ok E A (g a)" by (simp_all add: sys_ok_def)
  from l v(1) obtain b where b: "voted_for E A (g a) v b" unfolding lock_ok_def by blast
  then have "Vote_new E b (c_name (g a)) (c_secret (g a)) = Ok v" "block_stored E (g a) b"
    by (simp_all add: voted_for_def)
  moreover have "0 < v_round v" using s v(1) by (simp add: signing_ok_def)
  ultimately show ?thesis
    using that [OF v b] Vote_new_Ok v a(2) unfolding stored_block_def by metis
qed

lemma certified_quorum:
  assumes "mostly_correct com H" "certified E com H g qc"
  shows "stake_quorum com (qc_signers qc)"
  using assms QC_verify_quorum by (auto simp: mostly_correct_def certified_def)

lemma certified_signer:
  assumes "mostly_correct com H" "certified E com H g qc"
  obtains a where "a \<in> qc_signers qc" "a \<in> H"
  using quorums_share_correct [OF assms(1) certified_quorum certified_quorum, OF assms assms] by blast

text \<open>Two votes of one node in one round are the same vote.\<close>

lemma sorted_wrt_pair:
  assumes "sorted_wrt P xs" "x \<in> set xs" "y \<in> set xs" "x \<noteq> y"
  shows "P x y \<or> P y x"
  using assms by (induction xs) auto

lemma one_vote:
  assumes "signing_ok c" "CreatedVote v \<in> set (c_out c)" "CreatedVote v' \<in> set (c_out c)"
    "v_round v = v_round v'"
  shows "v = v'"
proof (rule ccontr)
  assume "v \<noteq> v'"
  then have "vote_after (CreatedVote v) (CreatedVote v') \<or> vote_after (CreatedVote v') (CreatedVote v)"
    using assms sorted_wrt_pair [of vote_after "c_out c" "CreatedVote v" "CreatedVote v'"]
    by (simp add: signing_ok_def)
  then show False using assms(4) by (auto simp: vote_after_def)
qed

text \<open>At most one block is certified in a round, and a digest is certified in one round only.\<close>

lemma certified_unique:
  assumes m: "mostly_correct com H" and ok: "sys_ok E com H A g"
    and c: "certified E com H g qc" "certified E com H g qc'" and r: "qc_round qc = qc_round qc'"
  shows "qc_hash qc = qc_hash qc'"
proof -
  obtain a where a: "a \<in> qc_signers qc" "a \<in> qc_signers qc'" "a \<in> H"
    using quorums_share_correct [OF m certified_quorum certified_quorum, OF m c(1) m c(2)] by blast
  obtain v where v: "CreatedVote v \<in> set (c_out (g a))" "v_hash v = qc_hash qc" "v_round v = qc_round qc"
    by (rule signer_voted [OF ok c(1) a(1,3)])
  obtain v' where v': "CreatedVote v' \<in> set (c_out (g a))" "v_hash v' = qc_hash qc'"
    "v_round v' = qc_round qc'"
    by (rule signer_voted [OF ok c(2) a(2,3)])
  have "signing_ok (g a)" using ok a(3) by (simp add: sys_ok_def)
  then have "v = v'" using one_vote v v' r by simp
  then show ?thesis using v v' by simp
qed

lemma certified_round:
  assumes m: "mostly_correct com H" and ok: "sys_ok E com H A g" and na: "no_accident E H batch g"
    and c: "certified E com H g qc" and b: "stored_block E H g b" "Block_digest E b = qc_hash qc"
  shows "b_round b = qc_round qc"
proof -
  obtain a where a: "a \<in> qc_signers qc" "a \<in> H" by (rule certified_signer [OF m c])
  obtain b' where "Block_digest E b' = qc_hash qc" "b_round b' = qc_round qc" "stored_block E H g b'"
    by (rule signer_voted [OF ok c a])
  then show ?thesis using na b unfolding no_accident_def by (metis Block_preimage_inject)
qed

section \<open>Chains\<close>

text \<open>\<open>extends h h0\<close>: following the parent hashes of stored blocks leads from \<open>h\<close> to \<open>h0\<close>.\<close>

inductive extends :: "'a env_scheme \<Rightarrow> PublicKey set \<Rightarrow> system \<Rightarrow> Digest \<Rightarrow> Digest \<Rightarrow> bool" for E H g where
  here: "extends E H g h h"
| parent: "stored_block E H g b \<Longrightarrow> extends E H g (Block_parent b) h0 \<Longrightarrow> extends E H g (Block_digest E b) h0"

lemma extends_trans: "extends E H g h h' \<Longrightarrow> extends E H g h' h'' \<Longrightarrow> extends E H g h h''"
  by (induction rule: extends.induct) (auto intro: extends.intros)

lemma stored_block_mono:
  assumes "log_kept H g g'" and "stored_block E H g b"
  shows "stored_block E H g' b"
proof -
  from assms(2) obtain a where a: "a \<in> H" "block_stored E (g a) b" by (auto simp: stored_block_def)
  then have "core_grows (g a) (g' a)" using assms(1) by (simp add: log_kept_def)
  then have "block_stored E (g' a) b" using a(2) by (auto simp: core_grows_def block_stored_def)
  with a(1) show ?thesis by (auto simp: stored_block_def)
qed

lemma same_digest_parent:
  assumes "no_accident E H batch g" "stored_block E H g b" "stored_block E H g b'"
    "Block_digest E b = Block_digest E b'"
  shows "Block_parent b = Block_parent b'"
  using assms unfolding no_accident_def Block_parent_def by (metis Block_preimage_inject)

text \<open>What one block extends lies on one chain.\<close>

lemma extends_linear:
  assumes na: "no_accident E H batch g" and "extends E H g h u" and "extends E H g h w"
  shows "extends E H g u w \<or> extends E H g w u"
  using assms(2,3)
proof (induction arbitrary: w rule: extends.induct)
  case (parent b u)
  from parent.prems show ?case
  proof (cases rule: extends.cases)
    case here
    then show ?thesis using parent.hyps extends.parent by blast
  next
    case (parent b')
    then have "Block_parent b = Block_parent b'"
      using same_digest_parent [OF na parent.hyps(1)] by simp
    then show ?thesis using parent.IH parent(3) by simp
  qed
qed simp

text \<open>The certificates in a block that a correct node processed were made from correct votes.\<close>

lemma processed_certified:
  assumes "processed E (possible E com H batch g) c b" and "c_committee c = com"
  shows "QC_eq (b_qc b) QC_genesis \<or> certified E com H g (b_qc b)"
    and "b_tc b = Some tc \<Longrightarrow> TC_verify E tc com = Ok () \<and> tc_authentic H g tc"
  using assms by (auto simp: processed_def Block_verify_Ok_iff block_authentic_def certified_def
      certs_verify_def checked_qc_def)

text \<open>Before the first step nothing is certified.\<close>

lemma boot_not_certified:
  assumes "mostly_correct com H"
  shows "\<not> certified E com H (sys_boot com sk) qc"
proof
  assume c: "certified E com H (sys_boot com sk) qc"
  obtain a where a: "a \<in> qc_signers qc" "a \<in> H" by (rule certified_signer [OF assms c])
  obtain v b where "voted_for E (\<lambda>_. False) (sys_boot com sk a) v b"
    by (rule signer_voted [OF sys_boot_ok c a])
  then show False by (simp add: voted_for_def processed_def)
qed

text \<open>
  What holds of certificates is proved along the run: the block of a certificate first seen after a
  step has a correct signer, and the certificates inside that block were there before the step.
\<close>

lemma certified_induct [consumes 4, case_names voted]:
  assumes m: "mostly_correct com H"
    and run: "sys_run E com H batch (sys_boot com sk) g" "sys_run E com H batch g f"
    and c: "certified E com H g qc"
    and voted: "\<And>g a b qc. certified E com H f qc \<Longrightarrow> sys_run E com H batch (sys_boot com sk) g \<Longrightarrow>
      a \<in> H \<Longrightarrow> Block_digest E b = qc_hash qc \<Longrightarrow> b_round b = qc_round qc \<Longrightarrow>
      safety_rule_2 b = Ok True \<Longrightarrow> stored_block E H f b \<Longrightarrow> 0 < qc_round qc \<Longrightarrow>
      (\<And>tc. b_tc b = Some tc \<Longrightarrow> TC_verify E tc com = Ok () \<and> tc_authentic H f tc) \<Longrightarrow>
      QC_eq (b_qc b) QC_genesis \<or> (certified E com H f (b_qc b) \<and> P (b_qc b)) \<Longrightarrow> P qc"
  shows "P qc"
  using run c
proof (induction arbitrary: qc rule: rtranclp_induct)
  case base
  then show ?case using boot_not_certified [OF m] by blast
next
  case (step g g')
  let ?A = "possible E com H batch g"
  have before: "sys_ok E com H ?A g" by (rule sys_run_ok [OF step.hyps(1)])
  have after: "sys_ok E com H ?A g'" and log: "log_kept H g g'"
    using sys_step_ok [OF step.hyps(2) before] by simp_all
  have run_g': "sys_run E com H batch (sys_boot com sk) g'" using step.hyps by simp
  have log': "log_kept H g' f"
    by (rule sys_run_log [OF step.prems(1) sys_run_ok [OF run_g']])
  have log_f: "log_kept H g f" by (rule log_kept_trans [OF log log'])
  have run_f: "sys_run E com H batch g f"
    using step.hyps(2) step.prems(1) by (rule converse_rtranclp_into_rtranclp)
  obtain a where a: "a \<in> qc_signers qc" "a \<in> H" by (rule certified_signer [OF m step.prems(2)])
  obtain v b where b: "voted_for E ?A (g' a) v b" "Block_digest E b = qc_hash qc"
    "b_round b = qc_round qc" "stored_block E H g' b" "0 < qc_round qc"
    by (rule signer_voted [OF after step.prems(2) a])
  have com: "c_committee (g' a) = com" using after a(2) by (simp add: sys_ok_def)
  have pr: "processed E ?A (g' a) b" and r2: "safety_rule_2 b = Ok True"
    using b(1) by (simp_all add: voted_for_def)
  note cert = processed_certified [OF pr com]
  have "certified E com H g (b_qc b) \<Longrightarrow> P (b_qc b)" using step.IH [OF run_f] .
  then have "QC_eq (b_qc b) QC_genesis \<or> (certified E com H f (b_qc b) \<and> P (b_qc b))"
    using cert(1) certified_mono [OF log_f] by blast
  moreover have "b_tc b = Some tc \<Longrightarrow> TC_verify E tc com = Ok () \<and> tc_authentic H f tc" for tc
    using cert(2) tc_authentic_mono [OF log_f] by blast
  ultimately show ?case
    using voted [OF certified_mono [OF log' step.prems(2)] step.hyps(1) a(2) b(2,3) r2
        stored_block_mono [OF log' b(4)] b(5)] by blast
qed

lemma certified_from_genesis:
  assumes "mostly_correct com H" "sys_run E com H batch (sys_boot com sk) f" "certified E com H f qc"
  shows "extends E H f (qc_hash qc) Digest_default"
proof -
  have "sys_run E com H batch f f" by simp
  from assms(1,2) this assms(3) show ?thesis
  proof (induction rule: certified_induct)
    case (voted g a b qc)
    then have "extends E H f (Block_parent b) Digest_default"
      by (auto simp: Block_parent_def QC_eq_def QC_genesis_def intro: extends.here)
    with voted(4,7) show ?case by (metis extends.parent)
  qed
qed

section \<open>The locking argument\<close>

lemma word_Suc: "q + 1 = (r :: u64) \<Longrightarrow> 0 < r \<Longrightarrow> unat r = Suc (unat q)"
  by (metis Suc_eq_plus1 unatSuc word_gt_0 add.commute)

text \<open>
  A timeout certificate of a round not below the one in which \<open>b1\<close> was certified reports the round
  of the certificate in \<open>b1\<close>, or a later one.
\<close>

lemma tc_reports:
  assumes m: "mostly_correct com H" and ok: "sys_ok E com H (possible E com H batch f) f"
    and na: "no_accident E H batch f"
    and c1: "certified E com H f qc1" and b1: "stored_block E H f b1" "Block_digest E b1 = qc_hash qc1"
    and c0: "certified E com H f (b_qc b1)"
    and tc: "TC_verify E tc com = Ok ()" "tc_authentic H f tc" and r: "qc_round qc1 \<le> tc_round tc"
  shows "qc_round (b_qc b1) \<le> Max (set (high_qc_rounds tc))"
proof -
  have "stake_quorum com (tc_signers tc)" using TC_verify_quorum m tc(1) by (auto simp: mostly_correct_def)
  then obtain a where a: "a \<in> tc_signers tc" "a \<in> qc_signers qc1" "a \<in> H"
    using quorums_share_correct [OF m _ certified_quorum [OF m c1]] by blast
  then obtain s q where e: "(a, s, q) \<in> set (tc_votes tc)" by (auto simp: tc_signers_def)
  with tc(2) a(3) obtain t where t: "CreatedTimeout t \<in> set (c_out (f a))" "t_round t = tc_round tc"
    "qc_round (t_high_qc t) = q"
    unfolding tc_authentic_def by fastforce
  obtain v where v: "CreatedVote v \<in> set (c_out (f a))" "v_hash v = qc_hash qc1" "v_round v = qc_round qc1"
    by (rule signer_voted [OF ok c1 a(2,3)])
  from ok a(3) have s: "signing_ok (f a)" and l: "lock_ok E (possible E com H batch f) (f a)"
    and com: "c_committee (f a) = com" by (simp_all add: sys_ok_def)
  have "\<not> vote_after (CreatedTimeout t) (CreatedVote v)"
    using r t(2) v(3) by (auto simp: vote_after_def)
  moreover have "sorted_wrt (\<lambda>x y. vote_after x y \<and> timeout_covers E (possible E com H batch f) (f a) x y)
      (c_out (f a))"
    using s l by (simp add: signing_ok_def lock_ok_def sorted_wrt_iff_nth_less)
  ultimately have "timeout_covers E (possible E com H batch f) (f a) (CreatedVote v) (CreatedTimeout t)"
    using sorted_wrt_pair [OF _ v(1) t(1)] by blast
  then obtain b where b: "voted_for E (possible E com H batch f) (f a) v b"
    "qc_round (b_qc b) \<le> qc_round (t_high_qc t)"
    by (auto simp: timeout_covers_def)
  then have sb: "stored_block E H f b" and "Vote_new E b (c_name (f a)) (c_secret (f a)) = Ok v"
    using a(3) by (auto simp: voted_for_def stored_block_def)
  then have db: "Block_digest E b = qc_hash qc1" using v(2) Vote_new_Ok by metis
  have par: "qc_hash (b_qc b) = qc_hash (b_qc b1)"
    using same_digest_parent [OF na sb b1(1)] db b1(2) by (simp add: Block_parent_def)
  obtain x where x: "stored_block E H f x" "Block_digest E x = qc_hash (b_qc b1)"
    by (rule certified_signer [OF m c0], rule signer_voted [OF ok c0])
  then have "qc_hash (b_qc b1) \<noteq> Digest_default" using na unfolding no_accident_def by metis
  then have "\<not> QC_eq (b_qc b) QC_genesis" using par by (simp add: QC_eq_def QC_genesis_def)
  moreover have "processed E (possible E com H batch f) (f a) b" using b(1) by (simp add: voted_for_def)
  ultimately have "certified E com H f (b_qc b)" using processed_certified(1) com by blast
  then have "qc_round (b_qc b) = qc_round (b_qc b1)"
    using certified_round [OF m ok na _ x(1)] x(2) par c0 by metis
  then have "qc_round (b_qc b1) \<le> q" using b(2) t(3) by simp
  moreover have "q \<in> set (high_qc_rounds tc)" using e by (force simp: high_qc_rounds_def)
  ultimately show ?thesis by (meson List.finite_set Max_ge order_trans)
qed

text \<open>Once two consecutive rounds are certified, every later certificate extends the first.\<close>

lemma later_extends:
  assumes m: "mostly_correct com H" and run: "sys_run E com H batch (sys_boot com sk) f"
    and na: "no_accident E H batch f"
    and c1: "certified E com H f qc1" and b1: "stored_block E H f b1" "Block_digest E b1 = qc_hash qc1"
    and c0: "certified E com H f (b_qc b1)" and two: "qc_round (b_qc b1) + 1 = qc_round qc1"
    and c: "certified E com H f qc" and r: "qc_round (b_qc b1) \<le> qc_round qc"
  shows "extends E H f (qc_hash qc) (qc_hash (b_qc b1))"
proof -
  let ?r0 = "qc_round (b_qc b1)"
  have ok: "sys_ok E com H (possible E com H batch f) f" by (rule sys_run_ok [OF run])
  have pos: "0 < qc_round q" if "certified E com H f q" for q
    by (rule certified_signer [OF m that], rule signer_voted [OF ok that])
  have r1: "unat (qc_round qc1) = Suc (unat ?r0)" by (rule word_Suc [OF two pos [OF c1]])
  have "sys_run E com H batch f f" by simp
  from m run this c r show ?thesis
  proof (induction rule: certified_induct)
    case (voted g a b qc)
    have parent: "extends E H f (qc_hash qc) x" if "extends E H f (Block_parent b) x" for x
      using extends.parent [OF voted(7) that] voted(4) by simp
    consider "qc_round qc = ?r0" | "qc_round qc = qc_round qc1" | "unat (qc_round qc1) < unat (qc_round qc)"
      using voted(11) r1 by (metis Suc_leI le_neq_implies_less word_le_nat_alt word_unat_eq_iff)
    then show ?case
    proof cases
      case 1
      then have "qc_hash qc = qc_hash (b_qc b1)" using certified_unique [OF m ok voted(1) c0] by simp
      then show ?thesis by (simp add: extends.here)
    next
      case 2
      then have "qc_hash qc = Block_digest E b1" using certified_unique [OF m ok voted(1) c1] b1(2) by simp
      then show ?thesis
        using extends.parent [OF b1(1) extends.here] by (simp add: Block_parent_def)
    next
      case 3
      have Suc: "unat (qc_round qc) = Suc (unat q)" if "q + 1 = qc_round qc" for q
        using word_Suc [OF that voted(8)] .
      have "?r0 \<le> qc_round (b_qc b)"
      proof (cases "qc_round (b_qc b) + 1 = b_round b")
        case True
        then show ?thesis using 3 r1 Suc voted(5) by (simp add: word_le_nat_alt)
      next
        case False
        then obtain tc where tc: "b_tc b = Some tc" "tc_round tc + 1 = qc_round qc"
          "Max (set (high_qc_rounds tc)) \<le> qc_round (b_qc b)"
          using voted(5,6) by (auto simp: safety_rule_2_def split: option.splits if_splits)
        have "qc_round qc1 \<le> tc_round tc" using 3 Suc [OF tc(2)] by (simp add: word_le_nat_alt)
        with voted(9) [OF tc(1)] have "?r0 \<le> Max (set (high_qc_rounds tc))"
          using tc_reports [OF m ok na c1 b1 c0] by blast
        with tc(3) show ?thesis by (rule order_trans [rotated])
      qed
      moreover have "\<not> QC_eq (b_qc b) QC_genesis"
        using calculation pos [OF c0] by (auto simp: QC_eq_def QC_genesis_def)
      ultimately have "extends E H f (Block_parent b) (qc_hash (b_qc b1))"
        using voted(10) by (simp add: Block_parent_def)
      then show ?thesis by (rule parent)
    qed
  qed
qed

end
