(* ===== verification/Concrete.thy ===== *)
theory Concrete
  imports Core_Model
begin

text \<open>
  A concrete environment and small committees, on which the properties are applied to runs of the
  code: the hash takes one byte of a block's preimage (the low byte of its round), every signature
  verifies, the database is the list of puts, and the serializer knows the blocks of the runs.
\<close>

definition toy_bytes :: "byte \<Rightarrow> byte list" where
  "toy_bytes n = n # replicate 31 0"

definition toy_digest :: "byte \<Rightarrow> Digest" where
  "toy_digest n = Digest (first32 (toy_bytes n))"

definition toy_sig_bytes :: "byte list" where
  "toy_sig_bytes = 1 # replicate 63 0"

definition toy_signature :: Signature where
  "toy_signature = \<lparr>part1 = first32 toy_sig_bytes, part2 = first32 (drop 32 toy_sig_bytes)\<rparr>"

definition toy_block :: "QC \<Rightarrow> Round \<Rightarrow> Digest list \<Rightarrow> Block" where
  "toy_block qc r payload = \<lparr>b_qc = qc, b_tc = None, b_author = PublicKey 1, b_round = r,
     b_payload = payload, b_signature = toy_signature\<rparr>"

definition toy_qc :: "byte \<Rightarrow> Round \<Rightarrow> QC" where
  "toy_qc d r = \<lparr>qc_hash = toy_digest d, qc_round = r, qc_votes = [(PublicKey 1, toy_signature)]\<rparr>"

text \<open>Blocks of rounds 1, 2 and 3, each on top of the one before.\<close>

definition B1 :: Block where "B1 = toy_block QC_genesis 1 []"
definition B2 :: Block where "B2 = toy_block (toy_qc 2 1) 2 []"
definition B3 :: Block where "B3 = toy_block (toy_qc 3 2) 3 []"

definition toy_ser :: "Block \<Rightarrow> byte list" where
  "toy_ser b = (if b = B1 then [1] else if b = B2 then [2] else if b = B3 then [3] else [])"

definition toy_de :: "byte list \<Rightarrow> string + Block" where
  "toy_de bs = (if bs = [1] then Inr B1 else if bs = [2] then Inr B2 else if bs = [3] then Inr B3
     else Inl ''unknown block'')"

definition toy_env :: env where
  "toy_env =
     \<lparr>sha512 = (\<lambda>bs. toy_bytes (if length bs > 32 then bs ! 32 + 1 else 1)),
      ed_sign = (\<lambda>sk m. Some toy_sig_bytes), ed_sig_ok = (\<lambda>s. True), ed_key_ok = (\<lambda>k. True),
      ed_verify_strict = (\<lambda>k m s. True), ed_verify_batch = (\<lambda>ms ss ks. True),
      b64_encode = map (\<lambda>b. char_of (unat b)), b64_decode = (\<lambda>s. Ok (map of_char s)),
      db_get = (\<lambda>h k. Inr (map_of h k)),
      ser_block = toy_ser, de_block = toy_de\<rparr>"

definition toy_address :: SocketAddr where
  "toy_address = SocketAddr (V4 0x7F000001) 8000"

definition solo :: Committee where
  "solo = Committee_new [(PublicKey 1, 1, toy_address)] 1"

definition four :: Committee where
  "four = Committee_new [(PublicKey 3, 1, toy_address), (PublicKey 1, 1, toy_address),
     (PublicKey 4, 1, toy_address), (PublicKey 2, 1, toy_address)] 1"

definition solo_start :: Core where
  "solo_start = snd (core_boot (Core_new (PublicKey 1) solo (SecretKey 0) []))"

text \<open>The one-node committee handles its three blocks.\<close>

definition solo1 :: Core where "solo1 = snd (handle_proposal toy_env B1 solo_start)"
definition solo2 :: Core where "solo2 = snd (handle_proposal toy_env B2 solo1)"
definition solo3 :: Core where "solo3 = snd (handle_proposal toy_env B3 solo2)"

section \<open>Evaluating the environment\<close>

lemma toy_digest_inject [simp]: "toy_digest n = toy_digest m \<longleftrightarrow> n = m"
proof
  assume "toy_digest n = toy_digest m"
  then have "bytes32 (first32 (toy_bytes n)) = bytes32 (first32 (toy_bytes m))"
    by (simp add: toy_digest_def)
  then show "n = m" by (simp add: toy_bytes_def)
qed simp

lemma toy_digest_zero: "Digest_default = toy_digest 0"
  by (simp add: Digest_default_def toy_digest_def toy_bytes_def first32_def of_be_bytes_def
      numeral_eq_Suc)

lemma toy_digest_default [simp]:
  "toy_digest n = Digest_default \<longleftrightarrow> n = 0" "Digest_default = toy_digest n \<longleftrightarrow> n = 0"
  by (auto simp: toy_digest_zero)

lemma toy_sha [simp]:
  "sha_digest toy_env bs = toy_digest (if length bs > 32 then bs ! 32 + 1 else 1)"
  by (simp add: sha_digest_def toy_env_def toy_digest_def)

lemma to_le_bytes_0 [simp]: "to_le_bytes x ! 0 = ucast x"
  by (simp add: to_le_bytes_def)

lemma toy_Block_digest [simp]: "Block_digest toy_env b = toy_digest (ucast (b_round b) + 1)"
  by (simp add: Block_digest_def) (simp add: Block_preimage_def nth_append to_le_bytes_0 [simplified])

lemma toy_Vote_digest [simp]: "Vote_digest toy_env v = toy_digest (ucast (v_round v) + 1)"
  by (simp add: Vote_digest_def) (simp add: Vote_preimage_def nth_append)

lemma toy_verify [simp]: "Signature_verify toy_env s d pk = Ok ()"
  by (simp add: Signature_verify_iff toy_env_def)

lemma toy_batch_complete [simp]: "batch_complete toy_env"
  by (simp add: batch_complete_def toy_env_def)

lemma toy_batch [simp]: "Signature_verify_batch toy_env d votes = Ok ()"
  by (rule Signature_verify_batch_ok) auto

lemma toy_request [simp]: "request_signature toy_env sk d = Ok toy_signature"
  by (simp add: request_signature_def Signature_new_def toy_env_def toy_signature_def)

lemma toy_store [simp]: "Store_read toy_env db k = Ok (map_of db k)"
  by (simp add: Store_read_def toy_env_def)

lemma toy_serial [simp]: "ser_block toy_env = toy_ser" "de_block toy_env = toy_de"
  by (simp_all add: toy_env_def)

lemma toy_rocks [simp]: "rocks_ok toy_env" "rocks_fresh toy_env"
  by (simp_all add: rocks_ok_def rocks_fresh_def toy_env_def)

lemma toy_sign_correct [simp]: "sign_correct toy_env sk pk"
  by (simp add: sign_correct_def toy_env_def toy_sig_bytes_def)

lemma toy_Vote_new [simp]:
  "Vote_new toy_env b author sk = Ok \<lparr>v_hash = toy_digest (ucast (b_round b) + 1), v_round = b_round b,
     v_author = author, v_signature = toy_signature\<rparr>"
  by (simp add: Vote_new_def Let_def)

lemma toy_Timeout_new [simp]:
  "Timeout_new toy_env qc r author sk = Ok \<lparr>t_high_qc = qc, t_round = r, t_author = author,
     t_signature = toy_signature\<rparr>"
  by (simp add: Timeout_new_def Let_def)

lemma toy_block_sel [simp]:
  "b_qc (toy_block qc r p) = qc" "b_tc (toy_block qc r p) = None" "b_author (toy_block qc r p) = PublicKey 1"
  "b_round (toy_block qc r p) = r" "b_payload (toy_block qc r p) = p"
  by (simp_all add: toy_block_def)

lemma toy_qc_sel [simp]:
  "qc_hash (toy_qc d r) = toy_digest d" "qc_round (toy_qc d r) = r"
  "qc_votes (toy_qc d r) = [(PublicKey 1, toy_signature)]"
  by (simp_all add: toy_qc_def)

lemma toy_block_eq [simp]: "toy_block qc r p = toy_block qc' r' p' \<longleftrightarrow> qc = qc' \<and> r = r' \<and> p = p'"
  by (auto simp: toy_block_def)

section \<open>Committees\<close>

lemma solo_authorities [simp]: "authorities solo = [(PublicKey 1, \<lparr>au_stake = 1, au_address = toy_address\<rparr>)]"
  by (simp add: solo_def Committee_new_def)

lemma solo_facts [simp]:
  "committee_stake solo (PublicKey 1) = 1" "quorum_threshold solo = 1" "total_stake solo = 1"
  "committee_size solo = 1" "committee_members solo = {PublicKey 1}" "stake_of solo (PublicKey 1) = 1"
  "get_leader solo r = Ok (PublicKey 1)" "committee_valid solo"
  by (simp_all add: committee_stake_def quorum_threshold_def total_votes_def total_stake_def
      committee_size_def committee_members_def stake_of_def get_leader_def committee_valid_def)

lemma solo_QC_verify [simp]: "QC_verify toy_env (toy_qc d r) solo = Ok ()"
  by (simp add: QC_verify_Ok_iff names_weight_def)

lemma QC_eq_simps [simp]:
  "QC_eq QC_genesis QC_genesis" "QC_eq (toy_qc d r) QC_genesis \<longleftrightarrow> d = 0 \<and> r = 0"
  by (simp_all add: QC_eq_def QC_genesis_def)

lemma genesis_sel [simp]:
  "qc_round QC_genesis = 0" "qc_hash QC_genesis = Digest_default" "b_qc Block_genesis = QC_genesis"
  "b_round Block_genesis = 0" "b_payload Block_genesis = []"
  by (simp_all add: QC_genesis_def Block_genesis_def)

lemma solo_Block_verify [simp]:
  assumes "r \<le> 5 \<or> p \<noteq> []"
  shows "Block_verify toy_env (toy_block QC_genesis r p) solo = Ok ()"
    and "Block_verify toy_env (toy_block (toy_qc d q) r p) solo = Ok ()"
  using assms by (simp_all add: Block_verify_Ok_iff)

lemma solo_Vote_verify [simp]: "v_author v = PublicKey 1 \<Longrightarrow> Vote_verify toy_env v solo = Ok ()"
  by (simp add: Vote_verify_Ok_iff)

text \<open>The definitions to unfold when a handler is run on a concrete state.\<close>

lemmas core_eval =
  core_boot_def propose_if_leader_def generate_proposal_def emit_def Core_new_def
  handle_proposal_def process_verified_def process_qc_def update_high_qc_def advance_round_def
  process_block_def process_delivered_def with_effects_def get_ancestors_def get_parent_block_def
  MempoolDriver_verify_def MempoolDriver_cleanup_def store_block_def Store_write_def
  cleanup_proposer_def commit_def vote_block_def make_vote_def safety_rule_2_def
  increase_last_voted_round_def deliver_vote_def handle_vote_def add_vote_def QCMaker_append_def
  QCMaker_new_def Aggregator_new_def Aggregator_cleanup_def hm_entry_def Let_def ensure_def
  Block_parent_def

lemma small_words [simp]: "\<not> (2 :: u64) \<le> 1" "\<not> (3 :: u64) \<le> 1" "\<not> (4 :: u64) \<le> 1" "\<not> (5 :: u64) \<le> 1"
  "\<not> (3 :: u32) \<le> 1" "\<not> (3 :: u32) \<le> 2" "\<not> (2 :: 256 word) \<le> 1" "\<not> (3 :: 256 word) \<le> 1" "\<not> (4 :: 256 word) \<le> 1"
  by (simp_all add: word_le_nat_alt)

section \<open>The run\<close>

abbreviation toy_vote :: "byte \<Rightarrow> Round \<Rightarrow> Vote" where
  "toy_vote d r \<equiv> \<lparr>v_hash = toy_digest d, v_round = r, v_author = PublicKey 1, v_signature = toy_signature\<rparr>"

definition solo_state :: "Round \<Rightarrow> Round \<Rightarrow> QC \<Rightarrow> puts \<Rightarrow> Effect list \<Rightarrow> Core" where
  "solo_state r committed qc db out =
     \<lparr>c_name = PublicKey 1, c_committee = solo, c_secret = SecretKey 0, c_db = db, c_round = r,
      last_voted_round = r - 1, last_committed_round = committed, c_high_qc = qc,
      c_aggregator = Aggregator_new solo, c_out = out\<rparr>"

definition out0 :: "Effect list" where
  "out0 = [ResetTimer, ToProposer (PMake 1 QC_genesis None)]"

definition out1 :: "Effect list" where
  "out1 = out0 @ [ToProposer (PCleanup []), CreatedVote (toy_vote 2 1), ResetTimer,
     ToProposer (PMake 2 (toy_qc 2 1) None)]"

definition out2 :: "Effect list" where
  "out2 = out1 @ [ToProposer (PCleanup []), ToMempool (MempoolCleanup 0), ToPayloadWaiter (PWCleanup 0),
     CreatedVote (toy_vote 3 2), ResetTimer, ToProposer (PMake 3 (toy_qc 3 2) None)]"

definition out3 :: "Effect list" where
  "out3 = out2 @ [ToProposer (PCleanup []), ToMempool (MempoolCleanup 1), ToPayloadWaiter (PWCleanup 1),
     ToCommit B1, CreatedVote (toy_vote 4 3), ResetTimer, ToProposer (PMake 4 (toy_qc 4 3) None)]"

definition db1 :: puts where "db1 = [(Digest_to_vec (toy_digest 2), [1])]"
definition db2 :: puts where "db2 = (Digest_to_vec (toy_digest 3), [2]) # db1"
definition db3 :: puts where "db3 = (Digest_to_vec (toy_digest 4), [3]) # db2"

lemma toy_ser_simps [simp]: "toy_ser B1 = [1]" "toy_ser B2 = [2]" "toy_ser B3 = [3]"
  by (simp_all add: toy_ser_def B1_def B2_def B3_def)

lemma toy_de_simps [simp]: "toy_de [1] = Inr B1" "toy_de [2] = Inr B2" "toy_de [3] = Inr B3"
  by (simp_all add: toy_de_def)

lemma B_sel [simp]:
  "b_qc B1 = QC_genesis" "b_qc B2 = toy_qc 2 1" "b_qc B3 = toy_qc 3 2"
  "b_round B1 = 1" "b_round B2 = 2" "b_round B3 = 3"
  "b_payload B1 = []" "b_payload B2 = []" "b_payload B3 = []"
  "b_tc B1 = None" "b_tc B2 = None" "b_tc B3 = None"
  "b_author B1 = PublicKey 1" "b_author B2 = PublicKey 1" "b_author B3 = PublicKey 1"
  by (simp_all add: B1_def B2_def B3_def)

lemma B_verify [simp]:
  "Block_verify toy_env B1 solo = Ok ()" "Block_verify toy_env B2 solo = Ok ()"
  "Block_verify toy_env B3 solo = Ok ()"
  by (simp_all add: B1_def B2_def B3_def)

lemma solo_boot: "core_boot (Core_new (PublicKey 1) solo (SecretKey 0) [])
    = (Ok (), solo_state 1 0 QC_genesis [] out0)"
  by (simp add: core_eval solo_state_def out0_def)

lemma solo_start_state: "solo_start = solo_state 1 0 QC_genesis [] out0"
  by (simp add: solo_start_def solo_boot)

lemma solo_step1: "handle_proposal toy_env B1 (solo_state 1 0 QC_genesis [] out0)
    = (Ok (), solo_state 2 0 (toy_qc 2 1) db1 out1)"
  by (simp add: core_eval solo_state_def out1_def db1_def toy_qc_def [symmetric])

lemma solo_step2: "handle_proposal toy_env B2 (solo_state 2 0 (toy_qc 2 1) db1 out1)
    = (Ok (), solo_state 3 0 (toy_qc 3 2) db2 out2)"
  by (simp add: core_eval solo_state_def out2_def db1_def db2_def toy_qc_def [symmetric])

lemma solo_step3: "handle_proposal toy_env B3 (solo_state 3 0 (toy_qc 3 2) db2 out2)
    = (Ok (), solo_state 4 1 (toy_qc 4 3) db3 out3)"
  by (simp add: core_eval solo_state_def out3_def db1_def db2_def db3_def toy_qc_def [symmetric]
      commit_ancestors.simps)

lemma solo_states:
  "solo1 = solo_state 2 0 (toy_qc 2 1) db1 out1"
  "solo2 = solo_state 3 0 (toy_qc 3 2) db2 out2"
  "solo3 = solo_state 4 1 (toy_qc 4 3) db3 out3"
  by (simp_all add: solo1_def solo2_def solo3_def solo_start_state solo_step1 solo_step2 solo_step3)

lemma solo_state_sel [simp]:
  "c_name (solo_state r com qc db out) = PublicKey 1" "c_committee (solo_state r com qc db out) = solo"
  "c_db (solo_state r com qc db out) = db" "c_out (solo_state r com qc db out) = out"
  "c_high_qc (solo_state r com qc db out) = qc" "c_round (solo_state r com qc db out) = r"
  "last_committed_round (solo_state r com qc db out) = com"
  "last_voted_round (solo_state r com qc db out) = r - 1"
  "c_secret (solo_state r com qc db out) = SecretKey 0"
  "c_aggregator (solo_state r com qc db out) = Aggregator_new solo"
  by (simp_all add: solo_state_def)

text \<open>The blocks among these puts.\<close>

lemma toy_stored:
  "(Digest_to_vec (Block_digest toy_env b), ser_block toy_env b) \<in> set db3 \<longleftrightarrow> b \<in> {B1, B2, B3}"
proof -
  have "toy_ser b = [1] \<longleftrightarrow> b = B1" "toy_ser b = [2] \<longleftrightarrow> b = B2" "toy_ser b = [3] \<longleftrightarrow> b = B3"
    by (auto simp: toy_ser_def B1_def B2_def B3_def)
  then show ?thesis by (auto simp: db1_def db2_def db3_def)
qed

end
