(* ===== verification/Agreement.thy ===== *)
theory Agreement
  imports Safety Concrete
begin

text \<open>
  From certificates to what correct nodes hand to the application: the blocks that \<open>commit\<close> sends
  are read back from a node's own store, hang below a chain of two consecutive certified rounds, and
  therefore lie on one chain for all correct nodes.
\<close>

definition block_ref :: "'a env_scheme \<Rightarrow> Block \<Rightarrow> Digest" where
  "block_ref E b = (if b = Block_genesis then Digest_default else Block_digest E b)"

lemma Store_read_put:
  assumes "rocks_ok E" "rocks_fresh E" and "Store_read E db k = Ok (Some v)"
  shows "(k, v) \<in> set db"
  using assms(3)
proof (induction db)
  case Nil
  then show ?case using assms(2) by (simp add: Store_read_def rocks_fresh_def)
next
  case (Cons kv db)
  obtain k' v' where kv: "kv = (k', v')" by (cases kv)
  show ?case
  proof (cases "k' = k")
    case True
    then show ?thesis
      using Cons.prems kv db.kv_same [OF assms(1), of k v' db] by (simp add: Store_write_def)
  next
    case False
    then show ?thesis
      using Cons kv db.kv_other [OF assms(1), of k k' v' db] by (simp add: Store_write_def)
  qed
qed

text \<open>A block that was reached from a processed block: the genesis, or one processed and stored here.\<close>

definition reached_block ::
  "'a env_scheme \<Rightarrow> (CoreEvent \<Rightarrow> bool) \<Rightarrow> Core \<Rightarrow> Block \<Rightarrow> bool" where
  "reached_block E A c x \<longleftrightarrow> x = Block_genesis \<or> (processed E A c x \<and> block_stored E c x)"

lemma genesis_qc [simp]: "QC_eq (b_qc Block_genesis) QC_genesis"
  by (simp add: Block_genesis_def QC_eq_def)

lemma genesis_parent [simp]: "Block_parent Block_genesis = Digest_default"
  by (simp add: Block_parent_def Block_genesis_def QC_genesis_def)

lemma genesis_qc_parent: "QC_eq (b_qc x) QC_genesis \<Longrightarrow> Block_parent x = Digest_default"
  by (simp add: Block_parent_def QC_eq_def QC_genesis_def)

lemma link_cases:
  assumes m: "mostly_correct com H" and rocks: "rocks_ok E" "rocks_fresh E"
    and ok: "sys_ok E com H (possible E com H batch f) f" and na: "no_accident E H batch f"
    and a: "a \<in> H" and x: "x = Block_genesis \<or> processed E (possible E com H batch f) (f a) x"
    and link: "parent_link E (f a) x p"
  obtains (genesis) "QC_eq (b_qc x) QC_genesis" "p = Block_genesis"
  | (found) "\<not> QC_eq (b_qc x) QC_genesis" "certified E com H f (b_qc x)"
      "processed E (possible E com H batch f) (f a) p" "block_stored E (f a) p"
      "Block_digest E p = Block_parent x"
proof (cases "QC_eq (b_qc x) QC_genesis")
  case True
  then show ?thesis using link genesis by (auto simp: parent_link_def)
next
  case False
  then have pr: "processed E (possible E com H batch f) (f a) x" using x by auto
  have com: "c_committee (f a) = com" and l: "lock_ok E (possible E com H batch f) (f a)"
    using ok a by (simp_all add: sys_ok_def)
  have cert: "certified E com H f (b_qc x)" using processed_certified(1) [OF pr com] False by simp
  obtain w where w: "stored_block E H f w" "Block_digest E w = Block_parent x"
    unfolding Block_parent_def
    by (rule certified_signer [OF m cert], rule signer_voted [OF ok cert])
  from link obtain ps db where db: "c_db (f a) = ps @ db" "parent_in E db x = Some p"
    by (auto simp: parent_link_def)
  then obtain bytes where bytes: "Store_read E db (Digest_to_vec (Block_parent x)) = Ok (Some bytes)"
    "de_block E bytes = Inr p"
    using parent_in_read [OF False] by blast
  then have put: "(Digest_to_vec (Block_parent x), bytes) \<in> set (c_db (f a))"
    using Store_read_put [OF rocks bytes(1)] db(1) by simp
  then have "put_ok E (possible E com H batch f) (f a) (Digest_to_vec (Block_parent x), bytes)"
    using l by (simp add: lock_ok_def)
  moreover have "\<not> batch (Digest_to_vec (Block_parent x)) bytes"
    using na w unfolding no_accident_def by metis
  ultimately obtain b where b: "Block_parent x = Block_digest E b" "bytes = ser_block E b"
    "processed E (possible E com H batch f) (f a) b"
    by (auto simp: put_ok_def)
  then have st: "block_stored E (f a) b" using put by (simp add: block_stored_def)
  then have "de_block E (ser_block E b) = Inr b"
    using na a unfolding no_accident_def stored_block_def by blast
  then have "p = b" using b(2) bytes(2) by simp
  then show ?thesis using found [OF False cert] b st by simp
qed

lemma links_extend:
  assumes m: "mostly_correct com H" and rocks: "rocks_ok E" "rocks_fresh E"
    and ok: "sys_ok E com H (possible E com H batch f) f" and na: "no_accident E H batch f"
    and a: "a \<in> H" and links: "(parent_link E (f a))\<^sup>*\<^sup>* x y"
    and x: "reached_block E (possible E com H batch f) (f a) x"
  shows "reached_block E (possible E com H batch f) (f a) y
    \<and> extends E H f (block_ref E x) (block_ref E y)"
  using links
proof (induction rule: rtranclp_induct)
  case base
  show ?case using x by (simp add: extends.here)
next
  case (step y p)
  let ?A = "possible E com H batch f"
  have y: "reached_block E ?A (f a) y" using step.IH by simp
  then have y': "y = Block_genesis \<or> processed E ?A (f a) y" by (auto simp: reached_block_def)
  have up: "extends E H f (Block_digest E z) (Block_parent z)" if "block_stored E (f a) z" for z
    using that a extends.parent [OF _ extends.here] unfolding stored_block_def by blast
  have "reached_block E ?A (f a) p \<and> extends E H f (block_ref E y) (block_ref E p)"
  proof (rule link_cases [OF m rocks ok na a y' step.hyps(2)])
    assume g: "QC_eq (b_qc y) QC_genesis" "p = Block_genesis"
    then show ?thesis
      using y up [of y] by (auto simp: reached_block_def block_ref_def genesis_qc_parent intro: extends.here)
  next
    assume p: "\<not> QC_eq (b_qc y) QC_genesis" "processed E ?A (f a) p" "block_stored E (f a) p"
      "Block_digest E p = Block_parent y"
    then have ny: "y \<noteq> Block_genesis" by auto
    with y have "block_stored E (f a) y" by (simp add: reached_block_def)
    then have "extends E H f (block_ref E y) (Block_digest E p)"
      using up [of y] ny p(4) by (simp add: block_ref_def)
    moreover have "extends E H f (Block_digest E p) (block_ref E p)"
      using up [OF p(3)] by (auto simp: block_ref_def intro: extends.here)
    ultimately show ?thesis using p extends_trans by (auto simp: reached_block_def)
  qed
  with step.IH extends_trans show ?case by blast
qed

lemma links_from_genesis:
  assumes "(parent_link E c)\<^sup>*\<^sup>* Block_genesis y"
  shows "y = Block_genesis"
  using assms
proof (induction rule: rtranclp_induct)
  case (step y z)
  then show ?case by (auto simp: parent_link_def)
qed simp

text \<open>
  The head of a committed chain: the genesis, or a block certified one round below a certified block
  on top of it.
\<close>

lemma committed_head:
  assumes m: "mostly_correct com H" and rocks: "rocks_ok E" "rocks_fresh E"
    and ok: "sys_ok E com H (possible E com H batch f) f" and na: "no_accident E H batch f"
    and a: "a \<in> H" and x: "ToCommit x \<in> set (c_out (f a))"
  obtains (genesis) "x = Block_genesis"
  | (head) b0 b1 qc1 where "extends E H f (Block_digest E b0) (block_ref E x)"
      "certified E com H f qc1" "stored_block E H f b1" "Block_digest E b1 = qc_hash qc1"
      "certified E com H f (b_qc b1)" "qc_round (b_qc b1) + 1 = qc_round qc1"
      "qc_hash (b_qc b1) = Block_digest E b0"
proof -
  let ?A = "possible E com H batch f"
  have "committed_for E ?A (f a) x" using ok a x by (simp add: sys_ok_def lock_ok_def)
  then obtain b b1 b0 where b: "processed E ?A (f a) b" "parent_link E (f a) b b1"
    "parent_link E (f a) b1 b0" "b_round b0 + 1 = b_round b1" "(parent_link E (f a))\<^sup>*\<^sup>* b0 x"
    unfolding committed_for_def by blast
  show ?thesis
  proof (cases "b0 = Block_genesis")
    case True
    then have "x = Block_genesis" using links_from_genesis [of E "f a" x] b(5) by simp
    then show ?thesis by (rule genesis)
  next
    case b0: False
    obtain "certified E com H f (b_qc b)" and b1: "processed E ?A (f a) b1" "block_stored E (f a) b1"
      "Block_digest E b1 = Block_parent b"
    proof (rule link_cases [OF m rocks ok na a disjI2 [OF b(1)] b(2)])
      assume "b1 = Block_genesis"
      then have "b0 = Block_genesis" using links_from_genesis b(3) by blast
      with b0 show thesis by simp
    qed (rule that)
    then have c1: "certified E com H f (b_qc b)" and s1: "stored_block E H f b1"
      using a by (auto simp: stored_block_def)
    have r1: "b_round b1 = qc_round (b_qc b)"
      by (rule certified_round [OF m ok na c1 s1]) (use b1(3) in \<open>simp add: Block_parent_def\<close>)
    obtain c0: "certified E com H f (b_qc b1)" and p0: "processed E ?A (f a) b0" "block_stored E (f a) b0"
      "Block_digest E b0 = Block_parent b1"
    proof (rule link_cases [OF m rocks ok na a disjI2 [OF b1(1)] b(3)])
      assume "b0 = Block_genesis"
      with b0 show thesis by simp
    qed (rule that)
    have s0: "stored_block E H f b0" using p0(2) a by (auto simp: stored_block_def)
    have r0: "b_round b0 = qc_round (b_qc b1)"
      by (rule certified_round [OF m ok na c0 s0]) (use p0(3) in \<open>simp add: Block_parent_def\<close>)
    have re: "reached_block E ?A (f a) b0" using p0(1,2) by (simp add: reached_block_def)
    have "extends E H f (block_ref E b0) (block_ref E x)"
      using links_extend [OF m rocks ok na a b(5) re] by simp
    then have "extends E H f (Block_digest E b0) (block_ref E x)" using b0 by (simp add: block_ref_def)
    then show ?thesis
    proof (rule head [of b0 "b_qc b" b1])
      show "Block_digest E b1 = qc_hash (b_qc b)" using b1(3) by (simp only: Block_parent_def)
      show "qc_round (b_qc b1) + 1 = qc_round (b_qc b)" using b(4) by (simp only: r0 r1)
      show "qc_hash (b_qc b1) = Block_digest E b0" using p0(3) by (simp only: Block_parent_def)
    qed (rule c1 s1 c0)+
  qed
qed

text \<open>
  Agreement of the cores: in any run of a system whose correct nodes run this core, any two blocks
  that correct nodes deliver are on one chain of parent hashes. The property of the nodes with all
  their tasks is in \<open>Cluster_Properties\<close>.
\<close>

lemma core_agreement:
  assumes m: "mostly_correct com H" and rocks: "rocks_ok E" "rocks_fresh E"
    and run: "sys_run E com H batch (sys_boot com sk) f" and na: "no_accident E H batch f"
    and a: "a \<in> H" "ToCommit x \<in> set (c_out (f a))" and a': "a' \<in> H" "ToCommit y \<in> set (c_out (f a'))"
  shows "extends E H f (block_ref E x) (block_ref E y) \<or> extends E H f (block_ref E y) (block_ref E x)"
proof -
  have ok: "sys_ok E com H (possible E com H batch f) f" by (rule sys_run_ok [OF run])
  note lin = extends_linear [OF na]
  have base: "extends E H f (block_ref E z) Digest_default \<or> extends E H f Digest_default (block_ref E z)"
    if "c \<in> H" "ToCommit z \<in> set (c_out (f c))" for c z
  proof (rule committed_head [OF m rocks ok na that])
    assume "z = Block_genesis"
    then show ?thesis by (simp add: block_ref_def extends.here)
  next
    fix b0 b1 :: Block
    assume h: "extends E H f (Block_digest E b0) (block_ref E z)" "certified E com H f (b_qc b1)"
      "qc_hash (b_qc b1) = Block_digest E b0"
    then have "extends E H f (Block_digest E b0) Digest_default"
      using certified_from_genesis [OF m run h(2)] by simp
    with lin [OF h(1)] show ?thesis by blast
  qed
  show ?thesis
  proof (rule committed_head [OF m rocks ok na a])
    assume "x = Block_genesis"
    then show ?thesis using base [OF a'] by (auto simp: block_ref_def)
  next
    fix b0 b1 qc1
    assume h: "extends E H f (Block_digest E b0) (block_ref E x)" "certified E com H f qc1"
      "stored_block E H f b1" "Block_digest E b1 = qc_hash qc1" "certified E com H f (b_qc b1)"
      "qc_round (b_qc b1) + 1 = qc_round qc1" "qc_hash (b_qc b1) = Block_digest E b0"
    show ?thesis
    proof (rule committed_head [OF m rocks ok na a'])
      assume "y = Block_genesis"
      then show ?thesis using base [OF a] by (auto simp: block_ref_def)
    next
      fix d0 d1 qd1
      assume k: "extends E H f (Block_digest E d0) (block_ref E y)" "certified E com H f qd1"
        "stored_block E H f d1" "Block_digest E d1 = qc_hash qd1" "certified E com H f (b_qc d1)"
        "qc_round (b_qc d1) + 1 = qc_round qd1" "qc_hash (b_qc d1) = Block_digest E d0"
      show ?thesis
      proof (cases "qc_round (b_qc b1) \<le> qc_round (b_qc d1)")
        case True
        have "extends E H f (Block_digest E d0) (Block_digest E b0)"
          using later_extends [OF m run na h(2-6) k(5) True] h(7) k(7) by simp
        then show ?thesis using lin [OF extends_trans [OF _ h(1)] k(1)] by blast
      next
        case False
        then have "qc_round (b_qc d1) \<le> qc_round (b_qc b1)" by simp
        then have "extends E H f (Block_digest E b0) (Block_digest E d0)"
          using later_extends [OF m run na k(2-6) h(5)] h(7) k(7) by simp
        then show ?thesis using lin [OF h(1) extends_trans [OF _ k(1)]] by blast
      qed
    qed
  qed
qed

section \<open>A run\<close>

definition solo_system :: "Core \<Rightarrow> system" where
  "solo_system c = (sys_boot solo (\<lambda>_. SecretKey 0))(PublicKey 1 := c)"

lemma solo_authentic:
  "block_authentic toy_env solo {PublicKey 1} (solo_system solo_start) B1"
  "block_authentic toy_env solo {PublicKey 1} (solo_system solo1) B2"
  "block_authentic toy_env solo {PublicKey 1} (solo_system solo2) B3"
  by (simp_all add: block_authentic_def qc_authentic_def qc_signers_def QC_genesis_def solo_system_def
      solo_states out1_def out2_def ex_disj_distrib conj_disj_distribR)

lemma solo_no_accident:
  "no_accident toy_env {PublicKey 1} (\<lambda>k v. False) (solo_system solo3)"
proof -
  have "stored_block toy_env {PublicKey 1} (solo_system solo3) b \<longleftrightarrow> b \<in> {B1, B2, B3}" for b
    using toy_stored [of b] by (simp add: stored_block_def block_stored_def solo_system_def solo_states)
  then show ?thesis by (auto simp: no_accident_def)
qed

lemma solo_mostly_correct: "mostly_correct solo {PublicKey 1}"
  by (simp add: mostly_correct_def)

end
