(* ===== verification/Cluster.thy ===== *)
theory Cluster
  imports Consensus_Runs Agreement
begin

text \<open>
  The nodes of a committee, each with all the tasks of its consensus. A run of the correct nodes is a
  run of the system of cores in \<open>Safety\<close>: what that system assumes of the blocks looped back to a
  core holds, because the synchronizer, the payload waiter and the proposer are the tasks of
  \<open>Consensus_System\<close>.
\<close>

type_synonym cluster = "PublicKey \<Rightarrow> Consensus"

definition cluster_cores :: "PublicKey set \<Rightarrow> system \<Rightarrow> cluster \<Rightarrow> system" where
  "cluster_cores H boot g = (\<lambda>a. if a \<in> H then cs_core (g a) else boot a)"

definition spawned ::
  "Committee \<Rightarrow> (PublicKey \<Rightarrow> Parameters) \<Rightarrow> (PublicKey \<Rightarrow> SecretKey) \<Rightarrow> PublicKey \<Rightarrow> Consensus \<Rightarrow> bool" where
  "spawned com par sk a s \<longleftrightarrow> (\<exists>tasks r. (Consensus_spawn a com (par a) (sk a) [] :: (ConfigError, _) outcome) = Ok tasks
     \<and> consensus_boot tasks = (r, s))"

text \<open>
  The inputs of a turn: no certificate in a proposal that arrives or is made is forged, timeout
  certificates that arrive by themselves verify, and the mempool writes batches.
\<close>

fun cluster_input ::
  "'a env_scheme \<Rightarrow> Committee \<Rightarrow> PublicKey set \<Rightarrow> (Key \<Rightarrow> Value \<Rightarrow> bool) \<Rightarrow> system \<Rightarrow> ConsensusEvent \<Rightarrow>
   Consensus \<Rightarrow> bool"
where
  "cluster_input E com H batch f (Received (Inr (MPropose b))) s' \<longleftrightarrow> block_authentic E com H f b"
| "cluster_input E com H batch f (Received (Inr (MTC tc))) s' \<longleftrightarrow> TC_verify E tc com = Ok ()"
| "cluster_input E com H batch f (StoreWritten k v) s' \<longleftrightarrow> batch k v"
| "cluster_input E com H batch f (ProposerTakes acks) s' \<longleftrightarrow>
     (\<forall>b \<in> looped (pr_out (cs_proposer s')). block_authentic E com H f b)"
| "cluster_input E com H batch f ev s' \<longleftrightarrow> True"

inductive cluster_step ::
  "'a env_scheme \<Rightarrow> Committee \<Rightarrow> PublicKey set \<Rightarrow> (Key \<Rightarrow> Value \<Rightarrow> bool) \<Rightarrow> system \<Rightarrow> cluster \<Rightarrow> cluster \<Rightarrow> bool"
  for E com H batch boot where
  turn: "a \<in> H \<Longrightarrow> consensus_step E ev (g a) = (r, s') \<Longrightarrow> goes_on ev r \<Longrightarrow>
    cluster_input E com H batch (cluster_cores H boot g) ev s' \<Longrightarrow> cluster_step E com H batch boot g (g(a := s'))"

inductive_cases cluster_stepE: "cluster_step E com H batch boot g g'"

definition node_ok ::
  "'a env_scheme \<Rightarrow> Committee \<Rightarrow> PublicKey set \<Rightarrow> (Key \<Rightarrow> Value \<Rightarrow> bool) \<Rightarrow> system \<Rightarrow> Consensus \<Rightarrow> bool" where
  "node_ok E com H batch f s \<longleftrightarrow> links_ok E s \<and> proposals_ok E com (cs_core s)
     \<and> (\<forall>b \<in> set (cs_loopback s). possible E com H batch f (EvLoopback b))"

lemma node_ok_mono: "log_kept H f f' \<Longrightarrow> node_ok E com H batch f s \<Longrightarrow> node_ok E com H batch f' s"
  unfolding node_ok_def using possible_mono by blast

lemma cluster_cores_upd:
  "a \<in> H \<Longrightarrow> cluster_cores H boot (g(a := s)) = (cluster_cores H boot g)(a := cs_core s)"
  by (auto simp: cluster_cores_def fun_eq_iff)

text \<open>What the core handles in a turn is possible and admissible.\<close>

lemma turn_possible:
  assumes n: "node_ok E com H batch f s" and i: "cluster_input E com H batch f ev s'"
    and cev: "core_input ev s = Some cev"
  shows "possible E com H batch f cev \<and> admissible (cs_core s) cev
    \<and> (\<forall>tc. cev = EvMessage (MTC tc) \<longrightarrow> TC_verify E tc com = Ok ())"
  using cev
proof (cases "(ev, s)" rule: core_input.cases)
  case (1 m s1)
  then show ?thesis using i cev by (cases m rule: consensus_dispatch.cases) (auto simp: to_core_def)
next
  case (4 s1)
  then show ?thesis
    using cev n links_admissible [of E s] by (auto simp: node_ok_def split: list.splits)
qed (use i cev in auto)

text \<open>A turn of a node is a step of the system of cores, or leaves it as it is.\<close>

lemma turn_simulates:
  assumes n: "node_ok E com H batch f s" and a: "a \<in> H" "f a = cs_core s"
    and step: "consensus_step E ev s = (r, s')" and ret: "goes_on ev r"
    and i: "cluster_input E com H batch f ev s'" and env: "committee_valid com" "batch_complete E"
  shows "(sys_step E com H batch)\<^sup>=\<^sup>= f (f(a := cs_core s')) \<and> proposals_ok E com (cs_core s')"
proof (cases "core_input ev s")
  case None
  then have same: "cs_core s' = cs_core s" using consensus_step_core [OF step] by simp
  then have "f(a := cs_core s') = f" by (simp add: a(2) [symmetric])
  then show ?thesis using n same by (simp add: node_ok_def)
next
  case (Some cev)
  note p = turn_possible [OF n i Some]
  have h: "core_handle E cev (f a) = (r, cs_core s')" using consensus_step_core [OF step] Some a by simp
  have "completes r" using goes_on_core [OF ret Some] .
  then have "sys_step E com H batch f (f(a := cs_core s'))"
    by (intro sys_step.event [where a = a and g = f and ev = cev and r = r]) (use p h a in simp_all)
  moreover have "proposals_kept E com (cs_core s) (snd (core_handle E cev (cs_core s)))"
    by (rule proposals.core_handle_R) (use p in auto)
  ultimately show ?thesis using n h a env by (simp add: node_ok_def proposals_kept_def)
qed

lemma turn_node_ok:
  assumes n: "node_ok E com H batch f s" and a: "a \<in> H" "f' a = cs_core s'"
    and step: "consensus_step E ev s = (r, s')" and i: "cluster_input E com H batch f ev s'"
    and p: "proposals_ok E com (cs_core s')" and k: "log_kept H f f'"
    and sys: "sys_ok E com H (possible E com H batch f') f'"
  shows "node_ok E com H batch f' s'"
proof -
  have l: "links_ok E s'" using n consensus_step_links [OF _ step] by (simp add: node_ok_def)
  have "possible E com H batch f' (EvLoopback b)" if b: "b \<in> set (cs_loopback s')" for b
    using consensus_step_loopback [OF step b]
  proof (elim disjE conjE exE)
    assume "b \<in> set (cs_loopback s)"
    then show ?thesis using node_ok_mono [OF k n] by (auto simp: node_ok_def)
  next
    assume "b \<in> held s'"
    then obtain e where "e \<in> set (c_out (f' a))" "requested e = Some b"
      using l a(2) by (auto simp: links_ok_def handed_out_def)
    then show ?thesis by (rule requested_possible [OF sys a(1)])
  next
    fix acks
    assume "ev = ProposerTakes acks" and own: "b \<in> looped (pr_out (cs_proposer s'))"
    then have "block_authentic E com H f b" using i by simp
    then have "block_authentic E com H f' b"
      using possible_mono [OF k, of E com batch "EvMessage (MPropose b)"] by simp
    moreover have "own_proposal (cs_core s') b" using l own by (auto simp: links_ok_def proposer_ok_def)
    then have "certs_verify E com (b_qc b) (b_tc b)"
      using p by (auto simp: proposals_ok_def own_proposal_def)
    ultimately show ?thesis by simp
  qed
  then show ?thesis using l p by (simp add: node_ok_def)
qed

lemma cluster_boot:
  assumes env: "committee_valid com" "batch_complete E" and sp: "\<forall>a \<in> H. spawned com par sk a (g a)"
  shows "cluster_cores H (sys_boot com sk) g = sys_boot com sk"
    and "\<And>a. a \<in> H \<Longrightarrow> node_ok E com H batch (sys_boot com sk) (g a)"
proof -
  have b: "cs_core (g a) = sys_boot com sk a \<and> links_ok E (g a) \<and> cs_loopback (g a) = []" if a: "a \<in> H" for a
  proof -
    obtain tasks r where t: "(Consensus_spawn a com (par a) (sk a) [] :: (ConfigError, _) outcome) = Ok tasks"
      "consensus_boot tasks = (r, g a)" using sp a unfolding spawned_def by blast
    show ?thesis using boot_links [OF t, of E] by (simp add: sys_boot_def)
  qed
  then show "cluster_cores H (sys_boot com sk) g = sys_boot com sk"
    by (simp add: cluster_cores_def fun_eq_iff)
  fix a
  assume a: "a \<in> H"
  have "proposals_kept E com (Core_new a com (sk a) []) (snd (core_boot (Core_new a com (sk a) [])))"
    by (rule proposals.core_boot_R)
  then show "node_ok E com H batch (sys_boot com sk) (g a)"
    using b [OF a] env by (simp add: node_ok_def proposals_kept_def) (simp add: sys_boot_def Core_new_def)
qed

text \<open>Every run of the cluster is a run of the system of cores.\<close>

lemma cluster_simulates:
  assumes env: "committee_valid com" "batch_complete E" and sp: "\<forall>a \<in> H. spawned com par sk a (g0 a)"
    and run: "(cluster_step E com H batch (sys_boot com sk))\<^sup>*\<^sup>* g0 g"
  shows "sys_run E com H batch (sys_boot com sk) (cluster_cores H (sys_boot com sk) g)
    \<and> (\<forall>a \<in> H. node_ok E com H batch (cluster_cores H (sys_boot com sk) g) (g a))"
  using run
proof (induction rule: rtranclp_induct)
  case base
  then show ?case using cluster_boot [OF env sp] by simp
next
  case (step g g')
  let ?c = "cluster_cores H (sys_boot com sk)"
  from step.hyps(2) obtain a ev r s' where a: "a \<in> H" and st: "consensus_step E ev (g a) = (r, s')"
    and ret: "goes_on ev r" and i: "cluster_input E com H batch (?c g) ev s'" and g': "g' = g(a := s')"
    by (elim cluster_stepE)
  have f': "?c g' = (?c g)(a := cs_core s')" using a g' by (simp add: cluster_cores_upd)
  have n: "node_ok E com H batch (?c g) (g a)" using step.IH a by blast
  have fa: "?c g a = cs_core (g a)" using a by (simp add: cluster_cores_def)
  note sim = turn_simulates [OF n a fa st ret i env]
  then have one: "sys_run E com H batch (?c g) (?c g')" unfolding f' by auto
  have run': "sys_run E com H batch (sys_boot com sk) (?c g')" using step.IH one rtranclp_trans by fast
  have k: "log_kept H (?c g) (?c g')"
    using sys_run_log [OF one sys_run_ok] step.IH by blast
  have "node_ok E com H batch (?c g') (g' b)" if "b \<in> H" for b
  proof (cases "b = a")
    case True
    then show ?thesis
      using turn_node_ok [OF n a _ st i _ k sys_run_ok [OF run']] sim f' g' by simp
  next
    case False
    have "node_ok E com H batch (?c g) (g b)" using step.IH that by blast
    from node_ok_mono [OF k this] show ?thesis using False g' by simp
  qed
  then show ?case using run' by blast
qed

end
