(* ===== verification/Consensus_Properties.thy ===== *)
theory Consensus_Properties
  imports Agreement
begin

text \<open>
  What makes the parts of the consensus crate correct, each property applied to the concrete
  environment and committees of \<open>Concrete\<close>.
\<close>

section \<open>Signing\<close>

lemma sorted_wrt_nthD: "sorted_wrt P xs \<Longrightarrow> i < j \<Longrightarrow> j < length xs \<Longrightarrow> P (xs ! i) (xs ! j)"
  by (simp add: sorted_wrt_iff_nth_less)

text \<open>C3. In every reachable state of a core, whatever messages, blocks and timeouts it handled: a vote
  is signed only for a round above every round the node has signed a vote or a timeout for before.
  So it votes at most once per round, and never for a round it has timed out of.\<close>

theorem signing_discipline:
  assumes "core_reachable E (Core_new name com sk db) c"
    and "i < j" and "j < length (c_out c)" and "c_out c ! j = CreatedVote v"
    and "signed_round (c_out c ! i) = Some r"
  shows "r < v_round v"
proof -
  have "signing_ok c" using signing.core_reachable_R [OF assms(1)] by simp
  then have "vote_after (c_out c ! i) (c_out c ! j)"
    using assms(2,3) by (auto simp: signing_ok_def intro: sorted_wrt_nthD)
  then show ?thesis using assms(4,5) by (simp add: vote_after_def)
qed

lemma solo_reachable: "core_reachable toy_env (Core_new (PublicKey 1) solo (SecretKey 0) []) solo3"
proof -
  have s: "core_step toy_env c c'" if "handle_proposal toy_env b c = (Ok (), c')" for b c c'
    by (rule core_step.step [of _ "EvMessage (MPropose b)" _ "Ok ()"]) (simp add: that)
  have 0: "core_reachable toy_env (Core_new (PublicKey 1) solo (SecretKey 0) [])
      (solo_state 1 0 QC_genesis [] out0)"
    by (rule core_reachable.boot [OF solo_boot])
  show ?thesis
    unfolding solo_states
    by (rule core_reachable.step [OF core_reachable.step [OF core_reachable.step [OF 0]]])
      (rule s [OF solo_step1] s [OF solo_step2] s [OF solo_step3])+
qed

theorem signing_discipline_witness:
  "core_reachable toy_env (Core_new (PublicKey 1) solo (SecretKey 0) []) solo3
   \<and> c_out solo3 ! 3 = CreatedVote (toy_vote 2 1) \<and> c_out solo3 ! 9 = CreatedVote (toy_vote 3 2)
   \<and> (1 :: u64) < 2"
proof -
  have "c_out solo3 ! 3 = CreatedVote (toy_vote 2 1)" "c_out solo3 ! 9 = CreatedVote (toy_vote 3 2)"
    "9 < length (c_out solo3)"
    by (simp_all add: solo_states out3_def out2_def out1_def out0_def)
  then show ?thesis
    using signing_discipline [OF solo_reachable, of 3 9 "toy_vote 3 2" 1] solo_reachable by simp
qed

text \<open>C4. A live core (every handler completed, only blocks it asked for and its own proposals are handed
  back) that signed a vote did so for a block that it has verified or proposed itself, that it has
  stored, whose certificate it has processed and that passes the second safety rule: the vote carries
  the block's digest and round.\<close>

theorem vote_justified:
  assumes "core_live E (Core_new name com sk []) c" and "CreatedVote v \<in> set (c_out c)"
  shows "\<exists>b. v_hash v = Block_digest E b \<and> v_round v = b_round b
    \<and> (Block_verify E b com = Ok () \<or> own_proposal c b) \<and> safety_rule_2 b = Ok True \<and> block_stored E c b \<and> qc_round (b_qc b) \<le> qc_round (c_high_qc c)"
proof -
  obtain b where b: "voted_for E (justified E com c) c v b" and "c_committee c = com"
    using live_justified [OF assms(1)] assms(2) by (auto simp: lock_ok_def core_grows_def Core_new_def)
  then show ?thesis using Vote_new_Ok unfolding voted_for_def processed_def justified_def by metis
qed

lemma solo_live: "core_live toy_env (Core_new (PublicKey 1) solo (SecretKey 0) []) solo3"
proof -
  have s: "core_live toy_env c0 c'"
    if "core_live toy_env c0 c" "handle_proposal toy_env b c = (Ok (), c')" for b c c' c0
    by (rule core_live.step [OF that(1), of "EvMessage (MPropose b)" "Ok ()"]) (simp_all add: that)
  have "core_live toy_env (Core_new (PublicKey 1) solo (SecretKey 0) []) (solo_state 1 0 QC_genesis [] out0)"
    by (rule core_live.boot [OF solo_boot]) simp
  from s [OF s [OF s [OF this solo_step1] solo_step2] solo_step3] show ?thesis by (simp add: solo_states)
qed

theorem vote_justified_witness:
  "\<exists>b. toy_digest 3 = Block_digest toy_env b \<and> b_round b = 2 \<and> safety_rule_2 b = Ok True
    \<and> block_stored toy_env solo3 b"
proof -
  have "CreatedVote (toy_vote 3 2) \<in> set (c_out solo3)"
    by (simp add: solo_states out3_def out2_def)
  from vote_justified [OF solo_live this] show ?thesis by auto
qed

section \<open>State of the core\<close>

text \<open>No event lowers the last voted round, the last committed round or the round of the highest
  certificate, changes the identity or the committee, or takes back what was sent or stored.\<close>

theorem core_monotone:
  assumes "core_step E c c'"
  shows "core_grows c c'"
  by (rule grows.core_step_R [OF assms])

theorem core_monotone_witness: "core_grows solo2 solo3"
proof -
  have "core_step toy_env solo2 solo3"
    by (rule core_step.step [of _ "EvMessage (MPropose B3)" _ "Ok ()"]) (simp add: solo_states solo_step3)
  then show ?thesis by (rule core_monotone)
qed

text \<open>C12. In every reachable state the highest certificate the core holds (the one it proposes on and
  reports in timeouts) is the genesis or passes \<open>QC::verify\<close>, and every maker of the aggregator holds
  only signatures that verify.\<close>

theorem certificates_checked:
  assumes "core_reachable E (Core_new name com sk db) c" and "committee_valid com" and "batch_complete E"
  shows "checked_qc E com (c_high_qc c) \<and> aggregator_ok E (c_aggregator c)"
proof -
  have "certs_kept E (Core_new name com sk db) c" by (rule certs.core_reachable_R [OF assms(1)])
  moreover have "c_committee (Core_new name com sk db) = com" by (simp add: Core_new_def)
  ultimately have "certs_ok E c \<and> c_committee c = com"
    using assms(2,3) by (simp add: certs_kept_def)
  then show ?thesis by (auto simp: certs_ok_def)
qed

theorem certificates_checked_witness:
  "checked_qc toy_env solo (toy_qc 4 3)"
  using certificates_checked [OF solo_reachable] by (simp add: solo_states)

text \<open>C13. A vote that verifies, added to the aggregator of a core in a reachable state, either is
  refused, or completes nothing, or completes a certificate for its own block and round that passes
  \<open>QC::verify\<close>.\<close>

theorem completed_qc_verifies:
  assumes "core_reachable E (Core_new name com sk db) c" and "committee_valid com" and "batch_complete E"
    and "Vote_verify E vote com = Ok ()"
    and "add_vote E vote (c_aggregator c) = (result, agg)"
  shows "result = Err (AuthorityReuse (v_author vote)) \<or> result = Ok None
    \<or> (\<exists>qc. result = Ok (Some qc) \<and> QC_verify E qc com = Ok ()
        \<and> qc_hash qc = v_hash vote \<and> qc_round qc = v_round vote)"
proof -
  have "certs_kept E (Core_new name com sk db) c" by (rule certs.core_reachable_R [OF assms(1)])
  moreover have "c_committee (Core_new name com sk db) = com" by (simp add: Core_new_def)
  ultimately have "certs_ok E c \<and> c_committee c = com"
    using assms(2,3) by (simp add: certs_kept_def)
  then show ?thesis
    using add_vote_ok(2) [of "c_aggregator c" E vote result agg] assms(2-5) by (simp add: certs_ok_def)
qed

theorem completed_qc_verifies_witness:
  "fst (add_vote toy_env (toy_vote 5 4) (c_aggregator solo3)) = Ok (Some (toy_qc 5 4))
   \<and> QC_verify toy_env (toy_qc 5 4) solo = Ok ()"
proof -
  obtain r agg where r: "add_vote toy_env (toy_vote 5 4) (c_aggregator solo3) = (r, agg)"
    by (cases "add_vote toy_env (toy_vote 5 4) (c_aggregator solo3)")
  have "r = Ok (Some (toy_qc 5 4))"
    using r by (auto simp: solo_states core_eval toy_qc_def)
  then show ?thesis
    using completed_qc_verifies [OF solo_reachable _ _ _ r] r by simp
qed

text \<open>C25. The aggregator keeps votes only for the core's round and later ones: what \<open>cleanup\<close> drops at a
  round change is never put back, so late votes cannot fill the table again.\<close>

theorem no_stale_votes:
  assumes "core_reachable E (Core_new name com sk db) c"
    and "r \<in> hm_keys (votes_aggregators (c_aggregator c))"
  shows "c_round c \<le> r"
proof -
  have "votes_recent c" using recent.core_reachable_R [OF assms(1)] by simp
  then show ?thesis using assms(2) by (simp add: votes_recent_def)
qed

lemma four_authorities [simp]:
  "authorities four = map (\<lambda>i. (PublicKey i, \<lparr>au_stake = 1, au_address = toy_address\<rparr>)) [3, 1, 4, 2]"
  by (simp add: four_def Committee_new_def)

lemma four_facts [simp]:
  "committee_stake four (PublicKey 1) = 1" "committee_stake four (PublicKey 2) = 1"
  "committee_stake four (PublicKey 3) = 1" "committee_stake four (PublicKey 4) = 1"
  "quorum_threshold four = 3" "total_stake four = 4" "committee_size four = 4"
  "committee_valid four" "committee_members four = {PublicKey 1, PublicKey 2, PublicKey 3, PublicKey 4}"
  by (auto simp: committee_stake_def quorum_threshold_def total_votes_def total_stake_def
      committee_size_def committee_valid_def committee_members_def)

lemma four_sorted [simp]: "sort (map fst (authorities four)) = map PublicKey [1, 2, 3, 4]"
  by simp

lemma four_leader [simp]: "get_leader four r = Ok ([PublicKey 1, PublicKey 2, PublicKey 3, PublicKey 4] ! (unat r mod 4))"
  using four_sorted by (simp add: get_leader_def Let_def del: four_authorities)

definition four_voted :: Core where
  "four_voted = snd (handle_vote toy_env (toy_vote 8 7)
     (snd (core_boot (Core_new (PublicKey 1) four (SecretKey 0) []))))"

theorem no_stale_votes_witness:
  "hm_keys (votes_aggregators (c_aggregator four_voted)) = {7} \<and> c_round four_voted \<le> 7"
proof -
  have v: "Vote_verify toy_env (toy_vote 8 7) four = Ok ()" by (simp add: Vote_verify_Ok_iff)
  have keys: "hm_keys (votes_aggregators (c_aggregator four_voted)) = {7}"
    by (simp add: four_voted_def core_eval v)
  have "core_step toy_env (snd (core_boot (Core_new (PublicKey 1) four (SecretKey 0) []))) four_voted"
    by (auto simp: core_step_iff four_voted_def intro: exI [of _ "EvMessage (MVote (toy_vote 8 7))"])
  then have "core_reachable toy_env (Core_new (PublicKey 1) four (SecretKey 0) []) four_voted"
    by (rule core_reachable.step [OF core_reachable.boot [OF prod.collapse [symmetric]]])
  from no_stale_votes [OF this, of 7] keys show ?thesis by simp
qed

end
