(* ===== verification/Core_Properties.thy ===== *)
theory Core_Properties
  imports Consensus_Properties Core_Progress Proposer_Model
begin

text \<open>
  Properties of the core's task over fair runs (\<open>Core_Progress\<close>): it does not stop, it proposes on
  verified certificates, its store is grounded; and what \<open>commit\<close> delivers.
\<close>

section \<open>The solo run is fair\<close>

lemma solo_collision_free: "collision_free toy_env {B1, B2, B3}"
  by (simp add: collision_free_def)

lemma solo_progress: "progress_env toy_env {B1, B2, B3} solo (SecretKey 0)"
  using solo_collision_free by (simp add: progress_env_def)

lemma solo_fair: "core_fair toy_env {B1, B2, B3} (Core_new (PublicKey 1) solo (SecretKey 0) []) solo3"
proof -
  have s: "core_fair toy_env {B1, B2, B3} c0 c'"
    if "core_fair toy_env {B1, B2, B3} c0 c" "handle_proposal toy_env b c = (Ok (), c')" "b \<in> {B1, B2, B3}"
    for b c c' c0
    by (rule core_fair.step [OF that(1), of "EvMessage (MPropose b)" "Ok ()"]) (use that in simp_all)
  have "core_fair toy_env {B1, B2, B3} (Core_new (PublicKey 1) solo (SecretKey 0) [])
      (solo_state 1 0 QC_genesis [] out0)"
    by (rule core_fair.boot [OF solo_boot])
  from s [OF s [OF s [OF this solo_step1] solo_step2] solo_step3] show ?thesis by (simp add: solo_states)
qed

section \<open>The task does not stop\<close>

text \<open>In a fair run no handler panics and none loops: the ancestors \<open>commit\<close> and the synchronizer
  expect are in the store, the walk to the last committed round ends, every leader has an address,
  and no certificate of a block is empty. (Fair: timeout certificates that arrive by themselves
  verify, only requested blocks and own proposals come back, and no two blocks of \<open>S\<close> with different
  parents share a digest.)\<close>

theorem core_never_stops:
  assumes "progress_env E S com sk" and "core_fair E S (Core_new name com sk []) c"
    and "fair_event E S c ev"
  shows "completes (fst (core_handle E ev c))"
  using fair_handle_completes [OF assms(1) fair_inv_run [OF assms(1,2)] assms(3)] .

theorem core_never_stops_witness: "completes (fst (core_handle toy_env EvTimer solo3))"
  by (rule core_never_stops [OF solo_progress solo_fair]) simp

definition empty_tc :: TC where
  "empty_tc = \<lparr>tc_round = 8, tc_votes = []\<rparr>"

definition tc_block :: Block where
  "tc_block = \<lparr>b_qc = QC_genesis, b_tc = Some empty_tc, b_author = PublicKey 1, b_round = 9,
     b_payload = [], b_signature = toy_signature\<rparr>"

text \<open>What \<open>handle_tc\<close> does with a certificate of the current round or later, on the leader of the round
  after it.\<close>

lemma handle_tc_leader:
  assumes "c_round c \<le> tc_round tc"
    and "(get_leader (c_committee c) (tc_round tc + 1) :: (ConsensusError, PublicKey) outcome) = Ok (c_name c)"
  shows "core_handle E (EvMessage (MTC tc)) c = (Ok (), generate_proposal (Some tc) (advance_round (tc_round tc) c))
    \<and> c_round (advance_round (tc_round tc) c) = tc_round tc + 1
    \<and> c_high_qc (advance_round (tc_round tc) c) = c_high_qc c \<and> c_db (advance_round (tc_round tc) c) = c_db c
    \<and> c_name (advance_round (tc_round tc) c) = c_name c"
proof -
  have "\<not> tc_round tc < c_round c" using assms(1) by simp
  then show ?thesis using assms(2) by (simp add: handle_tc_def propose_if_leader_def core_mutations)
qed

text \<open>Proposing on a timeout certificate, the proposer makes a block, whatever it has to propose.\<close>

lemma make_block_on_tc:
  assumes "\<forall>d. \<exists>s. request_signature E (pr_secret p) d = Ok s" and "make_block E round qc (Some tc) acks p = (r, p')"
  shows "\<exists>b. proposed (pr_out p') = proposed (pr_out p) @ [b] \<and> b_qc b = qc \<and> b_tc b = Some tc
    \<and> b_author b = pr_name p \<and> b_round b = round"
proof -
  have "\<exists>b. Block_new E qc (Some tc) (pr_name p) round (pr_buffer p) (pr_secret p) = Ok b"
    using assms(1) by (auto simp: Block_new_def Let_def and_then_Ok_iff)
  then obtain b where b: "Block_new E qc (Some tc) (pr_name p) round (pr_buffer p) (pr_secret p) = Ok b" by blast
  then have "proposed (pr_out p') = proposed (pr_out p) @ [b]"
    using assms(2)
    by (cases "ack_loop (quorum_threshold (pr_committee p)) (committee_stake (pr_committee p) (pr_name p))
          (length (broadcast_addresses (pr_committee p) (pr_name p)))
          (map (committee_stake (pr_committee p)) acks) :: (ConsensusError, _) outcome")
      (auto simp: make_block_def Let_def)
  then show ?thesis using Block_new_Ok [OF b] by blast
qed

text \<open>C38. The hypothesis on timeout certificates in fair runs is needed. \<open>handle_tc\<close> verifies nothing: a
  certificate without a vote, for the current round or a later one, moves the core to the round after it,
  and the leader of that round passes it to the proposer. The block the proposer makes of it, with
  whatever payload, comes back and stops the leader's own core with the panic \<open>Empty TC\<close>, provided the
  core has the block its highest certificate is for (otherwise the block is suspended until it has).\<close>

theorem empty_tc_stops_leader:
  assumes "progress_env E S com sk" and "core_fair E S (Core_new name com sk []) c"
    and "tc_votes tc = []" and "c_round c \<le> tc_round tc"
    and "(get_leader com (tc_round tc + 1) :: (ConsensusError, PublicKey) outcome) = Ok name"
    and "QC_eq (c_high_qc c) QC_genesis \<or> db_block E (c_db c) (qc_hash (c_high_qc c)) \<noteq> None"
    and "pr_name p = name" and "pr_secret p = sk"
    and "make_block E (tc_round tc + 1) (c_high_qc c) (Some tc) acks p = (r, p')"
    and "set (proposed (pr_out p')) \<subseteq> S"
  shows "\<exists>c1 b. core_handle E (EvMessage (MTC tc)) c = (Ok (), c1) \<and> TC_verify E tc com \<noteq> Ok ()
    \<and> c_round c1 = tc_round tc + 1
    \<and> c_out c1 = c_out c @ [ResetTimer, ToProposer (PMake (tc_round tc + 1) (c_high_qc c) (Some tc))]
    \<and> proposed (pr_out p') = proposed (pr_out p) @ [b] \<and> own_proposal c1 b
    \<and> fst (core_handle E (EvLoopback b) c1) = Panic ''Empty TC''"
proof -
  have inv: "fair_inv E S com c" by (rule fair_inv_run [OF assms(1,2)])
  have "core_grows (Core_new name com sk []) c" by (rule fair_grows [OF assms(2)])
  then have id: "c_name c = name" "c_committee c = com" by (simp_all add: core_grows_def Core_new_def)
  have env: "rocks_ok E" "collision_free E S" "committee_valid com" "\<forall>d. \<exists>s. request_signature E (pr_secret p) d = Ok s"
    using assms(1,8) by (simp_all add: progress_env_def)
  let ?c1 = "generate_proposal (Some tc) (advance_round (tc_round tc) c)"
  have h: "core_handle E (EvMessage (MTC tc)) c = (Ok (), ?c1)" "c_round ?c1 = tc_round tc + 1" "c_db ?c1 = c_db c"
    using handle_tc_leader [OF assms(4), of E] assms(5) id by (simp_all add: generate_proposal_def emit_def)
  have out: "c_out ?c1 = c_out c @ [ResetTimer, ToProposer (PMake (tc_round tc + 1) (c_high_qc c) (Some tc))]"
    using assms(4) by (simp add: generate_proposal_def core_mutations)
  obtain b where b: "proposed (pr_out p') = proposed (pr_out p) @ [b]" "b_qc b = c_high_qc c" "b_tc b = Some tc"
    "b_author b = name" "b_round b = tc_round tc + 1"
    using make_block_on_tc [OF env(4) assms(9)] assms(7) by blast
  have own: "own_proposal ?c1 b"
    using b out id by (simp add: own_proposal_def) (simp add: generate_proposal_def core_mutations)
  have ch: "chained E S (c_db ?c1)" using inv h(3) by (simp add: fair_inv_def)
  obtain b1 where p1: "parent_in E (c_db ?c1) b = Some b1"
    using assms(6) unfolding parent_in_eq h(3) Block_parent_def b(2)
    by (cases "QC_eq (c_high_qc c) QC_genesis") auto
  obtain b0 where p0: "parent_in E (c_db ?c1) b1 = Some b0"
    using chained_closed [OF ch] p1 unfolding store_closed_def by blast
  have "b \<in> S" using assms(10) b(1) by simp
  from process_delivered_votes [OF env(1,2) ch this p1 p0] obtain c2
    where c2: "process_delivered E b0 b1 b ?c1 = vote_block E b c2" "c_round c2 = c_round ?c1" by blast
  have anc: "get_ancestors E (c_db ?c1) b = (Ok (Some (b0, b1)), [])" using p1 p0 by (simp add: get_ancestors_Some)
  have "safety_rule_2 b = Panic ''Empty TC''" using b(3) assms(3) by (simp add: safety_rule_2_def high_qc_rounds_def)
  then have "fst (core_handle E (EvLoopback b) ?c1) = Panic ''Empty TC''"
    using c2 b(5) h(2) anc by (simp add: process_block_def with_effects_def vote_block_def make_vote_def)
  moreover have "TC_verify E tc com \<noteq> Ok ()"
    using TC_verify_nonempty [OF env(3), of E tc] assms(3) by (auto simp: high_qc_rounds_def)
  ultimately show ?thesis using h(1,2) out b(1) own by blast
qed

definition tc_env :: env where
  "tc_env = toy_env\<lparr>ser_block := \<lambda>b. [], de_block := \<lambda>bs. Inr tc_block\<rparr>"

lemma tc_env_fields [simp]:
  "rocks_ok tc_env" "rocks_fresh tc_env" "batch_complete tc_env" "request_signature tc_env sk d = Ok toy_signature"
  "ser_block tc_env b = []" "de_block tc_env bs = Inr tc_block"
  using toy_request [of sk d]
  by (simp_all add: rocks_ok_def rocks_fresh_def batch_complete_def request_signature_def Signature_new_def
      tc_env_def toy_env_def)

lemma tc_env_digest [simp]: "Block_digest tc_env b = toy_digest (ucast (b_round b) + 1)"
  using toy_Block_digest [of b] by (simp add: Block_digest_def sha_digest_def tc_env_def)

definition tc_proposer :: Proposer where
  "tc_proposer = Proposer_new (PublicKey 1) solo (SecretKey 0)"

text \<open>A committee of one member, right after boot, gets an empty certificate for round 8.\<close>

theorem empty_tc_stops_leader_witness:
  "\<exists>c1 b. core_handle tc_env (EvMessage (MTC empty_tc)) (solo_state 1 0 QC_genesis [] out0) = (Ok (), c1)
    \<and> c_round c1 = 9 \<and> fst (core_handle tc_env (EvLoopback b) c1) = Panic ''Empty TC''"
proof -
  have r: "tc_round empty_tc + 1 = 9" "tc_votes empty_tc = []" by (simp_all add: empty_tc_def)
  obtain res p' where made: "make_block tc_env 9 QC_genesis (Some empty_tc) [] tc_proposer = (res, p')"
    by (cases "make_block tc_env 9 QC_genesis (Some empty_tc) [] tc_proposer")
  then have "proposed (pr_out p') = [tc_block]"
    by (simp add: tc_proposer_def Proposer_new_def make_block_def Block_new_def Let_def broadcast_addresses_def
        tc_block_def) auto
  then have S: "set (proposed (pr_out p')) \<subseteq> {tc_block}" by simp
  have env: "progress_env tc_env {tc_block} solo (SecretKey 0)"
    using solo_progress by (simp add: progress_env_def collision_free_def) (simp add: tc_block_def)
  have run: "core_fair tc_env {tc_block} (Core_new (PublicKey 1) solo (SecretKey 0) []) (solo_state 1 0 QC_genesis [] out0)"
    by (rule core_fair.boot [OF solo_boot])
  show ?thesis
    using empty_tc_stops_leader [OF env run r(2), unfolded r(1), of tc_proposer "[]" res p'] made S
    by (simp add: tc_proposer_def Proposer_new_def) (auto simp: empty_tc_def)
qed

text \<open>C24. In a fair run whatever the proposer is asked for rests on certificates that verify: so the
  blocks it makes pass the checks of \<open>Block::verify\<close> on their certificates.\<close>

theorem own_proposals_checked:
  assumes "progress_env E S com sk" and "core_fair E S (Core_new name com sk []) c"
    and "own_proposal c b"
  shows "(QC_eq (b_qc b) QC_genesis \<or> QC_verify E (b_qc b) com = Ok ())
    \<and> (\<forall>tc. b_tc b = Some tc \<longrightarrow> TC_verify E tc com = Ok ())"
proof -
  have "certs_verify E com (b_qc b) (b_tc b)"
    using fair_inv_run [OF assms(1,2)] assms(3)
    by (auto simp: fair_inv_def proposals_ok_def own_proposal_def)
  then show ?thesis by (auto simp: certs_verify_def checked_qc_def)
qed

theorem own_proposals_checked_witness: "QC_verify toy_env (toy_qc 4 3) solo = Ok ()"
proof -
  have "own_proposal solo3 (toy_block (toy_qc 4 3) 4 [])"
    by (simp add: own_proposal_def solo_states out3_def)
  from own_proposals_checked [OF solo_progress solo_fair this] show ?thesis by simp
qed

section \<open>The store and commits\<close>

text \<open>
  The core commits what it once read as a parent. Every block that was ever written has its parent in the
  store, also when a later write has replaced it.
\<close>

definition writes_linked :: "'a env_scheme \<Rightarrow> puts \<Rightarrow> bool" where
  "writes_linked E db \<longleftrightarrow>
     (\<forall>(k, v) \<in> set db. \<forall>b. de_block E v = Inr b \<longrightarrow> (\<exists>p. parent_in E db b = Some p))"

definition links_kept :: "'a env_scheme \<Rightarrow> Block set \<Rightarrow> Core \<Rightarrow> Core \<Rightarrow> bool" where
  "links_kept E S c c' \<longleftrightarrow> (rocks_ok E \<and> collision_free E S \<and> chained E S (c_db c) \<and> writes_linked E (c_db c) \<longrightarrow>
     chained E S (c_db c') \<and> writes_linked E (c_db c'))"

lemma links_kept_same: "c_db c' = c_db c \<Longrightarrow> links_kept E S c c'"
  by (simp add: links_kept_def)

lemma links_store:
  assumes "rocks_ok E" "collision_free E S" "block \<in> S" "parent_in E (c_db c) block = Some b1"
    and "writes_linked E (c_db c)"
  shows "writes_linked E (c_db (store_block E block c))"
proof -
  have de: "de_block E (ser_block E block) = Inr block" using assms(2,3) by (simp add: collision_free_def)
  note keep = parent_in_write [OF assms(1) de]
  show ?thesis using assms(4,5) de keep by (fastforce simp: writes_linked_def store_block_def Store_write_def)
qed

lemma links_foreign:
  assumes "rocks_ok E" "chained E S db" "foreign E S k v" "writes_linked E db"
  shows "writes_linked E (Store_write k v db)"
proof -
  have "parent_in E (Store_write k v db) b = Some p" if "parent_in E db b = Some p" for b p
  proof (cases "QC_eq (b_qc b) QC_genesis")
    case False
    then have "db_block E db (Block_parent b) = Some p" using that by (simp add: parent_in_eq)
    moreover from this have "k \<noteq> Digest_to_vec (Block_parent b)"
      using assms(2,3) unfolding chained_def foreign_def by metis
    ultimately show ?thesis using False by (simp add: parent_in_eq db_block_write [OF assms(1)])
  qed (use that in \<open>simp add: parent_in_eq\<close>)
  moreover obtain e where "de_block E v = Inl e" using assms(3) by (auto simp: foreign_def)
  ultimately show ?thesis using assms(4) unfolding writes_linked_def Store_write_def by fastforce
qed

interpretation written: core_relation_any E "links_kept E S" "\<lambda>_ b. b \<in> S" True
  "\<lambda>ev. (\<forall>b. ev = EvMessage (MPropose b) \<longrightarrow> b \<in> S) \<and> (\<forall>k v. ev = EvStoreWrite k v \<longrightarrow> foreign E S k v)"
  for E :: "'a env_scheme" and S
proof unfold_locales
  fix c :: Core and k v
  assume f: "(\<forall>b. EvStoreWrite k v = EvMessage (MPropose b) \<longrightarrow> b \<in> S)
    \<and> (\<forall>k' v'. EvStoreWrite k v = EvStoreWrite k' v' \<longrightarrow> foreign E S k' v')"
  then have "foreign E S k v" by simp
  then show "links_kept E S c (c\<lparr>c_db := Store_write k v (c_db c)\<rparr>)"
    using chained_foreign links_foreign by (auto simp: links_kept_def)
next
  fix c :: Core and block b1
  assume "block \<in> S" "parent_in E (c_db c) block = Some b1"
  then show "links_kept E S c (store_block E block c)"
    using chained_store links_store by (auto simp: links_kept_def store_block_def)
next
  fix c :: Core and vote
  show "links_kept E S c (absorb_vote E vote c)"
    by (rule links_kept_same)
      (auto simp: absorb_vote_def core_mutations split: prod.split outcome.split option.split)
next
  fix c :: Core and timeout
  show "links_kept E S c (absorb_timeout timeout c)"
    by (rule links_kept_same)
      (auto simp: absorb_timeout_def core_mutations split: prod.split outcome.split option.split)
qed (auto simp: links_kept_def core_mutations generate_proposal_def)

lemma fair_links:
  assumes env: "progress_env E S com sk" and run: "core_fair E S (Core_new name com sk []) c"
  shows "chained E S (c_db c) \<and> writes_linked E (c_db c)"
  using run
proof (induction rule: core_fair.induct)
  case (boot r c)
  have "links_kept E S (Core_new name com sk []) (snd (core_boot (Core_new name com sk [])))" by (rule written.core_boot_R)
  then show ?case
    using boot env chained_Nil [of E S]
    by (simp add: links_kept_def progress_env_def) (simp add: Core_new_def writes_linked_def)
next
  case (step c ev r c')
  have "links_kept E S c (snd (core_handle E ev c))"
    by (rule written.core_handle_R) (use step.hyps(2) in auto)
  then show ?case using step env by (simp add: links_kept_def progress_env_def)
qed

lemma stored_grounded:
  assumes rank: "chain_ok E rank (c_db c)" and "db_block E (c_db c) d = Some b"
  shows "(\<lambda>x y. parent_in E (c_db c) x = Some y)\<^sup>*\<^sup>* b Block_genesis"
  using assms(2)
proof (induction "rank d" arbitrary: d b rule: less_induct)
  case less
  let ?p = "\<lambda>x y. parent_in E (c_db c) x = Some y"
  show ?case
  proof (cases "QC_eq (b_qc b) QC_genesis")
    case True
    then have "?p b Block_genesis" by simp
    then show ?thesis by blast
  next
    case False
    then obtain p where p: "db_block E (c_db c) (Block_parent b) = Some p" "rank (Block_parent b) < rank d"
      using chain_okD [OF rank less.prems] by blast
    then have "?p b p" using False by (simp add: parent_in_eq)
    with less.hyps [OF p(2,1)] show ?thesis by (meson converse_rtranclp_into_rtranclp)
  qed
qed

lemma linked_grounded:
  assumes rank: "chain_ok E rank (c_db c)" and p: "parent_in E (c_db c) b = Some p"
  shows "(\<lambda>x y. parent_in E (c_db c) x = Some y)\<^sup>*\<^sup>* b Block_genesis"
proof -
  have "p = Block_genesis \<or> db_block E (c_db c) (Block_parent b) = Some p"
    using p by (auto simp: parent_in_eq split: if_splits)
  then have "(\<lambda>x y. parent_in E (c_db c) x = Some y)\<^sup>*\<^sup>* p Block_genesis"
    using stored_grounded [OF rank] by blast
  with p show ?thesis by (meson converse_rtranclp_into_rtranclp)
qed

text \<open>C11. In a fair run, every block that is in the store of the core, and every block it has committed, has
  its ancestors in the store: following parents found there leads to the genesis block.\<close>

theorem stored_blocks_grounded:
  assumes "progress_env E S com sk" and "core_fair E S (Core_new name com sk []) c"
    and "db_block E (c_db c) d = Some b \<or> ToCommit b \<in> set (c_out c)"
  shows "(\<lambda>x y. parent_in E (c_db c) x = Some y)\<^sup>*\<^sup>* b Block_genesis"
proof -
  note links = fair_links [OF assms(1,2)]
  then obtain rank where rank: "chain_ok E rank (c_db c)" by (auto simp: chained_def)
  from assms(3) show ?thesis
  proof
    assume "ToCommit b \<in> set (c_out c)"
    then have "committed_for E (justified E com c) c b"
      using fair_inv_run [OF assms(1,2)] by (simp add: fair_inv_def lock_ok_def)
    then obtain y where "parent_link E c y b"
      unfolding committed_for_def by (metis rtranclp.cases)
    then obtain ps db where db: "c_db c = ps @ db" "parent_in E db y = Some b" by (auto simp: parent_link_def)
    show ?thesis
    proof (cases "QC_eq (b_qc y) QC_genesis")
      case True
      then show ?thesis using db(2) by simp
    next
      case False
      then obtain bytes where "Store_read E db (Digest_to_vec (Block_parent y)) = Ok (Some bytes)" "de_block E bytes = Inr b"
        using parent_in_read db(2) by blast
      moreover from this(1) have "(Digest_to_vec (Block_parent y), bytes) \<in> set (c_db c)"
        using Store_read_put assms(1) db(1) by (auto simp: progress_env_def)
      ultimately obtain p where "parent_in E (c_db c) b = Some p"
        using links by (fastforce simp: writes_linked_def)
      from linked_grounded [OF rank this] show ?thesis .
    qed
  qed (rule stored_grounded [OF rank])
qed

theorem stored_blocks_grounded_witness:
  "(\<lambda>x y. parent_in toy_env db3 x = Some y)\<^sup>*\<^sup>* B3 Block_genesis
   \<and> (\<lambda>x y. parent_in toy_env db3 x = Some y)\<^sup>*\<^sup>* B1 Block_genesis"
proof -
  have "db_block toy_env (c_db solo3) (toy_digest 4) = Some B3"
    by (simp add: db_block_def solo_states db3_def)
  moreover have "ToCommit B1 \<in> set (c_out solo3)" by (simp add: solo_states out3_def)
  ultimately show ?thesis
    using stored_blocks_grounded [OF solo_progress solo_fair, of "toy_digest 4" B3]
      stored_blocks_grounded [OF solo_progress solo_fair, of _ B1] by (simp add: solo_states)
qed

text \<open>The ancestors of a block, from its parent to the first one not above the round after \<open>lcr\<close>.\<close>

fun ancestor_chain :: "'a env_scheme \<Rightarrow> puts \<Rightarrow> Round \<Rightarrow> Block \<Rightarrow> Block list \<Rightarrow> bool" where
  "ancestor_chain E db lcr b [] \<longleftrightarrow> \<not> lcr + 1 < b_round b"
| "ancestor_chain E db lcr b (a # as) \<longleftrightarrow>
     lcr + 1 < b_round b \<and> parent_in E db b = Some a \<and> ancestor_chain E db lcr a as"

lemma commit_ancestors_chain:
  assumes "commit_ancestors E lcr x acc c = Some rc"
  shows "\<forall>l. fst rc = Ok l \<longrightarrow> (\<exists>as. l = rev as @ acc \<and> ancestor_chain E (c_db c) lcr x as)"
  using assms
proof (rule commit_ancestors.raw_induct [where P = "\<lambda>E lcr x acc c rc.
    \<forall>l. fst rc = Ok l \<longrightarrow> (\<exists>as. l = rev as @ acc \<and> ancestor_chain E (c_db c) lcr x as)", rotated])
  fix ca and E :: "'a env_scheme" and lcr x acc c rc
  assume IH: "\<And>E lcr x acc c rc. ca E lcr x acc c = Some rc \<Longrightarrow>
      \<forall>l. fst rc = Ok l \<longrightarrow> (\<exists>as. l = rev as @ acc \<and> ancestor_chain E (c_db c) lcr x as)"
    and eq: "(if lcr + 1 < b_round x then
        (case with_effects (get_parent_block E (c_db c) x) c of (r, c') \<Rightarrow>
           (case r of
              Ok (Some ancestor) \<Rightarrow> ca E lcr ancestor (ancestor # acc) c'
            | Ok None \<Rightarrow> Some (Panic ''We should have all the ancestors by now'', c')
            | Err e \<Rightarrow> Some (Err e, c')
            | Panic m \<Rightarrow> Some (Panic m, c')
            | Hang \<Rightarrow> Some (Hang, c')))
      else Some (Ok acc, c)) = Some rc"
  obtain r es where p: "get_parent_block E (c_db c) x = (r, es)" by (cases "get_parent_block E (c_db c) x")
  show "\<forall>l. fst rc = Ok l \<longrightarrow> (\<exists>as. l = rev as @ acc \<and> ancestor_chain E (c_db c) lcr x as)"
  proof (cases "lcr + 1 < b_round x \<and> (\<exists>a. r = Ok (Some a))")
    case True
    then obtain a where a: "r = Ok (Some a)" by blast
    with p have pa: "parent_in E (c_db c) x = Some a" "es = []" by (simp_all add: get_parent_block_Some)
    then have "ca E lcr a (a # acc) c = Some rc" using eq True p a by (simp add: with_effects_def)
    from IH [OF this] show ?thesis
    proof (intro allI impI)
      fix l
      assume "fst rc = Ok l"
      then obtain as where "l = rev as @ a # acc" "ancestor_chain E (c_db c) lcr a as"
        using IH [OF \<open>ca E lcr a (a # acc) c = Some rc\<close>] by auto
      then show "\<exists>as. l = rev as @ acc \<and> ancestor_chain E (c_db c) lcr x as"
        using True pa by (intro exI [of _ "a # as"]) simp
    qed
  next
    case False
    then show ?thesis
      using eq p by (cases r) (auto simp: with_effects_def split: if_splits option.splits intro: exI [of _ "[]"])
  qed
qed

text \<open>C10. What \<open>commit\<close> sends to the application for a block above the last committed round: its
  ancestors down to the last committed round, then the block, each once. The order of the ancestors
  is the one in which they are found, the parent first and the oldest last.\<close>

theorem commit_delivers_chain:
  assumes "last_committed_round c < b_round block" and "commit E block c = (Ok (), c')"
  shows "last_committed_round c' = b_round block
    \<and> (\<exists>as. ancestor_chain E (c_db c) (last_committed_round c) block as
        \<and> c_out c' = c_out c @ map ToCommit (as @ [block]))"
proof -
  have above: "\<not> b_round block \<le> last_committed_round c" using assms(1) by simp
  obtain l where l: "commit_ancestors E (last_committed_round c) block [] c = Some (Ok l, c)"
    and c': "c' = c\<lparr>last_committed_round := b_round block, c_out := c_out c @ map ToCommit (rev (block # l))\<rparr>"
  proof (cases "commit_ancestors E (last_committed_round c) block [] c")
    case (Some rc)
    obtain r d where rc: "rc = (r, d)" by (cases rc)
    then obtain l where r: "r = Ok l" using assms(2) above Some by (cases r) (simp_all add: commit_def)
    then have "d = c" using Some rc commit_ancestors_Ok_frame by blast
    then show ?thesis using that [of l] assms(2) above Some rc r by (simp add: commit_def Let_def)
  qed (use assms(2) above in \<open>simp add: commit_def\<close>)
  from commit_ancestors_chain [OF l] obtain as where "l = rev as"
    "ancestor_chain E (c_db c) (last_committed_round c) block as" by auto
  then show ?thesis using c' by auto
qed

text \<open>A node that has nothing committed and the blocks of rounds 1, 2 and 3: round 2 comes before round 1.\<close>

theorem commit_delivers_chain_witness:
  "ancestor_chain toy_env db3 0 B3 [B2, B1]
   \<and> c_out (snd (commit toy_env B3 (solo_state 4 0 (toy_qc 4 3) db3 [])))
     = [ToCommit B2, ToCommit B1, ToCommit B3]"
proof -
  let ?c = "solo_state 4 0 (toy_qc 4 3) db3 []"
  have walk: "commit_ancestors toy_env 0 B3 [] ?c = Some (Ok [B1, B2], ?c)"
    by (simp add: commit_ancestors.simps with_effects_def get_parent_block_def Block_parent_def db1_def db2_def
        db3_def solo_state_def)
  then have "fst (commit toy_env B3 ?c) = Ok ()" by (simp add: commit_def Let_def)
  then obtain d where run: "commit toy_env B3 ?c = (Ok (), d)" by (cases "commit toy_env B3 ?c") simp
  have parents: "parent_in toy_env db3 B3 = Some B2" "parent_in toy_env db3 B2 = Some B1"
    by (simp_all add: parent_in_eq db_block_def Block_parent_def db1_def db2_def db3_def)
  have c1: "ancestor_chain toy_env db3 0 B1 as \<longleftrightarrow> as = []" for as by (cases as) simp_all
  have c2: "ancestor_chain toy_env db3 0 B2 as \<longleftrightarrow> as = [B1]" for as by (cases as) (auto simp: parents c1)
  have chain: "ancestor_chain toy_env db3 0 B3 as \<longleftrightarrow> as = [B2, B1]" for as
    by (cases as) (auto simp: parents c2)
  have "last_committed_round ?c < b_round B3" by simp
  from commit_delivers_chain [OF this run] have "c_out d = map ToCommit ([B2, B1] @ [B3])"
    by (simp only: chain solo_state_sel simp_thms append_Nil)
  then show ?thesis using run chain [of "[B2, B1]"] by (simp del: ancestor_chain.simps)
qed

end
