(* ===== verification/Cluster_Properties.thy ===== *)
theory Cluster_Properties
  imports Cluster Core_Properties
begin

text \<open>
  Properties of nodes with all the tasks of their consensus, as the program spawns them: agreement,
  progress, and the way of suspended blocks. The runs they are applied to are those of a committee of
  one node (\<open>Concrete\<close>).
\<close>

section \<open>A committee of one node\<close>

definition solo_tasks :: ConsensusTasks where
  "solo_tasks = \<lparr>ct_address = set_ip_localhost toy_address,
     ct_core = Core_new (PublicKey 1) solo (SecretKey 0) [],
     ct_timer_delay = timeout_delay Parameters_default, ct_sync = SyncTask_new,
     ct_sync_delay = sync_retry_delay Parameters_default, ct_payload_waiter = PayloadWaiter_new,
     ct_proposer = Proposer_new (PublicKey 1) solo (SecretKey 0), ct_helper = Helper_new solo\<rparr>"

definition solo_node :: "Core \<Rightarrow> SyncTask \<Rightarrow> nat \<Rightarrow> Consensus" where
  "solo_node c sync n = \<lparr>cs_core = c, cs_sync = sync,
     cs_sync_delay = sync_retry_delay Parameters_default, cs_waiter = PayloadWaiter_new,
     cs_proposer = Proposer_new (PublicKey 1) solo (SecretKey 0), cs_helper = Some (Helper_new solo), cs_loopback = [],
     cs_sync_read = n, cs_waiter_read = 0, cs_proposer_read = 0\<rparr>"

lemma solo_node_sel [simp]:
  "cs_core (solo_node c sync n) = c" "cs_sync (solo_node c sync n) = sync" "cs_sync_read (solo_node c sync n) = n"
  "cs_loopback (solo_node c sync n) = []" "(solo_node c sync n)\<lparr>cs_core := c'\<rparr> = solo_node c' sync n"
  by (simp_all add: solo_node_def)

lemma solo_spawn:
  "(Consensus_spawn (PublicKey 1) solo Parameters_default (SecretKey 0) [] :: (ConfigError, _) outcome) = Ok solo_tasks"
  by (simp add: Consensus_spawn_def committee_address_def solo_tasks_def)

lemma solo_node_boot: "consensus_boot solo_tasks = (Ok (), solo_node solo_start SyncTask_new 0)"
  by (simp add: consensus_boot_def solo_tasks_def solo_boot solo_start_state solo_node_def)

lemma solo_receives:
  "handle_proposal E b c = (r, c') \<Longrightarrow>
    consensus_step E (Received (Inr (MPropose b))) (solo_node c sync n) = (r, solo_node c' sync n)"
  by (simp add: to_core_def core_turn_def)

section \<open>Agreement\<close>

text \<open>C1. Agreement: let the correct nodes of a committee, spawned with all the tasks of their consensus,
  run with at most a third of the stake faulty, unforgeable signatures and no hash accident. Any two
  blocks that correct nodes deliver to the application are on one chain of parent hashes. (The tasks
  take turns in any order; timeout certificates that arrive by themselves verify.)\<close>

theorem agreement:
  assumes "mostly_correct com H" and "rocks_ok E" "rocks_fresh E" "batch_complete E"
    and "\<forall>a \<in> H. spawned com par sk a (g0 a)"
    and "(cluster_step E com H batch (sys_boot com sk))\<^sup>*\<^sup>* g0 g"
    and "f = cluster_cores H (sys_boot com sk) g" and "no_accident E H batch f"
    and "a \<in> H" "ToCommit x \<in> set (c_out (cs_core (g a)))"
    and "a' \<in> H" "ToCommit y \<in> set (c_out (cs_core (g a')))"
  shows "extends E H f (block_ref E x) (block_ref E y) \<or> extends E H f (block_ref E y) (block_ref E x)"
proof -
  have "committee_valid com" using assms(1) by (simp add: mostly_correct_def)
  from cluster_simulates [OF this assms(4,5,6)] have "sys_run E com H batch (sys_boot com sk) f"
    by (simp add: assms(7))
  from core_agreement [OF assms(1-3) this assms(8), of a x a' y] show ?thesis
    using assms(9-12) by (simp add: assms(7) cluster_cores_def)
qed

abbreviation solo_boot_system :: system where
  "solo_boot_system \<equiv> sys_boot solo (\<lambda>_. SecretKey 0)"

definition solo_cluster :: "Core \<Rightarrow> cluster" where
  "solo_cluster c = (\<lambda>a. solo_node solo_start SyncTask_new 0)(PublicKey 1 := solo_node c SyncTask_new 0)"

lemma solo_cluster_cores:
  "cluster_cores {PublicKey 1} solo_boot_system (solo_cluster c) = solo_system c"
  by (auto simp: cluster_cores_def solo_system_def solo_cluster_def fun_eq_iff)

lemma solo_cluster_sel [simp]:
  "solo_cluster c (PublicKey 1) = solo_node c SyncTask_new 0"
  "(solo_cluster c)(PublicKey 1 := solo_node c' SyncTask_new 0) = solo_cluster c'"
  by (simp_all add: solo_cluster_def)

lemma solo_cluster_turn:
  assumes "handle_proposal toy_env b c = (Ok (), c')"
    and "block_authentic toy_env solo {PublicKey 1} (solo_system c) b"
  shows "cluster_step toy_env solo {PublicKey 1} (\<lambda>k v. False) solo_boot_system (solo_cluster c) (solo_cluster c')"
proof -
  have "cluster_step toy_env solo {PublicKey 1} (\<lambda>k v. False) solo_boot_system (solo_cluster c)
      ((solo_cluster c)(PublicKey 1 := solo_node c' SyncTask_new 0))"
    by (rule cluster_step.turn [where ev = "Received (Inr (MPropose b))" and r = "Ok ()"])
      (use assms solo_receives [OF assms(1), of SyncTask_new 0] in
        \<open>simp_all add: goes_on_def solo_cluster_cores del: consensus_step.simps\<close>)
  then show ?thesis by simp
qed

lemma solo_cluster_run:
  "(cluster_step toy_env solo {PublicKey 1} (\<lambda>k v. False) solo_boot_system)\<^sup>*\<^sup>*
     (solo_cluster solo_start) (solo_cluster solo3)"
proof -
  note step = solo_cluster_turn
  have 1: "block_authentic toy_env solo {PublicKey 1} (solo_system solo_start) B1"
    and 2: "block_authentic toy_env solo {PublicKey 1} (solo_system solo1) B2"
    and 3: "block_authentic toy_env solo {PublicKey 1} (solo_system solo2) B3"
    by (simp_all add: solo_authentic)
  have "cluster_step toy_env solo {PublicKey 1} (\<lambda>k v. False) solo_boot_system (solo_cluster solo_start) (solo_cluster solo1)"
    by (rule step [OF _ 1]) (simp add: solo_start_state solo_step1 solo_states)
  moreover have "cluster_step toy_env solo {PublicKey 1} (\<lambda>k v. False) solo_boot_system (solo_cluster solo1) (solo_cluster solo2)"
    by (rule step [OF _ 2]) (simp add: solo_step2 solo_states)
  moreover have "cluster_step toy_env solo {PublicKey 1} (\<lambda>k v. False) solo_boot_system (solo_cluster solo2) (solo_cluster solo3)"
    by (rule step [OF _ 3]) (simp add: solo_step3 solo_states)
  ultimately show ?thesis by (meson r_into_rtranclp rtranclp_trans)
qed

theorem agreement_witness:
  "extends toy_env {PublicKey 1} (solo_system solo3) (block_ref toy_env B1) (block_ref toy_env B1)"
proof -
  have spawn: "\<forall>a \<in> {PublicKey 1}. spawned solo (\<lambda>_. Parameters_default) (\<lambda>_. SecretKey 0) a (solo_cluster solo_start a)"
    using solo_spawn solo_node_boot by (auto simp: spawned_def solo_cluster_def)
  have c: "ToCommit B1 \<in> set (c_out (cs_core (solo_cluster solo3 (PublicKey 1))))"
    by (simp add: solo_cluster_def solo_states out3_def)
  from agreement [OF solo_mostly_correct toy_rocks toy_batch_complete spawn solo_cluster_run
      solo_cluster_cores [symmetric] solo_no_accident _ c _ c]
  show ?thesis by simp
qed

section \<open>No task but the helper stops\<close>





section \<open>Suspended blocks\<close>

text \<open>C20. A block that the core suspends because its parent is missing is not lost: it is still in the
  channel to the synchronizer's task, or the task waits for its parent or has handed it back (it, or a
  block with its digest); and once the parent is in the store, a poll of the waiting future puts the
  block into the channel to the core.\<close>

theorem suspended_blocks_resume:
  assumes "progress_env E S com sk"
    and "(Consensus_spawn name com par sk [] :: (ConfigError, _) outcome) = Ok tasks"
    and "consensus_run E (fair_input E S) tasks s" and "ToSynchronizer b \<in> set (c_out (cs_core s))"
  shows "(b \<in> set (drop (cs_sync_read s) (sync_inbox (cs_core s))) \<or> sync_covers E (cs_sync s) b)
    \<and> (\<forall>(p, b') \<in> set (sy_waiting (cs_sync s)). p = Block_parent b' \<and>
        (db.present E (c_db (cs_core s)) (Digest_to_vec p) \<longrightarrow>
           cs_loopback (snd (consensus_step E (SyncPolls (p, b')) s)) = cs_loopback s @ [b']))"
proof -
  have k: "sync_kept E s" by (rule consensus_run_kept [OF assms(1-3)])
  have "b \<in> set (sync_inbox (cs_core s))" using assms(4) by (force simp: sync_inbox_def)
  then have "b \<in> set (take (cs_sync_read s) (sync_inbox (cs_core s))) \<or> b \<in> set (drop (cs_sync_read s) (sync_inbox (cs_core s)))"
    by (metis Un_iff append_take_drop_id set_append)
  moreover have "cs_loopback (snd (consensus_step E (SyncPolls (p, b')) s)) = cs_loopback s @ [b']"
    if "(p, b') \<in> set (sy_waiting (cs_sync s))" "db.present E (c_db (cs_core s)) (Digest_to_vec p)" for p b'
    using that by (auto simp: db.present_def notify_poll_def sync_turn_def Let_def)
  moreover have "\<forall>(p, b') \<in> set (sy_waiting (cs_sync s)). p = Block_parent b'"
    using k by (auto simp: sync_kept_def sync_full_def sync_inv_def)
  ultimately show ?thesis using k by (auto simp: sync_kept_def)
qed

text \<open>The node gets the block of round 2 first: it waits for the block of round 1, and comes back.\<close>

definition after_B2 :: Core where
  "after_B2 = snd (handle_proposal toy_env B2 solo_start)"

definition after_B1 :: Core where
  "after_B1 = snd (handle_proposal toy_env B1 after_B2)"

definition waiting_task :: SyncTask where
  "waiting_task = snd (sync_block toy_env (PublicKey 1) solo 7 B2 SyncTask_new)"

lemma suspended_states:
  "handle_proposal toy_env B2 solo_start
   = (Ok (), (solo_state 2 0 (toy_qc 2 1) [] (out0 @ [ResetTimer, ToSynchronizer B2]))\<lparr>last_voted_round := 0\<rparr>)"
  "handle_proposal toy_env B1
     ((solo_state 2 0 (toy_qc 2 1) [] (out0 @ [ResetTimer, ToSynchronizer B2]))\<lparr>last_voted_round := 0\<rparr>)
   = (Ok (), (solo_state 2 0 (toy_qc 2 1) db1
       (out0 @ [ResetTimer, ToSynchronizer B2, ToProposer (PCleanup [])]))\<lparr>last_voted_round := 0\<rparr>)"
  by (simp_all add: solo_start_state core_eval solo_state_def db1_def toy_qc_def [symmetric])

lemma suspended_steps:
  "handle_proposal toy_env B2 solo_start = (Ok (), after_B2)" "handle_proposal toy_env B1 after_B2 = (Ok (), after_B1)"
  "sync_inbox after_B2 = [B2]" "ToSynchronizer B2 \<in> set (c_out after_B1)"
  "c_name after_B2 = PublicKey 1" "c_committee after_B2 = solo"
  "db.present toy_env (c_db after_B1) (Digest_to_vec (toy_digest 2))"
proof -
  have B2: "after_B2 = (solo_state 2 0 (toy_qc 2 1) [] (out0 @ [ResetTimer, ToSynchronizer B2]))\<lparr>last_voted_round := 0\<rparr>"
    by (simp add: after_B2_def suspended_states)
  have B1: "after_B1 = (solo_state 2 0 (toy_qc 2 1) db1
      (out0 @ [ResetTimer, ToSynchronizer B2, ToProposer (PCleanup [])]))\<lparr>last_voted_round := 0\<rparr>"
    by (simp only: after_B1_def B2 suspended_states snd_conv)
  show "handle_proposal toy_env B2 solo_start = (Ok (), after_B2)" "handle_proposal toy_env B1 after_B2 = (Ok (), after_B1)"
    by (simp_all only: B1 B2 suspended_states)
  show "sync_inbox after_B2 = [B2]" "ToSynchronizer B2 \<in> set (c_out after_B1)" "c_name after_B2 = PublicKey 1"
    "c_committee after_B2 = solo" "db.present toy_env (c_db after_B1) (Digest_to_vec (toy_digest 2))"
    by (simp_all add: B1 B2 sync_inbox_def out0_def db.present_def db1_def)
qed

lemma B2_parent: "Block_parent B2 = toy_digest 2"
  by (simp add: Block_parent_def)

lemma waiting_turn:
  "consensus_step toy_env (SyncTakes 7) (solo_node after_B2 SyncTask_new 0)
   = (Ok (), solo_node after_B2 waiting_task 1)"
  "sy_waiting waiting_task = [(toy_digest 2, B2)]"
proof -
  have addr: "committee_address solo (PublicKey 1) = Some toy_address" by (simp add: committee_address_def)
  show "sy_waiting waiting_task = [(toy_digest 2, B2)]"
    by (simp add: waiting_task_def sync_block_def SyncTask_new_def Let_def addr Block_parent_def)
  show "consensus_step toy_env (SyncTakes 7) (solo_node after_B2 SyncTask_new 0)
      = (Ok (), solo_node after_B2 waiting_task 1)"
    by (simp add: channel_head_def suspended_steps sync_turn_def)
      (simp add: waiting_task_def sync_block_def SyncTask_new_def Let_def addr Block_parent_def solo_node_def)
qed

theorem suspended_blocks_resume_witness:
  "sy_waiting waiting_task = [(toy_digest 2, B2)]
   \<and> cs_loopback (snd (consensus_step toy_env (SyncPolls (toy_digest 2, B2)) (solo_node after_B1 waiting_task 1))) = [B2]"
proof -
  let ?run = "consensus_run toy_env (fair_input toy_env {B1, B2, B3}) solo_tasks"
  have "?run (solo_node after_B2 SyncTask_new 0)"
    by (rule consensus_run.step [OF consensus_run.boot [OF solo_node_boot] _ solo_receives [OF suspended_steps(1)]]) simp
  then have "?run (solo_node after_B2 waiting_task 1)"
    by (rule consensus_run.step [OF _ _ waiting_turn(1)]) simp
  then have "?run (solo_node after_B1 waiting_task 1)"
    by (rule consensus_run.step [OF _ _ solo_receives [OF suspended_steps(2)]]) simp
  from suspended_blocks_resume [OF solo_progress solo_spawn this, of B2] show ?thesis
    using suspended_steps waiting_turn(2) B2_parent by (simp del: consensus_step.simps)
qed

end
