(* ===== verification/Consensus_Payload.thy ===== *)
theory Consensus_Payload
  imports Consensus_Runs Agreement
begin

text \<open>
  The payload of committed blocks. A core processes a block only when the batches of its payload are
  in the store: the payload check of a proposal, the payload waiter's join and the proposer's buffer
  each see to it, and the store forgets nothing.
\<close>

section \<open>The core\<close>

definition payload_in :: "'a env_scheme \<Rightarrow> puts \<Rightarrow> Block \<Rightarrow> bool" where
  "payload_in E db b \<longleftrightarrow> (\<forall>d \<in> set (b_payload b). db.present E db (Digest_to_vec d))"

lemma present_later: "rocks_ok E \<Longrightarrow> db.present E db k \<Longrightarrow> db.present E (ps @ db) k"
proof (induction ps)
  case (Cons p ps)
  then show ?case using db.present_mono [of E "ps @ db" k "fst p" "snd p"] by (simp add: Store_write_def)
qed simp

lemma payload_later: "rocks_ok E \<Longrightarrow> payload_in E db b \<Longrightarrow> payload_in E (ps @ db) b"
  by (auto simp: payload_in_def intro: present_later)

lemma payload_genesis [simp]: "payload_in E db Block_genesis"
  by (simp add: payload_in_def)

text \<open>
  The batches of a block are there when it is stored, committed or handed to the synchronizer; a
  block handed to the payload waiter misses at most the batches of its list.
\<close>

definition avail_inv :: "'a env_scheme \<Rightarrow> Core \<Rightarrow> bool" where
  "avail_inv E c \<longleftrightarrow> (\<forall>(k, v) \<in> set (c_db c). \<forall>b. de_block E v = Inr b \<longrightarrow> payload_in E (c_db c) b)
     \<and> (\<forall>b. ToCommit b \<in> set (c_out c) \<or> ToSynchronizer b \<in> set (c_out c) \<longrightarrow> payload_in E (c_db c) b)
     \<and> (\<forall>m b. ToPayloadWaiter (PWait m b) \<in> set (c_out c) \<longrightarrow>
          (\<forall>d \<in> set (b_payload b). d \<in> set m \<or> db.present E (c_db c) (Digest_to_vec d)))"

definition avail_env :: "'a env_scheme \<Rightarrow> Block set \<Rightarrow> bool" where
  "avail_env E S \<longleftrightarrow> rocks_ok E \<and> rocks_fresh E \<and> collision_free E S"

definition avail_kept :: "'a env_scheme \<Rightarrow> Block set \<Rightarrow> Core \<Rightarrow> Core \<Rightarrow> bool" where
  "avail_kept E S c c' \<longleftrightarrow> core_grows c c' \<and> (avail_env E S \<and> avail_inv E c \<longrightarrow> avail_inv E c')"

lemma avail_step:
  assumes r: "rocks_ok E" and i: "avail_inv E c" and out: "c_out c' = c_out c @ es" and db: "c_db c' = ps @ c_db c"
    and puts: "\<And>k v b. (k, v) \<in> set ps \<Longrightarrow> de_block E v = Inr b \<Longrightarrow> payload_in E (c_db c') b"
    and sent: "\<And>b. ToCommit b \<in> set es \<or> ToSynchronizer b \<in> set es \<Longrightarrow> payload_in E (c_db c') b"
    and wait: "\<And>m b d. ToPayloadWaiter (PWait m b) \<in> set es \<Longrightarrow> d \<in> set (b_payload b) \<Longrightarrow>
      d \<in> set m \<or> db.present E (c_db c') (Digest_to_vec d)"
  shows "avail_inv E c'"
proof -
  have "payload_in E (c_db c') b" if "payload_in E (c_db c) b" for b
    unfolding db by (rule payload_later [OF r that])
  moreover have "db.present E (c_db c') k" if "db.present E (c_db c) k" for k
    unfolding db by (rule present_later [OF r that])
  ultimately show ?thesis
    using i puts sent wait unfolding avail_inv_def out db set_append by blast
qed

text \<open>A mutation that neither stores nor commits nor hands out a block.\<close>

lemma avail_quiet:
  assumes "core_grows c c'" and "c_db c' = c_db c" and "c_out c' = c_out c @ es"
    and "\<forall>e \<in> set es. requested e = None \<and> (\<forall>b. e \<noteq> ToCommit b)"
  shows "avail_kept E S c c'"
  unfolding avail_kept_def
proof (intro conjI impI)
  assume "avail_env E S \<and> avail_inv E c"
  then show "avail_inv E c'"
    using assms by (intro avail_step [of E c c' es "[]"]) (auto simp: avail_env_def)
qed (rule assms(1))

text \<open>What the store gives as a parent has its payload.\<close>

lemma link_payload:
  assumes env: "avail_env E S" and i: "avail_inv E c" and l: "parent_link E c b p"
  shows "payload_in E (c_db c) p"
proof -
  obtain ps db where db: "c_db c = ps @ db" "parent_in E db b = Some p" using l by (auto simp: parent_link_def)
  show ?thesis
  proof (cases "QC_eq (b_qc b) QC_genesis")
    case True
    then show ?thesis using db by simp
  next
    case False
    then obtain bytes where "Store_read E db (Digest_to_vec (Block_parent b)) = Ok (Some bytes)"
      "de_block E bytes = Inr p"
      using parent_in_read db(2) by blast
    moreover from this have "(Digest_to_vec (Block_parent b), bytes) \<in> set db"
      using Store_read_put env by (auto simp: avail_env_def)
    ultimately show ?thesis using i db(1) by (fastforce simp: avail_inv_def)
  qed
qed

lemma links_payload:
  assumes env: "avail_env E S" and i: "avail_inv E c" and p: "payload_in E (c_db c) b"
    and l: "(parent_link E c)\<^sup>*\<^sup>* b x"
  shows "payload_in E (c_db c) x"
  using l by (cases rule: rtranclp.cases) (use p link_payload [OF env i] in auto)

lemma absorb_grows: "core_grows c (absorb_vote E vote c)" "core_grows c (absorb_timeout timeout c)"
  unfolding absorb_vote_def absorb_timeout_def
  by (auto split: prod.split outcome.split option.split intro: core_grows_trans [OF core_grows_aggregator core_grows_process_qc]
      core_grows_trans [OF core_grows_aggregator core_grows_advance])

interpretation avail: core_relation_any E "avail_kept E S"
  "\<lambda>c b. b \<in> S \<and> (rocks_ok E \<longrightarrow> payload_in E (c_db c) b)" False
  "\<lambda>ev. (\<forall>b. ev \<noteq> EvMessage (MPropose b)) \<and> (\<forall>k v. ev = EvStoreWrite k v \<longrightarrow> foreign E S k v)"
  for E :: "'a env_scheme" and S
proof unfold_locales
  fix c :: Core
  show "avail_kept E S c c" by (simp add: avail_kept_def core_grows_refl)
next
  fix c c' c'' :: Core
  assume "avail_kept E S c c'" "avail_kept E S c' c''"
  then show "avail_kept E S c c''" using core_grows_trans unfolding avail_kept_def by blast
next
  fix e and c :: Core
  assume "plain_effect e"
  then show "avail_kept E S c (emit e c)"
    by (intro avail_quiet [where es = "[e]"] grows.r_emit) (auto simp: emit_def plain_requested)
next
  fix e b and c :: Core
  assume e: "requested e = Some b" and j: "(b \<in> S \<and> (rocks_ok E \<longrightarrow> payload_in E (c_db c) b)) \<or> False"
  have "avail_inv E (emit e c)" if "avail_env E S" "avail_inv E c"
    by (rule avail_step [OF _ that(2), of _ "[e]" "[]"])
      (use e j that in \<open>auto simp: emit_def avail_env_def payload_in_def\<close>)
  then show "avail_kept E S c (emit e c)"
    using grows.r_request [OF e] by (simp add: avail_kept_def)
next
  fix c c' :: Core and b
  assume k: "avail_kept E S c c'" and j: "b \<in> S \<and> (rocks_ok E \<longrightarrow> payload_in E (c_db c) b)"
  obtain ps where "c_db c' = ps @ c_db c" using k by (auto simp: avail_kept_def core_grows_def)
  then show "b \<in> S \<and> (rocks_ok E \<longrightarrow> payload_in E (c_db c') b)" using j payload_later by auto
next
  fix c :: Core and block b1 b0
  assume j: "block \<in> S \<and> (rocks_ok E \<longrightarrow> payload_in E (c_db c) block)"
  have "avail_inv E (store_block E block c)" if env: "avail_env E S" and i: "avail_inv E c"
  proof (rule avail_step [OF _ i, of _ "[]" "[(Digest_to_vec (Block_digest E block), ser_block E block)]"])
    fix k v b
    assume kv: "(k, v) \<in> set [(Digest_to_vec (Block_digest E block), ser_block E block)]" "de_block E v = Inr b"
    have "de_block E (ser_block E block) = Inr block" using env j by (simp add: avail_env_def collision_free_def)
    then have "b = block" using kv by simp
    moreover have "rocks_ok E" using env by (simp add: avail_env_def)
    then have "payload_in E ([(Digest_to_vec (Block_digest E block), ser_block E block)] @ c_db c) block"
      using j by (intro payload_later) simp_all
    ultimately show "payload_in E (c_db (store_block E block c)) b" by (simp add: store_block_def Store_write_def)
  qed (use env in \<open>simp_all add: store_block_def Store_write_def avail_env_def\<close>)
  moreover have "core_grows c (store_block E block c)"
    by (auto simp: core_grows_def store_block_def Store_write_def)
  ultimately show "avail_kept E S c (store_block E block c)" by (simp add: avail_kept_def)
next
  fix c :: Core and k v
  assume "(\<forall>b. EvStoreWrite k v \<noteq> EvMessage (MPropose b))
    \<and> (\<forall>k' v'. EvStoreWrite k v = EvStoreWrite k' v' \<longrightarrow> foreign E S k' v')"
  then have f: "foreign E S k v" by blast
  then obtain e where e: "de_block E v = Inl e" by (auto simp: foreign_def)
  have "avail_inv E (c\<lparr>c_db := Store_write k v (c_db c)\<rparr>)" if env: "avail_env E S" and i: "avail_inv E c"
    by (rule avail_step [OF _ i, of _ "[]" "[(k, v)]"]) (use env e in \<open>auto simp: Store_write_def avail_env_def\<close>)
  then show "avail_kept E S c (c\<lparr>c_db := Store_write k v (c_db c)\<rparr>)"
    by (auto simp: avail_kept_def core_grows_def Store_write_def)
next
  fix c :: Core and qc
  show "avail_kept E S c (process_qc qc c)"
    by (rule avail_quiet [OF core_grows_process_qc _ out_mutations(2)]) (auto simp: core_mutations)
next
  fix c :: Core and r
  show "avail_kept E S c (advance_round r c)"
    by (rule avail_quiet [OF core_grows_advance _ out_mutations(1)]) (auto simp: core_mutations)
next
  fix c :: Core and vote
  obtain es where es: "set es \<subseteq> {ResetTimer}" "c_out (absorb_vote E vote c) = c_out c @ es"
    using out_absorb(1) by blast
  have "c_db (absorb_vote E vote c) = c_db c"
    by (auto simp: absorb_vote_def core_mutations split: prod.split outcome.split option.split)
  moreover have "core_grows c (absorb_vote E vote c)"
    by (rule absorb_grows)
  ultimately show "avail_kept E S c (absorb_vote E vote c)"
    using es by (intro avail_quiet) auto
next
  fix c :: Core and timeout
  obtain es where es: "set es \<subseteq> {ResetTimer}" "c_out (absorb_timeout timeout c) = c_out c @ es"
    using out_absorb(2) by blast
  have "c_db (absorb_timeout timeout c) = c_db c"
    by (auto simp: absorb_timeout_def core_mutations split: prod.split outcome.split option.split)
  moreover have "core_grows c (absorb_timeout timeout c)"
    by (rule absorb_grows)
  ultimately show "avail_kept E S c (absorb_timeout timeout c)"
    using es by (intro avail_quiet) auto
next
  fix c :: Core and r
  show "avail_kept E S c (increase_last_voted_round r c)"
    by (rule avail_quiet [where es = "[]"]) (auto simp: core_mutations core_grows_def)
next
  fix c :: Core and block vote
  show "avail_kept E S c (sign_vote block vote c)"
    by (rule avail_quiet [OF _ _ out_mutations(5)]) (auto simp: core_mutations core_grows_def)
next
  fix c :: Core and timeout
  show "avail_kept E S c (sign_timeout timeout c)"
    by (rule avail_quiet [OF _ _ out_mutations(6)]) (auto simp: core_mutations core_grows_def)
next
  fix c :: Core and b b1 block :: Block and blocks
  assume l: "parent_link E c b b1" "parent_link E c b1 block" and rd: "last_committed_round c < b_round block"
    and x: "\<forall>x \<in> set blocks. (parent_link E c)\<^sup>*\<^sup>* block x"
  have g: "core_grows c (deliver_commits block blocks c)" using rd by (auto simp: core_grows_def core_mutations)
  have "avail_inv E (deliver_commits block blocks c)" if env: "avail_env E S" and i: "avail_inv E c"
    by (rule avail_step [OF _ i out_mutations(7), where ps = "[]"])
      (use links_payload [OF env i link_payload [OF env i l(2)]] x env in \<open>auto simp: core_mutations avail_env_def\<close>)
  then show "avail_kept E S c (deliver_commits block blocks c)" using g by (simp add: avail_kept_def)
next
  fix c :: Core and tc
  show "avail_kept E S c (generate_proposal tc c)"
    by (rule avail_quiet [where es = "[ToProposer (PMake (c_round c) (c_high_qc c) tc)]"])
      (auto simp: generate_proposal_def emit_def core_grows_def)
qed auto

text \<open>A proposal is processed at once only when its payload is there.\<close>

lemma avail_proposal:
  assumes b: "block \<in> S" and ret: "completes (fst (handle_proposal E block c))"
  shows "avail_kept E S c (snd (handle_proposal E block c))"
proof (cases "get_leader (c_committee c) (b_round block) = (Ok (b_author block) :: (ConsensusError, PublicKey) outcome)
    \<and> Block_verify E block (c_committee c) = Ok ()")
  case True
  then have eq: "handle_proposal E block c = process_verified E block c" by (simp add: handle_proposal_def)
  let ?p = "process_qc (b_qc block) c"
  let ?c = "case b_tc block of Some tc \<Rightarrow> advance_round (tc_round tc) ?p | None \<Rightarrow> ?p"
  let ?m = "filter (\<lambda>d. \<not> db.present E (c_db ?c) (Digest_to_vec d)) (b_payload block)"
  have "checked_qc E (c_committee c) (b_qc block)" using True by (simp add: Block_verify_Ok_iff checked_qc_def)
  then have "avail_kept E S c ?p" by (rule avail.r_process_qc)
  moreover have "avail_kept E S ?p ?c" by (auto intro: avail.r_advance avail.refl split: option.split)
  ultimately have c: "avail_kept E S c ?c" by (rule avail.trans)
  have grows: "core_grows c (snd (handle_proposal E block c))"
    using handle_grows [of E "EvMessage (MPropose block)" c] by (cases "handle_proposal E block c") simp
  have "avail_inv E (snd (process_verified E block c))" if env: "avail_env E S" and i: "avail_inv E c"
  proof -
    have r: "rocks_ok E" and ic: "avail_inv E ?c" using env i c by (auto simp: avail_env_def avail_kept_def)
    have pv: "process_verified E block c = (if ?m = [] then process_block E block ?c
        else (Ok (), ?c\<lparr>c_out := c_out ?c @ [ToMempool (Synchronize ?m (b_author block)), ToPayloadWaiter (PWait ?m block)]\<rparr>))"
      unfolding process_verified_def Let_def MempoolDriver_verify_eq [OF r] with_effects_def by simp
    show ?thesis
    proof (cases "?m = []")
      case True
      then have "payload_in E (c_db ?c) block" by (auto simp: payload_in_def filter_empty_conv)
      then have "avail_kept E S ?c (snd (process_block E block ?c))"
        by (intro avail.process_block_R) (use b ret eq pv True in simp_all)
      then show ?thesis using env ic pv True by (simp add: avail_kept_def)
    next
      case False
      then show ?thesis unfolding pv
        by (simp del: filter_empty_conv)
          (rule avail_step [OF r ic, of _ "[ToMempool (Synchronize ?m (b_author block)), ToPayloadWaiter (PWait ?m block)]" "[]"]; simp)
    qed
  qed
  then show ?thesis using eq grows by (simp add: avail_kept_def)
next
  case False
  then have "snd (handle_proposal E block c) = c"
    by (cases "get_leader (c_committee c) (b_round block) :: (ConsensusError, PublicKey) outcome";
        cases "Block_verify E block (c_committee c)")
      (simp_all add: handle_proposal_def ensure_def)
  then show ?thesis by (simp add: avail.refl)
qed

lemma avail_handle:
  assumes ev: "fair_event E S c ev" and j: "\<And>b. ev = EvLoopback b \<Longrightarrow> payload_in E (c_db c) b"
    and h: "core_handle E ev c = (r, c')" "completes r"
  shows "avail_kept E S c c'"
proof (cases "\<exists>b. ev = EvMessage (MPropose b)")
  case True
  then obtain b where b: "ev = EvMessage (MPropose b)" by blast
  then have "avail_kept E S c (snd (handle_proposal E b c))"
    by (intro avail_proposal) (use ev h in simp_all)
  then show ?thesis using b h by simp
next
  case False
  have "avail_kept E S c (snd (core_handle E ev c))"
    by (rule avail.core_handle_R) (use False ev j h in auto)
  then show ?thesis using h by simp
qed

section \<open>The tasks\<close>

definition sync_avail :: "Core \<Rightarrow> SyncTask \<Rightarrow> bool" where
  "sync_avail c st \<longleftrightarrow>
     (\<forall>b \<in> looped (sy_out st) \<union> snd ` set (sy_waiting st). ToSynchronizer b \<in> set (c_out c))"

definition waiter_avail :: "'a env_scheme \<Rightarrow> Core \<Rightarrow> PayloadWaiter \<Rightarrow> bool" where
  "waiter_avail E c st \<longleftrightarrow> (\<forall>(i, m, b) \<in> set (pw_waiting st). ToPayloadWaiter (PWait m b) \<in> set (c_out c))
     \<and> (\<forall>b \<in> set (pw_loopback st). payload_in E (c_db c) b)"

definition proposer_avail :: "'a env_scheme \<Rightarrow> Core \<Rightarrow> Proposer \<Rightarrow> bool" where
  "proposer_avail E c p \<longleftrightarrow> (\<forall>d \<in> set (pr_buffer p). db.present E (c_db c) (Digest_to_vec d))
     \<and> (\<forall>b \<in> looped (pr_out p). payload_in E (c_db c) b)"

definition tasks_avail :: "'a env_scheme \<Rightarrow> Consensus \<Rightarrow> bool" where
  "tasks_avail E s \<longleftrightarrow> avail_inv E (cs_core s) \<and> sync_avail (cs_core s) (cs_sync s)
     \<and> waiter_avail E (cs_core s) (cs_waiter s) \<and> proposer_avail E (cs_core s) (cs_proposer s)
     \<and> (\<forall>b \<in> set (cs_loopback s). payload_in E (c_db (cs_core s)) b)"

lemma join_poll_done:
  assumes "join_poll E db missing = Some (Inr u)" and "d \<in> set missing"
  shows "db.present E db (Digest_to_vec d)"
proof -
  have none: "notify_poll E db d \<noteq> Some (Inl e)" for e
    using assms by (auto simp: join_poll_def split: list.splits option.splits sum.splits if_splits)
  moreover have "notify_poll E db d \<noteq> None"
    using assms by (auto simp: join_poll_def list_all_iff split: list.splits if_splits)
  ultimately obtain v where "notify_poll E db d = Some (Inr v)" by (cases "notify_poll E db d") (auto, metis sum.exhaust)
  then show ?thesis by (auto simp: notify_poll_def db.present_def split: outcome.splits option.splits)
qed

lemma sync_step_avail:
  assumes "sync_avail c st" and "sync_inv E st" and "sync_step E name com delay ev st = (r, st')"
    and "\<And>b. b \<in> set (received_blocks [ev]) \<Longrightarrow> ToSynchronizer b \<in> set (c_out c)"
  shows "sync_avail c st'"
  using sync_step_inv [OF assms(2,3)] assms(1,4) unfolding sync_avail_def by blast

lemma waiter_step_avail:
  assumes w: "waiter_avail E c st" and i: "avail_inv E c"
    and m: "\<And>m. ev = PwMessage m \<Longrightarrow> ToPayloadWaiter m \<in> set (c_out c)"
    and j: "\<And>i missing b d. ev = PwJoined i \<Longrightarrow> map_of (pw_waiting st) i = Some (missing, b) \<Longrightarrow>
      d \<in> set missing \<Longrightarrow> db.present E (c_db c) (Digest_to_vec d)"
  shows "waiter_avail E c (pw_step E ev st)"
proof (cases "(E, ev, st)" rule: pw_step.cases)
  case (3 E' k st1)
  show ?thesis
  proof (cases "map_of (pw_waiting st) k")
    case (Some mb)
    obtain missing b where mb: "mb = (missing, b)" by (cases mb)
    have "ToPayloadWaiter (PWait missing b) \<in> set (c_out c)"
      using w map_of_SomeD [OF Some] mb by (auto simp: waiter_avail_def)
    then have "payload_in E (c_db c) b"
      using i j [of k missing b] 3 Some mb by (fastforce simp: avail_inv_def payload_in_def)
    then show ?thesis
      using w 3 Some mb by (auto simp: waiter_avail_def pw_block_def pw_remove_def Let_def)
  qed (use w 3 in \<open>simp add: pw_block_def del: hm_keys_None\<close>)
qed (use w m in \<open>auto simp: waiter_avail_def pw_remove_def\<close>)

lemma proposer_step_avail:
  assumes p: "proposer_avail E c p" and s: "proposer_step E' ev p = (r, p')"
    and d: "\<And>d. ev = PrDigest d \<Longrightarrow> db.present E (c_db c) (Digest_to_vec d)"
  shows "proposer_avail E c p'"
proof (cases "(E', ev, p)" rule: proposer_step.cases)
  case (2 E1 round qc tc acks p1)
  have "p' = p \<or> pr_buffer p' = [] \<and> (looped (pr_out p') = looped (pr_out p)
      \<or> (\<exists>b. looped (pr_out p') = insert b (looped (pr_out p)) \<and> b_payload b = pr_buffer p))"
  proof (cases "Block_new E' qc tc (pr_name p) round (pr_buffer p) (pr_secret p)")
    case (Ok b)
    then show ?thesis
      using 2 s Block_new_Ok [OF Ok]
      by (cases "ack_loop (quorum_threshold (pr_committee p)) (committee_stake (pr_committee p) (pr_name p))
            (length (broadcast_addresses (pr_committee p) (pr_name p)))
            (map (committee_stake (pr_committee p)) acks) :: (ConsensusError, _) outcome")
        (auto simp: make_block_def Let_def split: if_splits)
  qed (use 2 s in \<open>auto simp: make_block_def Let_def split: if_splits\<close>)
  then show ?thesis using p by (auto simp: proposer_avail_def payload_in_def)
next
  case (3 E1 digests acks p1)
  have sub: "d \<in> set (fold removeAll digests xs) \<Longrightarrow> d \<in> set xs" for d and xs :: "Digest list"
    by (induction digests arbitrary: xs) fastforce+
  have buf: "pr_buffer p' = fold removeAll digests (pr_buffer p)" and out: "pr_out p' = pr_out p"
    using 3 s by auto
  show ?thesis using p sub [of _ "pr_buffer p"] by (simp add: proposer_avail_def buf out)
qed (use p s d in \<open>auto simp: proposer_avail_def\<close>)

section \<open>Turns\<close>

text \<open>What the tasks hold stays true of a later core, and what they hand back comes from them.\<close>

lemma tasks_later:
  assumes r: "rocks_ok E" and g: "core_grows c c'"
  shows "sync_avail c st \<Longrightarrow> sync_avail c' st" and "waiter_avail E c w \<Longrightarrow> waiter_avail E c' w"
    and "proposer_avail E c p \<Longrightarrow> proposer_avail E c' p" and "payload_in E (c_db c) b \<Longrightarrow> payload_in E (c_db c') b"
proof -
  obtain es ps where c': "c_out c' = c_out c @ es" "c_db c' = ps @ c_db c" using g by (auto simp: core_grows_def)
  have pay: "payload_in E (c_db c) x \<Longrightarrow> payload_in E (c_db c') x" for x unfolding c' by (rule payload_later [OF r])
  have pres: "db.present E (c_db c) k \<Longrightarrow> db.present E (c_db c') k" for k unfolding c' by (rule present_later [OF r])
  show "payload_in E (c_db c) b \<Longrightarrow> payload_in E (c_db c') b" by (rule pay)
  show "sync_avail c st \<Longrightarrow> sync_avail c' st" by (auto simp: sync_avail_def c')
  show "waiter_avail E c w \<Longrightarrow> waiter_avail E c' w"
    using pay by (fastforce simp: waiter_avail_def c'(1))
  show "proposer_avail E c p \<Longrightarrow> proposer_avail E c' p"
    using pay pres by (auto simp: proposer_avail_def)
qed

definition returned :: "Consensus \<Rightarrow> Block set" where
  "returned s = looped (sy_out (cs_sync s)) \<union> set (pw_loopback (cs_waiter s)) \<union> looped (pr_out (cs_proposer s))"

lemma turn_returned:
  "sync_turn E sev s = (r, s') \<Longrightarrow> b \<in> set (cs_loopback s') \<Longrightarrow> b \<in> set (cs_loopback s) \<or> b \<in> returned s'"
  "waiter_turn E wev s = (r, s') \<Longrightarrow> b \<in> set (cs_loopback s') \<Longrightarrow> b \<in> set (cs_loopback s) \<or> b \<in> returned s'"
  "proposer_turn E pev s = (r, s') \<Longrightarrow> b \<in> set (cs_loopback s') \<Longrightarrow> b \<in> set (cs_loopback s) \<or> b \<in> returned s'"
  using looped_drop
  by (fastforce simp: turn_defs returned_def set_proposed split: prod.splits dest: in_set_dropD)+

lemma tasks_avail_returned:
  assumes "avail_inv E (cs_core s')" "sync_avail (cs_core s') (cs_sync s')" "waiter_avail E (cs_core s') (cs_waiter s')"
    "proposer_avail E (cs_core s') (cs_proposer s')"
    and "\<And>b. b \<in> set (cs_loopback s') \<Longrightarrow> b \<in> set (cs_loopback s) \<or> b \<in> returned s'"
    and "\<And>b. b \<in> set (cs_loopback s) \<Longrightarrow> payload_in E (c_db (cs_core s')) b"
  shows "tasks_avail E s'"
proof -
  have "payload_in E (c_db (cs_core s')) b" if "b \<in> returned s'" for b
    using that assms(1-4) by (auto simp: returned_def sync_avail_def waiter_avail_def proposer_avail_def avail_inv_def)
  then show ?thesis using assms unfolding tasks_avail_def by blast
qed

lemma sync_turn_avail:
  assumes t: "tasks_avail E s" and l: "links_ok E s" and s: "sync_turn E ev s = (r, s')"
    and a: "\<And>b. b \<in> set (received_blocks [ev]) \<Longrightarrow> ToSynchronizer b \<in> set (c_out (cs_core s))"
  shows "tasks_avail E s'"
proof (rule tasks_avail_returned [where s = s])
  obtain st where st: "sync_step E (c_name (cs_core s)) (c_committee (cs_core s)) (cs_sync_delay s) ev (cs_sync s) = (r, st)"
    and s': "cs_sync s' = st" "cs_core s' = cs_core s" "cs_waiter s' = cs_waiter s" "cs_proposer s' = cs_proposer s"
    using s by (auto simp: sync_turn_def split: prod.splits)
  have "sync_inv E (cs_sync s)" "sync_avail (cs_core s) (cs_sync s)" using l t by (auto simp: links_ok_def tasks_avail_def)
  from sync_step_avail [OF this(2,1) st a] show "sync_avail (cs_core s') (cs_sync s')" by (simp add: s')
  show "avail_inv E (cs_core s')" "waiter_avail E (cs_core s') (cs_waiter s')"
    "proposer_avail E (cs_core s') (cs_proposer s')"
    "\<And>b. b \<in> set (cs_loopback s) \<Longrightarrow> payload_in E (c_db (cs_core s')) b"
    using t by (simp_all add: tasks_avail_def s')
qed (rule turn_returned(1) [OF s])

lemma waiter_turn_avail:
  assumes t: "tasks_avail E s" and s: "waiter_turn E ev s = (r, s')"
    and "\<And>m. ev = PwMessage m \<Longrightarrow> ToPayloadWaiter m \<in> set (c_out (cs_core s))"
    and "\<And>i missing b d. ev = PwJoined i \<Longrightarrow> map_of (pw_waiting (cs_waiter s)) i = Some (missing, b) \<Longrightarrow>
      d \<in> set missing \<Longrightarrow> db.present E (c_db (cs_core s)) (Digest_to_vec d)"
  shows "tasks_avail E s'"
proof (rule tasks_avail_returned [where s = s])
  have s': "cs_sync s' = cs_sync s" "cs_core s' = cs_core s" "cs_waiter s' = pw_step E ev (cs_waiter s)"
    "cs_proposer s' = cs_proposer s"
    using s by (auto simp: waiter_turn_def Let_def)
  have "waiter_avail E (cs_core s) (cs_waiter s)" "avail_inv E (cs_core s)" using t by (auto simp: tasks_avail_def)
  from waiter_step_avail [OF this assms(3,4)] show "waiter_avail E (cs_core s') (cs_waiter s')" by (simp add: s')
  show "avail_inv E (cs_core s')" "sync_avail (cs_core s') (cs_sync s')"
    "proposer_avail E (cs_core s') (cs_proposer s')"
    "\<And>b. b \<in> set (cs_loopback s) \<Longrightarrow> payload_in E (c_db (cs_core s')) b"
    using t by (simp_all add: tasks_avail_def s')
qed (rule turn_returned(2) [OF s])

lemma proposer_turn_avail:
  assumes t: "tasks_avail E s" and s: "proposer_turn E ev s = (r, s')"
    and d: "\<And>d. ev = PrDigest d \<Longrightarrow> db.present E (c_db (cs_core s)) (Digest_to_vec d)"
  shows "tasks_avail E s'"
proof (rule tasks_avail_returned [where s = s])
  obtain p where p: "proposer_step E ev (cs_proposer s) = (r, p)"
    and s': "cs_sync s' = cs_sync s" "cs_core s' = cs_core s" "cs_waiter s' = cs_waiter s" "cs_proposer s' = p"
    using s by (auto simp: proposer_turn_def split: prod.splits)
  have "proposer_avail E (cs_core s) (cs_proposer s)" using t by (simp add: tasks_avail_def)
  from proposer_step_avail [OF this p d] show "proposer_avail E (cs_core s') (cs_proposer s')" by (simp add: s')
  show "avail_inv E (cs_core s')" "sync_avail (cs_core s') (cs_sync s')" "waiter_avail E (cs_core s') (cs_waiter s')"
    "\<And>b. b \<in> set (cs_loopback s) \<Longrightarrow> payload_in E (c_db (cs_core s')) b"
    using t by (simp_all add: tasks_avail_def s')
qed (rule turn_returned(3) [OF s])

section \<open>Runs\<close>

text \<open>
  The mempool hands over the digests of batches that are in the store (\<open>digests_available\<close> in
  \<open>Mempool_Properties\<close>).
\<close>

fun stocked :: "'a env_scheme \<Rightarrow> ConsensusEvent \<Rightarrow> Consensus \<Rightarrow> bool" where
  "stocked E (ProposerDigest d) s \<longleftrightarrow> db.present E (c_db (cs_core s)) (Digest_to_vec d)"
| "stocked E ev s \<longleftrightarrow> True"

lemma core_step_avail:
  assumes env: "progress_env E S com sk" and t: "tasks_avail E s" and ev: "fair_event E S (cs_core s) cev"
    and h: "core_handle E cev (cs_core s) = (r, c)" "completes r"
    and loop: "\<And>b. cev = EvLoopback b \<Longrightarrow> b \<in> set (cs_loopback s)"
  shows "avail_inv E c \<and> sync_avail c (cs_sync s) \<and> waiter_avail E c (cs_waiter s)
    \<and> proposer_avail E c (cs_proposer s) \<and> (\<forall>b \<in> set (cs_loopback s). payload_in E (c_db c) b)"
proof -
  have e: "avail_env E S" and r: "rocks_ok E" using env by (simp_all add: progress_env_def avail_env_def)
  have "payload_in E (c_db (cs_core s)) b" if "cev = EvLoopback b" for b
    using t loop [OF that] by (simp add: tasks_avail_def)
  from avail_handle [OF ev this h] have "avail_inv E c" using e t by (simp add: avail_kept_def tasks_avail_def)
  then show ?thesis using tasks_later [OF r handle_grows [OF h(1)]] t by (auto simp: tasks_avail_def)
qed

lemma read_avail [simp]:
  "tasks_avail E (s\<lparr>cs_sync_read := n\<rparr>) = tasks_avail E s" "tasks_avail E (s\<lparr>cs_waiter_read := n\<rparr>) = tasks_avail E s"
  "tasks_avail E (s\<lparr>cs_proposer_read := n\<rparr>) = tasks_avail E s" "tasks_avail E (s\<lparr>cs_helper := h\<rparr>) = tasks_avail E s"
  by (simp_all add: tasks_avail_def)

lemma helper_turn_avail:
  "tasks_avail E s \<Longrightarrow> helper_receives request s = (r, s') \<Longrightarrow> tasks_avail E s'"
  "tasks_avail E s \<Longrightarrow> helper_turn E s = (r, s') \<Longrightarrow> tasks_avail E s'"
  by (metis helper_frame(1) read_avail(4)) (metis helper_frame(2) read_avail(4))

lemma task_turn_avail:
  assumes t: "tasks_avail E s" and l: "links_ok E s" and fed: "stocked E ev s"
    and step: "consensus_step E ev s = (r, s')" and none: "core_input ev s = None"
  shows "tasks_avail E s'"
  using step
proof (cases "(E, ev, s)" rule: consensus_step.cases)
  case (5 E' now s1)
  show ?thesis
  proof (cases "channel_head (sync_inbox (cs_core s)) (cs_sync_read s)")
    case (Some b)
    then show ?thesis
      using 5 step t l inbox_effect(1) [OF Some]
        sync_turn_avail [of E "s\<lparr>cs_sync_read := cs_sync_read s + 1\<rparr>" "SyncBlock now b" r s'] by simp
  qed (use 5 step t in auto)
next
  case (6 E' w s1)
  then show ?thesis using step t sync_turn_avail [OF t l, of "SyncDone w _" r s'] by (auto split: option.splits if_splits)
next
  case (7 E' now s1)
  then show ?thesis using step sync_turn_avail [OF t l, of "SyncTimer now" r s'] by simp
next
  case (8 E' s1)
  show ?thesis
  proof (cases "channel_head (waiter_inbox (cs_core s)) (cs_waiter_read s)")
    case (Some m)
    then show ?thesis
      using 8 step t inbox_effect(2) [OF Some]
        waiter_turn_avail [of E "s\<lparr>cs_waiter_read := cs_waiter_read s + 1\<rparr>" "PwMessage m" r s'] by simp
  qed (use 8 step t in auto)
next
  case (9 E' i s1)
  show ?thesis
  proof (cases "map_of (pw_waiting (cs_waiter s)) i")
    case (Some mb)
    obtain missing b where mb: "mb = (missing, b)" by (cases mb)
    have joined: "tasks_avail E s'"
      if "waiter_turn E (PwJoined i) s = (r, s')" "join_poll E (c_db (cs_core s)) missing = Some (Inr u)" for u
      by (rule waiter_turn_avail [OF t that(1)]) (use Some mb join_poll_done [OF that(2)] in auto)
    show ?thesis
      using 9 step t Some mb joined waiter_turn_avail [OF t, of "PwError i" r s']
      by (auto split: option.splits sum.splits)
  qed (use 9 step t in \<open>simp del: hm_keys_None\<close>)
next
  case (10 E' i s1)
  then show ?thesis using step waiter_turn_avail [OF t, of "PwCancelled i" r s'] by simp
next
  case (11 E' acks s1)
  show ?thesis
  proof (cases "channel_head (proposer_inbox (cs_core s)) (cs_proposer_read s)")
    case (Some m)
    then show ?thesis
      using 11 step t
        proposer_turn_avail [of E "s\<lparr>cs_proposer_read := cs_proposer_read s + 1\<rparr>" "PrMessage m acks" r s'] by simp
  qed (use 11 step t in auto)
next
  case (12 E' d s1)
  then show ?thesis using step fed proposer_turn_avail [OF t, of "PrDigest d" r s'] by simp
qed (use step none t helper_turn_avail [OF t] in \<open>auto split: outcome.splits list.splits\<close>)

lemma consensus_step_avail:
  assumes env: "progress_env E S com sk" and inv: "consensus_inv E S name com sk s" and t: "tasks_avail E s"
    and fair: "fair_input E S ev s" "stocked E ev s" and step: "consensus_step E ev s = (r, s')" and ret: "goes_on ev r"
  shows "tasks_avail E s'"
proof (cases "core_input ev s")
  case (Some cev)
  have h: "core_handle E cev (cs_core s) = (r, cs_core s')" using consensus_step_core [OF step] Some by simp
  have "completes r" using goes_on_core [OF ret Some] .
  have loop: "b \<in> set (cs_loopback s)" if "cev = EvLoopback b" for b
    using Some that by (cases "(ev, s)" rule: core_input.cases)
      (auto simp: to_core_def split: outcome.splits list.splits)
  have same: "cs_sync s' = cs_sync s" "cs_waiter s' = cs_waiter s" "cs_proposer s' = cs_proposer s"
    "set (cs_loopback s') \<subseteq> set (cs_loopback s)"
    using step Some by (cases "(E, ev, s)" rule: consensus_step.cases;
      force simp: core_turn_def split: outcome.splits list.splits prod.splits)+
  show ?thesis
    using core_step_avail [OF env t fair_core_input [OF fair(1) inv Some] h \<open>completes r\<close> loop] same
    by (auto simp: tasks_avail_def)
next
  case None
  have "links_ok E s" using inv by (simp add: consensus_inv_def)
  from task_turn_avail [OF t this fair(2) step None] show ?thesis .
qed

lemma consensus_run_avail:
  assumes env: "progress_env E S com sk"
    and spawn: "(Consensus_spawn name com par sk [] :: (ConfigError, _) outcome) = Ok tasks"
    and run: "consensus_run E (\<lambda>ev s. fair_input E S ev s \<and> stocked E ev s) tasks s"
  shows "tasks_avail E s"
  using run
proof (induction rule: consensus_run.induct)
  case (boot r s)
  note b = boot_links [OF spawn boot, of E]
  let ?c = "Core_new name com sk []"
  have e: "avail_env E S" using env by (simp add: progress_env_def avail_env_def)
  have "avail_kept E S ?c (snd (core_boot ?c))" by (rule avail.core_boot_R)
  moreover have "avail_inv E ?c" by (simp add: avail_inv_def Core_new_def)
  ultimately have "avail_inv E (cs_core s)" using b e by (simp add: avail_kept_def)
  moreover have "cs_waiter s = PayloadWaiter_new" "cs_proposer s = Proposer_new name com sk"
    using boot spawn_tasks [OF spawn] by (auto simp: consensus_boot_def split: prod.splits)
  ultimately show ?case
    using b by (simp add: tasks_avail_def sync_avail_def waiter_avail_def proposer_avail_def)
      (simp add: SyncTask_new_def PayloadWaiter_new_def Proposer_new_def)
next
  case (step s ev r s')
  have "consensus_run E (fair_input E S) tasks s" by (rule consensus_run_mono [OF step.hyps(1)]) simp
  note inv = consensus_run_inv [OF env spawn this]
  have "goes_on ev r"
    using consensus_turn [OF env inv _ _ step.hyps(3)] spawn_tasks [OF spawn] step.hyps(2) by blast
  then show ?case using consensus_step_avail [OF env inv step.IH _ _ step.hyps(3)] step.hyps(2) by blast
qed

end
