(* ===== verification/Epoch_Machine.thy ===== *)
theory Epoch_Machine
  imports Node_Model
begin

text \<open>
  The specification of the node: a replicated machine whose state is the epoch, its weights, its
  voters and the bank of the last epoch, and whose commands are the decoded client requests. The
  node refines it: contacts, senders, UUIDs and Obsido's requests change nothing of that state.
\<close>

section \<open>Replicated machines\<close>

text \<open>
  The contract: a concrete step, from a state that satisfies the invariant, does to the abstract
  state what the commands it carries do. Runs with the same commands then agree.
\<close>

locale replicated_machine =
  fixes valid :: "'c \<Rightarrow> bool"
    and exec :: "'ev \<Rightarrow> 'c \<Rightarrow> 'c"
    and abstract :: "'c \<Rightarrow> 's"
    and commands :: "'ev \<Rightarrow> 'k list"
    and apply_command :: "'k \<Rightarrow> 's \<Rightarrow> 's"
  assumes exec_valid: "valid c \<Longrightarrow> valid (exec ev c)"
    and exec_refines: "valid c \<Longrightarrow> abstract (exec ev c) = fold apply_command (commands ev) (abstract c)"
begin

lemma run_valid: "valid c \<Longrightarrow> valid (fold exec evs c)"
  by (induction evs arbitrary: c) (simp_all add: exec_valid)

lemma run_refines:
  "valid c \<Longrightarrow> abstract (fold exec evs c) = fold apply_command (concat (map commands evs)) (abstract c)"
proof (induction evs arbitrary: c)
  case (Cons ev evs)
  then show ?case using exec_valid [OF Cons.prems, of ev] exec_refines [OF Cons.prems, of ev] by simp
qed simp

lemma runs_agree:
  assumes "valid c" "valid c'" "abstract c = abstract c'"
    and "concat (map commands evs) = concat (map commands evs')"
  shows "abstract (fold exec evs c) = abstract (fold exec evs' c')"
  using assms by (simp add: run_refines)

end

section \<open>The specification\<close>

record EpochState =
  ep_quorum :: nat
  ep_id :: i64
  ep_weights :: "string \<rightharpoonup> byte list"
  ep_voted :: "string set"
  ep_last :: "i64 \<times> (string \<rightharpoonup> byte list)"

definition next_epoch :: "EpochState \<Rightarrow> EpochState" where
  "next_epoch s = s\<lparr>ep_id := ep_id s + 1, ep_weights := Map.empty, ep_voted := {},
     ep_last := (ep_id s, ep_weights s)\<rparr>"

definition apply_update :: "string \<Rightarrow> byte list option \<Rightarrow> EpochState \<Rightarrow> EpochState" where
  "apply_update name weights s =
     (case weights of None \<Rightarrow> s | Some w \<Rightarrow> s\<lparr>ep_weights := (ep_weights s)(name \<mapsto> w)\<rparr>)"

definition apply_vote :: "string \<Rightarrow> EpochState \<Rightarrow> EpochState" where
  "apply_vote name s =
     (if name \<in> ep_voted s then s
      else if Suc (card (ep_voted s)) < ep_quorum s then s\<lparr>ep_voted := insert name (ep_voted s)\<rparr>
      else next_epoch s)"

definition apply_request :: "ClientRequest \<Rightarrow> EpochState \<Rightarrow> EpochState" where
  "apply_request request s =
     (if rq_target_epoch_id request \<noteq> ep_id s then s
      else if rq_method request = 0 then apply_update (rq_client_name request) (rq_weights request) s
      else if rq_method request = 1 then apply_vote (rq_client_name request) s
      else s)"

definition node_abs :: "Node \<Rightarrow> EpochState" where
  "node_abs st =
     \<lparr>ep_quorum = nd_quorum st, ep_id = dk_epoch_id (nd_cur st),
      ep_weights = map_of (dk_client_weights (nd_cur st)), ep_voted = nd_voted st,
      ep_last = (dk_epoch_id (nd_last st), map_of (dk_client_weights (nd_last st)))\<rparr>"

definition event_requests :: "'a node_env_scheme \<Rightarrow> NodeEvent \<Rightarrow> ClientRequest list" where
  "event_requests E ev =
     (case ev of
        NdTransaction tx \<Rightarrow> (case decode_client E tx of Inl e \<Rightarrow> [] | Inr request \<Rightarrow> [request])
      | NdObsido tx \<Rightarrow> [])"

text \<open>
  The invariant: fewer votes than the quorum are held, the published bank is that of the epoch before,
  and a client has one weight in the bank.
\<close>

definition node_inv :: "Node \<Rightarrow> bool" where
  "node_inv st \<longleftrightarrow> finite (nd_voted st) \<and> (0 < nd_quorum st \<longrightarrow> card (nd_voted st) < nd_quorum st)
     \<and> dk_epoch_id (nd_cur st) = dk_epoch_id (nd_last st) + 1
     \<and> distinct_keys (dk_client_weights (nd_cur st)) \<and> distinct_keys (dk_client_weights (nd_last st))"

lemma node_inv_new [simp]: "node_inv (Node_new q)"
  by (simp add: node_inv_def Node_new_def DeflDatabank_new_def)

section \<open>Frames\<close>

text \<open>What the invariant and the abstraction do not look at.\<close>

lemma node_frame [simp]:
  "node_inv (st\<lparr>nd_sender := s\<rparr>) = node_inv st" "node_abs (st\<lparr>nd_sender := s\<rparr>) = node_abs st"
  "node_inv (st\<lparr>nd_obsido_sender := s\<rparr>) = node_inv st" "node_abs (st\<lparr>nd_obsido_sender := s\<rparr>) = node_abs st"
  "node_inv (st\<lparr>nd_contacts := cs\<rparr>) = node_inv st" "node_abs (st\<lparr>nd_contacts := cs\<rparr>) = node_abs st"
  "node_inv (st\<lparr>nd_uuids := n\<rparr>) = node_inv st" "node_abs (st\<lparr>nd_uuids := n\<rparr>) = node_abs st"
  by (simp_all add: node_inv_def node_abs_def)

lemma draw_uuid_frame [simp]:
  "node_inv (snd (draw_uuid E st)) = node_inv st" "node_abs (snd (draw_uuid E st)) = node_abs st"
  by (simp_all add: draw_uuid_def)

lemma answer_frame [simp]:
  "node_inv (snd (answer_client E name r st)) = node_inv st"
  "node_abs (snd (answer_client E name r st)) = node_abs st"
  "node_inv (snd (answer_all E w st)) = node_inv st"
  "node_abs (snd (answer_all E w st)) = node_abs st"
  by (simp_all add: answer_client_def answer_all_def split: prod.split option.split)

lemma obsido_frame:
  "node_inv (snd (obsido_handle E tx st)) = node_inv st \<and> node_abs (snd (obsido_handle E tx st)) = node_abs st"
  by (auto simp: obsido_handle_def fetch_w_last_def draw_uuid_def Let_def
      split: sum.split option.split ObsidoMethod.split prod.split)

section \<open>The handlers refine the specification\<close>

lemma upd_weights_abs:
  "node_abs (snd (upd_weights request st)) =
     (if rq_target_epoch_id request = ep_id (node_abs st)
      then apply_update (rq_client_name request) (rq_weights request) (node_abs st) else node_abs st)"
  by (auto simp: upd_weights_def node_abs_def apply_update_def map_of_AList_update fun_eq_iff
      split: bool.splits option.split)

lemma upd_weights_inv: "node_inv st \<Longrightarrow> node_inv (snd (upd_weights request st))"
  by (auto simp: upd_weights_def node_inv_def split: bool.split option.split)

lemma new_epoch_vote_abs:
  "node_inv st \<Longrightarrow> node_abs (snd (new_epoch_vote E request st)) =
     (if rq_target_epoch_id request = ep_id (node_abs st)
      then apply_vote (rq_client_name request) (node_abs st) else node_abs st)"
  by (auto simp: new_epoch_vote_def node_inv_def node_abs_def apply_vote_def next_epoch_def
      enter_epoch_def draw_uuid_def Let_def)

lemma new_epoch_vote_inv: "node_inv st \<Longrightarrow> node_inv (snd (new_epoch_vote E request st))"
  by (auto simp: new_epoch_vote_def node_inv_def enter_epoch_def draw_uuid_def Let_def)

lemma get_responses_state:
  "snd (get_responses E request st) = snd (draw_uuid E (case ClientMethod_from_i32 (rq_method request) of
       Some UpdWeights \<Rightarrow> snd (upd_weights request st)
     | Some NewEpochVote \<Rightarrow> snd (new_epoch_vote E request st) | None \<Rightarrow> st))"
  by (simp add: get_responses_def draw_uuid_def split: prod.split option.split ClientMethod.split)

lemma get_responses_abs:
  "node_inv st \<Longrightarrow> node_abs (snd (get_responses E request st)) = apply_request request (node_abs st)"
  by (simp add: get_responses_state ClientMethod_from_i32_def apply_request_def upd_weights_abs
      new_epoch_vote_abs)

lemma get_responses_inv: "node_inv st \<Longrightarrow> node_inv (snd (get_responses E request st))"
  by (simp add: get_responses_state ClientMethod_from_i32_def upd_weights_inv new_epoch_vote_inv)

text \<open>The answers come after the request was applied: their failure leaves the state applied.\<close>

lemma analyze_transaction_state:
  assumes "decode_client E tx = Inr request"
  shows "node_abs (snd (analyze_transaction E tx st)) = node_abs (snd (get_responses E request st))
    \<and> node_inv (snd (analyze_transaction E tx st)) = node_inv (snd (get_responses E request st))"
proof -
  obtain response w st1 where g: "get_responses E request st = ((response, w), st1)"
    by (cases "get_responses E request st") auto
  obtain r st2 where a: "answer_client E (rq_client_name request) response st1 = (r, st2)"
    by (cases "answer_client E (rq_client_name request) response st1")
  have "node_abs st2 = node_abs st1" "node_inv st2 = node_inv st1"
    using answer_frame(1,2) [of E "rq_client_name request" response st1] a by simp_all
  then show ?thesis using assms g a by (cases r) (simp_all add: analyze_transaction_def)
qed

interpretation node_machine:
  replicated_machine node_inv "node_step E" node_abs "event_requests E" apply_request
  for E :: "'a node_env_scheme"
proof unfold_locales
  fix c ev
  assume inv: "node_inv c"
  show "node_inv (node_step E ev c)"
  proof (cases ev)
    case (NdTransaction tx)
    then show ?thesis
      using inv get_responses_inv [OF inv] analyze_transaction_state [of E tx _ c]
      by (cases "decode_client E tx") (auto simp: analyze_transaction_def)
  qed (use inv obsido_frame in auto)
  show "node_abs (node_step E ev c) = fold apply_request (event_requests E ev) (node_abs c)"
  proof (cases ev)
    case (NdTransaction tx)
    then show ?thesis
      using get_responses_abs [OF inv] analyze_transaction_state [of E tx _ c]
      by (cases "decode_client E tx") (auto simp: analyze_transaction_def event_requests_def)
  qed (use obsido_frame in \<open>auto simp: event_requests_def\<close>)
qed

section \<open>Blocks\<close>

text \<open>The transactions of a payload, as the store held them when they were read.\<close>

definition batch_of :: "'a node_env_scheme \<Rightarrow> puts \<Rightarrow> Digest \<Rightarrow> Batch" where
  "batch_of E db digest =
     (case Store_read E db (Digest_to_vec digest) of
        Ok (Some bytes) \<Rightarrow> (case de_mempool E bytes of Inr (MBatch batch) \<Rightarrow> batch | _ \<Rightarrow> [])
      | _ \<Rightarrow> [])"

fun payload_txs :: "'a node_env_scheme \<Rightarrow> (nat \<Rightarrow> puts) \<Rightarrow> Digest list \<Rightarrow> byte list list" where
  "payload_txs E dbs [] = []"
| "payload_txs E dbs (digest # payload) = batch_of E (dbs 0) digest @ payload_txs E (\<lambda>n. dbs (Suc n)) payload"

definition blocks_txs :: "'a node_env_scheme \<Rightarrow> ((nat \<Rightarrow> puts) \<times> Block) list \<Rightarrow> byte list list" where
  "blocks_txs E blocks = concat (map (\<lambda>(dbs, block). payload_txs E dbs (b_payload block)) blocks)"

lemma node_run_append: "node_run E (xs @ ys) st = node_run E ys (node_run E xs st)"
  by (simp add: node_run_def)

lemma analyze_batch_Ok:
  "analyze_batch E txs st = (Ok (), st') \<Longrightarrow> st' = node_run E (map NdTransaction txs) st"
proof (induction txs arbitrary: st)
  case (Cons tx txs)
  from Cons.prems obtain st1 where "analyze_transaction E tx st = (Ok (), st1)"
    "analyze_batch E txs st1 = (Ok (), st')"
    by (auto simp: then_ok_Ok_iff)
  with Cons.IH show ?case by (simp add: node_run_def)
qed (simp add: node_run_def)

lemma analyze_payload_Ok:
  "analyze_payload E dbs payload st = (Ok (), st') \<Longrightarrow>
     st' = node_run E (map NdTransaction (payload_txs E dbs payload)) st"
proof (induction payload arbitrary: dbs st)
  case (Cons digest payload)
  from Cons.prems obtain bytes where bytes: "Store_read E (dbs 0) (Digest_to_vec digest) = Ok (Some bytes)"
    by (auto split: outcome.splits option.splits)
  then obtain st1 where "st1 = node_run E (map NdTransaction (batch_of E (dbs 0) digest)) st"
    and "analyze_payload E (\<lambda>n. dbs (Suc n)) payload st1 = (Ok (), st')"
    using Cons.prems analyze_batch_Ok
    by (auto simp: batch_of_def node_run_def then_ok_Ok_iff split: sum.splits MempoolMessage.splits)
  with Cons.IH show ?case by (simp add: node_run_append)
qed (simp add: node_run_def)

lemma analyze_blocks_Ok:
  "analyze_blocks E blocks st = (Ok (), st') \<Longrightarrow>
     st' = node_run E (map NdTransaction (blocks_txs E blocks)) st"
proof (induction blocks arbitrary: st)
  case (Cons b blocks)
  obtain dbs block where b: "b = (dbs, block)" by (cases b)
  have "\<exists>st1. st1 = node_run E (map NdTransaction (payload_txs E dbs (b_payload block))) st
      \<and> analyze_blocks E blocks st1 = (Ok (), st')"
  proof (cases "b_payload block = []")
    case True
    then show ?thesis using Cons.prems b by (simp add: node_run_def)
  next
    case False
    then show ?thesis
      using Cons.prems b analyze_payload_Ok [of E dbs "b_payload block" st] by (auto simp: then_ok_Ok_iff)
  qed
  with Cons.IH b show ?case by (simp add: blocks_txs_def node_run_append)
qed (simp add: node_run_def blocks_txs_def)

lemma event_requests_txs:
  "concat (map (event_requests E) (map NdTransaction txs))
   = concat (map (\<lambda>tx. case decode_client E tx of Inl e \<Rightarrow> [] | Inr r \<Rightarrow> [r]) txs)"
  by (induction txs) (simp_all add: event_requests_def)

section \<open>Votes\<close>

definition vote_request :: "i64 \<Rightarrow> string \<Rightarrow> ClientRequest" where
  "vote_request e name = \<lparr>rq_method = 1, rq_request_uuid = [], rq_client_name = name,
     rq_target_epoch_id = e, rq_weights = None\<rparr>"

lemma votes_below:
  assumes "finite (ep_voted s)" "distinct names" "set names \<inter> ep_voted s = {}"
    and "card (ep_voted s) + length names < ep_quorum s"
  shows "fold (\<lambda>n. apply_request (vote_request (ep_id s) n)) names s
    = s\<lparr>ep_voted := set names \<union> ep_voted s\<rparr>"
  using assms
proof (induction names rule: rev_induct)
  case (snoc n names)
  let ?s = "s\<lparr>ep_voted := set names \<union> ep_voted s\<rparr>"
  have "card (set names \<union> ep_voted s) = length names + card (ep_voted s)"
    using snoc.prems by (subst card_Un_disjoint) (auto simp: distinct_card)
  moreover have "n \<notin> set names \<union> ep_voted s" using snoc.prems by auto
  ultimately have "apply_vote n ?s = s\<lparr>ep_voted := set (names @ [n]) \<union> ep_voted s\<rparr>"
    using snoc.prems by (simp add: apply_vote_def)
  then show ?case using snoc by (simp add: apply_request_def vote_request_def)
qed simp

lemma votes_reach:
  assumes "finite (ep_voted s)" "distinct (names @ [n])" "set (names @ [n]) \<inter> ep_voted s = {}"
    and "card (ep_voted s) + length (names @ [n]) = ep_quorum s"
  shows "fold (\<lambda>n. apply_request (vote_request (ep_id s) n)) (names @ [n]) s = next_epoch s"
proof -
  let ?s = "s\<lparr>ep_voted := set names \<union> ep_voted s\<rparr>"
  have "fold (\<lambda>n. apply_request (vote_request (ep_id s) n)) names s = ?s"
    using assms by (intro votes_below) auto
  moreover have "card (set names \<union> ep_voted s) = length names + card (ep_voted s)"
    using assms by (subst card_Un_disjoint) (auto simp: distinct_card)
  moreover have "n \<notin> set names \<union> ep_voted s" using assms by auto
  ultimately show ?thesis
    using assms by (simp add: apply_request_def vote_request_def apply_vote_def next_epoch_def)
qed

end
