(* ===== verification/Concrete_Node.thy ===== *)
theory Concrete_Node
  imports Concrete Epoch_Machine Mempool_Tasks
begin

text \<open>
  A concrete environment for the mempool and the node, for the witnesses of their properties. Mempool
  messages have a real encoding, so that \<open>mempool_bincode_ok\<close> holds; a client request is three bytes
  (method, name, epoch), with a fourth for the weights; the hash sums up the bytes.
\<close>

section \<open>An encoding of mempool messages\<close>

text \<open>Each byte of a transaction is preceded by 1; 0 ends the transaction.\<close>

definition tx_code :: "Transaction \<Rightarrow> byte list" where
  "tx_code tx = concat (map (\<lambda>b. [1, b]) tx) @ [0]"

fun split_txs :: "Transaction \<Rightarrow> byte list \<Rightarrow> Batch" where
  "split_txs acc [] = []"
| "split_txs acc [m] = [acc]"
| "split_txs acc (m # b # bs) = (if m = 0 then acc # split_txs [] (b # bs) else split_txs (acc @ [b]) bs)"

fun split_digests :: "byte list \<Rightarrow> Digest list" where
  "split_digests bs = (if bs = [] then [] else Digest (first32 bs) # split_digests (drop 32 bs))"

declare split_digests.simps [simp del]

fun ser_toy :: "MempoolMessage \<Rightarrow> byte list" where
  "ser_toy (MBatch batch) = 0 # concat (map tx_code batch)"
| "ser_toy (MBatchRequest missing (PublicKey w)) = 1 # bytes32 w @ concat (map Digest_to_vec missing)"

definition de_toy :: "byte list \<Rightarrow> string + MempoolMessage" where
  "de_toy bs =
     (case bs of
        [] \<Rightarrow> Inl ''empty''
      | m # bs \<Rightarrow>
          if m = 0 then Inr (MBatch (split_txs [] bs))
          else if m = 1 then Inr (MBatchRequest (split_digests (drop 32 bs)) (PublicKey (first32 bs)))
          else Inl ''unknown message'')"

lemma split_txs_bytes:
  "split_txs acc (concat (map (\<lambda>b. [1, b]) tx) @ 0 # bs) = (acc @ tx) # split_txs [] bs"
proof (induction tx arbitrary: acc)
  case Nil
  show ?case by (cases bs) simp_all
qed simp

lemma split_txs_code: "split_txs [] (concat (map tx_code batch)) = batch"
  by (induction batch) (simp_all add: tx_code_def split_txs_bytes)

lemma first32_prefix [simp]: "first32 (bytes32 w @ rest) = w"
proof -
  have "take 32 (bytes32 w @ rest) = take 32 (bytes32 w)" by simp
  then have "first32 (bytes32 w @ rest) = first32 (bytes32 w)" by (simp only: first32_def)
  then show ?thesis by simp
qed

lemma split_digests_code: "split_digests (concat (map Digest_to_vec missing)) = missing"
proof (induction missing)
  case (Cons d ds)
  have "Digest_to_vec d \<noteq> []" by (metis length_0_conv length_Digest_to_vec zero_neq_numeral)
  moreover have "Digest (first32 (Digest_to_vec d @ rest)) = d" for rest
    by (cases d) (simp add: Digest_to_vec_def)
  moreover have "drop 32 (Digest_to_vec d @ rest) = rest" for rest by simp
  ultimately show ?case using Cons by (simp add: split_digests.simps [of "Digest_to_vec d @ _"])
qed (simp add: split_digests.simps)

lemma de_toy_ser_toy [simp]: "de_toy (ser_toy m) = Inr m"
proof (cases m)
  case (MBatchRequest missing requestor)
  then show ?thesis by (cases requestor) (simp add: de_toy_def split_digests_code)
qed (simp add: de_toy_def split_txs_code)

section \<open>Client requests\<close>

fun decode_toy :: "byte list \<Rightarrow> string + ClientRequest" where
  "decode_toy [m, n, e] = Inr \<lparr>rq_method = ucast m, rq_request_uuid = [], rq_client_name = [char_of (unat n)],
     rq_target_epoch_id = ucast e, rq_weights = None\<rparr>"
| "decode_toy [m, n, e, w] = Inr \<lparr>rq_method = ucast m, rq_request_uuid = [], rq_client_name = [char_of (unat n)],
     rq_target_epoch_id = ucast e, rq_weights = Some [w]\<rparr>"
| "decode_toy bs = Inl ''invalid request''"

text \<open>A registration: method 1, a name, and a host: localhost or a text that is no address.\<close>

fun obsido_toy :: "byte list \<Rightarrow> string + ObsidoRequest" where
  "obsido_toy [m, n, h] = Inr \<lparr>ob_method = ucast m, ob_request_uuid = [], ob_client_name = [char_of (unat n)],
     ob_register_info = Some (let host = if h = 0 then ''127.0.0.1'' else ''localhost''
       in \<lparr>ri_host = host, ri_port = 9000, ri_pasv_host = host, ri_pasv_port = 9001\<rparr>)\<rparr>"
| "obsido_toy bs = Inl ''invalid request''"

definition node_toy :: node_env where
  "node_toy =
     \<lparr>sha512 = (\<lambda>bs. toy_bytes (sum_list bs)),
      ed_sign = (\<lambda>sk m. Some toy_sig_bytes), ed_sig_ok = (\<lambda>s. True), ed_key_ok = (\<lambda>k. True),
      ed_verify_strict = (\<lambda>k m s. True), ed_verify_batch = (\<lambda>ms ss ks. True),
      b64_encode = map (\<lambda>b. char_of (unat b)), b64_decode = (\<lambda>s. Ok (map of_char s)),
      db_get = (\<lambda>h k. Inr (map_of h k)),
      ser_block = toy_ser, de_block = toy_de,
      ser_mempool = ser_toy, de_mempool = de_toy,
      client_decodes = (\<lambda>m. length m = 3 \<or> length m = 4),
      decode_client = decode_toy, decode_obsido = obsido_toy,
      encode_response = (\<lambda>r. [ucast (re_stat r)]), encode_weights = (\<lambda>w. [ucast (wr_r_last_epoch_id w)]),
      parse_ipv6 = (\<lambda>s. None), new_uuid = (\<lambda>n. replicate n (CHR ''u'')), conn_alive = (\<lambda>n. UNIV)\<rparr>"

lemma node_toy_sel [simp]:
  "ser_mempool node_toy = ser_toy" "de_mempool node_toy = de_toy"
  "client_decodes node_toy m \<longleftrightarrow> length m = 3 \<or> length m = 4"
  "decode_client node_toy = decode_toy" "decode_obsido node_toy = obsido_toy"
  "conn_alive node_toy n = UNIV" "parse_ipv6 node_toy s = None"
  "encode_response node_toy r = [ucast (re_stat r)]" "new_uuid node_toy n = replicate n (CHR ''u'')"
  "encode_weights node_toy w = [ucast (wr_r_last_epoch_id w)]"
  by (simp_all add: node_toy_def)

lemma node_toy_ok [simp]: "rocks_ok node_toy" "rocks_fresh node_toy" "mempool_bincode_ok node_toy"
  by (simp_all add: rocks_ok_def rocks_fresh_def mempool_bincode_ok_def node_toy_def)

lemma node_toy_sha [simp]: "sha_digest node_toy bs = toy_digest (sum_list bs)"
  by (simp add: sha_digest_def node_toy_def toy_digest_def)

lemma node_toy_store [simp]: "Store_read node_toy db k = Ok (map_of db k)"
  by (simp add: Store_read_def node_toy_def)

lemma node_toy_codec [simp]: "client_codec node_toy"
proof -
  have "length m = 3 \<or> length m = 4 \<longleftrightarrow> (\<exists>r. decode_toy m = Inr r)" for m
    by (cases m rule: decode_toy.cases) simp_all
  then show ?thesis by (simp add: client_codec_def)
qed

section \<open>A mempool committee\<close>

definition port :: "u16 \<Rightarrow> SocketAddr" where
  "port p = SocketAddr (V4 0x0A000001) p"

definition mp_four :: MpCommittee where
  "mp_four = MpCommittee_new [(PublicKey 1, 1, port 1, port 11), (PublicKey 2, 1, port 2, port 12),
     (PublicKey 3, 1, port 3, port 13), (PublicKey 4, 1, port 4, port 14)] 1"

lemma mp_four_authorities [simp]: "mp_authorities mp_four =
   [(PublicKey 1, \<lparr>ma_stake = 1, ma_transactions_address = port 1, ma_mempool_address = port 11\<rparr>),
    (PublicKey 2, \<lparr>ma_stake = 1, ma_transactions_address = port 2, ma_mempool_address = port 12\<rparr>),
    (PublicKey 3, \<lparr>ma_stake = 1, ma_transactions_address = port 3, ma_mempool_address = port 13\<rparr>),
    (PublicKey 4, \<lparr>ma_stake = 1, ma_transactions_address = port 4, ma_mempool_address = port 14\<rparr>)]"
  by (simp add: mp_four_def MpCommittee_new_def)

lemma mp_four_facts [simp]:
  "mp_valid mp_four" "mp_quorum_threshold mp_four = 3"
  "mp_members mp_four = {PublicKey 1, PublicKey 2, PublicKey 3, PublicKey 4}"
  "mp_mempool_address mp_four (PublicKey 1) = Some (port 11)"
  "mp_mempool_address mp_four (PublicKey 2) = Some (port 12)"
  "mp_transactions_address mp_four (PublicKey 1) = Some (port 1)"
  by (simp_all add: mp_valid_def committee_valid_def mp_as_committee_def total_stake_def
      mp_quorum_threshold_def mp_total_votes_def mp_members_def mp_mempool_address_def
      mp_transactions_address_def distinct_keys_def)

lemma mp_four_stake [simp]:
  "mp_stake mp_four n = (if n \<in> {PublicKey 1, PublicKey 2, PublicKey 3, PublicKey 4} then 1 else 0)"
  by (simp add: mp_stake_def)

end
