(* ===== verification/Mempool_Properties.thy ===== *)
theory Mempool_Properties
  imports Concrete_Node
begin

text \<open>
  Properties of the mempool: batches, the quorum of acknowledgements, what reaches the consensus, the
  requests for missing batches and the answers to them.
\<close>

section \<open>Batches\<close>

text \<open>The batches sealed so far, and the bound on what came before the transaction that filled one.\<close>

definition batch_bound :: "u64 \<Rightarrow> Batch \<Rightarrow> bool" where
  "batch_bound n batch \<longleftrightarrow> batch \<noteq> [] \<and> (butlast batch = [] \<or> length (concat (butlast batch)) < unat n)"

lemma length_concat_butlast: "length (concat (butlast batch)) \<le> length (concat batch)"
  by (cases batch rule: rev_cases) simp_all

lemma batch_maker_step_bound:
  assumes env: "mempool_bincode_ok E" and ok: "batch_maker_ok bm"
    and fits: "length (concat (bm_current_batch bm @ bm_received [ev])) < 2 ^ 64"
    and bound: "\<forall>b \<in> set (bm_sealed E (bm_out bm)). batch_bound (bm_batch_size bm) b"
  shows "\<forall>b \<in> set (bm_sealed E (bm_out (batch_maker_step E ev bm))). batch_bound (bm_batch_size bm) b"
proof -
  let ?cur = "bm_current_batch bm"
  have "unat (of_nat (length (concat ?cur)) :: u64) = length (concat ?cur)"
    using fits by (simp add: unat_of_nat)
  then have small: "?cur = [] \<or> length (concat ?cur) < unat (bm_batch_size bm)"
    using ok by (auto simp: batch_maker_ok_def word_less_nat_alt)
  show ?thesis
  proof (cases ev)
    case (BmTransaction tx)
    have "batch_bound (bm_batch_size bm) (?cur @ [tx])" using small by (simp add: batch_bound_def)
    then show ?thesis using BmTransaction bound by (auto simp: Let_def seal_sealed [OF env])
  next
    case BmTimer
    have "batch_bound (bm_batch_size bm) ?cur" if "?cur \<noteq> []"
      using small that length_concat_butlast [of ?cur] by (simp add: batch_bound_def)
    then show ?thesis using BmTimer bound by (auto simp: seal_sealed [OF env])
  qed
qed

lemma batch_maker_step_size [simp]: "bm_batch_size (batch_maker_step E ev bm) = bm_batch_size bm"
  by (cases ev) (simp_all add: Let_def seal_fields)

lemma batch_maker_step_rest:
  "length (concat (bm_current_batch (batch_maker_step E ev bm))) \<le> length (concat (bm_current_batch bm @ bm_received [ev]))"
  by (cases ev) (simp_all add: Let_def seal_fields)

lemma batch_maker_run_bound:
  assumes "mempool_bincode_ok E" "batch_maker_ok bm"
    and "length (concat (bm_current_batch bm @ bm_received evs)) < 2 ^ 64"
    and "\<forall>b \<in> set (bm_sealed E (bm_out bm)). batch_bound (bm_batch_size bm) b"
  shows "\<forall>b \<in> set (bm_sealed E (bm_out (batch_maker_run E evs bm))). batch_bound (bm_batch_size bm) b"
  using assms(2-4)
proof (induction evs arbitrary: bm)
  case (Cons ev evs)
  let ?bm = "batch_maker_step E ev bm"
  have len: "length (concat (bm_current_batch bm @ bm_received [ev])) + length (concat (bm_received evs)) < 2 ^ 64"
    using Cons.prems(2) by (subst (asm) bm_received_Cons) simp
  then have "length (concat (bm_current_batch ?bm @ bm_received evs)) < 2 ^ 64"
    using batch_maker_step_rest [of E ev bm] by simp
  from Cons.IH [OF batch_maker_step_ok [OF Cons.prems(1)] this]
    batch_maker_step_bound [OF assms(1) Cons.prems(1) _ Cons.prems(3), of ev] len
  show ?case by (simp add: batch_maker_run_def)
qed (simp add: batch_maker_run_def)

text \<open>C14. The batch maker loses, duplicates and reorders nothing: the sealed batches in order, then the
  batch in the making, are the transactions received. No sealed batch is empty, and without its last
  transaction it is below the batch size (or empty); what is left is below it too.\<close>

theorem batches_conserve:
  assumes "mempool_bincode_ok E" and "length (concat (bm_received evs)) < 2 ^ 64"
    and "batch_maker_run E evs (BatchMaker_new n addresses) = bm"
  shows "concat (bm_sealed E (bm_out bm)) @ bm_current_batch bm = bm_received evs
    \<and> (\<forall>batch \<in> set (bm_sealed E (bm_out bm)). batch_bound n batch)
    \<and> bm_current_batch_size bm = of_nat (length (concat (bm_current_batch bm)))
    \<and> (bm_current_batch bm \<noteq> [] \<longrightarrow> bm_current_batch_size bm < n)"
proof -
  let ?new = "BatchMaker_new n addresses"
  have new: "bm_out ?new = []" "bm_current_batch ?new = []" "bm_batch_size ?new = n"
    by (simp_all add: BatchMaker_new_def)
  have "bm_batch_size (batch_maker_run E evs ?new) = n"
    unfolding batch_maker_run_def using new(3) by (induction evs arbitrary: n addresses rule: rev_induct) simp_all
  with batch_maker_run_conserves [OF assms(1), of evs ?new] batch_maker_run_ok [OF batch_maker_ok_new, of E evs n addresses]
    batch_maker_run_bound [OF assms(1) batch_maker_ok_new, of n addresses evs] assms(2,3) new
  show ?thesis by (auto simp: batch_maker_ok_def)
qed

theorem batches_conserve_witness:
  "bm_sealed node_toy (bm_out (batch_maker_run node_toy
     [BmTransaction [0, 1, 0], BmTransaction [1, 1, 0], BmTransaction [0, 2, 0, 5], BmTimer, BmTimer]
     (BatchMaker_new 5 []))) = [[[0, 1, 0], [1, 1, 0]], [[0, 2, 0, 5]]]
   \<and> batch_bound 5 [[0, 1, 0], [1, 1, 0]]"
proof -
  let ?evs = "[BmTransaction [0, 1, 0], BmTransaction [1, 1, 0], BmTransaction [0, 2, 0, 5], BmTimer, BmTimer]"
  have "bm_sealed node_toy (bm_out (batch_maker_run node_toy ?evs (BatchMaker_new 5 [])))
      = [[[0, 1, 0], [1, 1, 0]], [[0, 2, 0, 5]]]"
    by (simp add: batch_maker_run_def BatchMaker_new_def Let_def seal_def bm_sealed_def del: ser_toy.simps)
  moreover have "length (concat (bm_received ?evs)) < 2 ^ 64" by simp
  ultimately show ?thesis using batches_conserve [OF node_toy_ok(3) _ refl, of ?evs 5 "[]"] by simp
qed

section \<open>Acknowledgements\<close>

lemma mp_quorum_acks:
  assumes "mp_valid com" "name \<in> mp_members com" "distinct acks" "set acks \<subseteq> mp_members com - {name}"
  shows "unat (mp_stake com name) + sum_list (map (unat \<circ> mp_stake com) acks)
      = (\<Sum>n \<in> insert name (set acks). unat (mp_stake com n))"
    and "unat (mp_stake com name) + sum_list (map (unat \<circ> mp_stake com) acks) < 2 ^ 32"
proof -
  have sum: "sum_list (map (unat \<circ> mp_stake com) acks) = (\<Sum>n \<in> set acks. unat (mp_stake com n))"
    using assms(3) by (simp add: sum_list_distinct_conv_sum_set)
  then show eq: "unat (mp_stake com name) + sum_list (map (unat \<circ> mp_stake com) acks)
      = (\<Sum>n \<in> insert name (set acks). unat (mp_stake com n))"
    using assms(4) by (subst sum.insert) auto
  let ?c = "mp_as_committee com"
  have v: "committee_valid ?c" using assms(1) by (simp add: mp_valid_def)
  have "(\<Sum>n \<in> insert name (set acks). unat (mp_stake com n)) \<le> (\<Sum>n \<in> mp_members com. unat (mp_stake com n))"
    using assms(2,4) by (intro sum_mono2) (auto simp: mp_members_eq)
  also have "\<dots> = total_stake ?c"
    using sum_members [OF v] by (simp add: mp_members_eq stake_of_def)
  also have "\<dots> < 2 ^ 32" using v by (simp add: committee_valid_def)
  finally show "unat (mp_stake com name) + sum_list (map (unat \<circ> mp_stake com) acks) < 2 ^ 32"
    by (simp add: eq)
qed

text \<open>C15. The quorum waiter hands a batch of ours on exactly when our stake with that of the members that
  acknowledged it is a quorum, and some member acknowledged it: alone in its committee a node never
  hands a batch on, although its own stake is a quorum.\<close>

theorem quorum_waiter_exact:
  assumes "mp_valid com" and "name \<in> mp_members com"
    and "distinct acks" and "set acks \<subseteq> mp_members com - {name}"
  shows "quorum_waiter_step com (mp_stake com name) batch handlers acks = Ok [MpToProcessor batch]
    \<longleftrightarrow> acks \<noteq> [] \<and> mp_quorum com (insert name (set acks))"
proof -
  let ?r = "ack_loop (mp_quorum_threshold com) (mp_stake com name) (length handlers) (map (mp_stake com) acks)
    :: (string, _) outcome"
  note sums = mp_quorum_acks [OF assms]
  have "(\<exists>t. ?r = Ok (t, True)) \<longleftrightarrow> map (mp_stake com) acks \<noteq> []
      \<and> unat (mp_quorum_threshold com) \<le> unat (mp_stake com name) + sum_list (map unat (map (mp_stake com) acks))"
    by (rule ack_loop_reached_iff) (use sums(2) in simp)
  also have "\<dots> \<longleftrightarrow> acks \<noteq> [] \<and> mp_quorum com (insert name (set acks))"
    using sums(1) assms(2,4) by (auto simp: mp_quorum_def)
  finally show ?thesis by (cases ?r) (auto simp: quorum_waiter_step_def)
qed

theorem quorum_waiter_exact_witness:
  "quorum_waiter_step mp_four 1 [7] [PublicKey 2, PublicKey 3, PublicKey 4] [PublicKey 4, PublicKey 2]
     = Ok [MpToProcessor [7]]
   \<and> quorum_waiter_step mp_four 1 [7] [PublicKey 2, PublicKey 3, PublicKey 4] [PublicKey 4]
     \<noteq> Ok [MpToProcessor [7]]"
proof -
  have quorum: "mp_quorum mp_four (insert (PublicKey 1) (set acks)) \<longleftrightarrow> 2 \<le> length acks"
    if "distinct acks" "set acks \<subseteq> mp_members mp_four - {PublicKey 1}" for acks
  proof -
    have "(\<Sum>n \<in> insert (PublicKey 1) (set acks). unat (mp_stake mp_four n)) = Suc (length acks)"
      using that mp_quorum_acks(1) [of mp_four "PublicKey 1" acks]
      by (simp add: sum_list_distinct_conv_sum_set distinct_card [symmetric] cong: sum.cong)
        (simp add: subset_iff)
    then show ?thesis using that by (auto simp: mp_quorum_def)
  qed
  show ?thesis
    using quorum_waiter_exact [of mp_four "PublicKey 1" "[PublicKey 4, PublicKey 2]" "[7]"
        "[PublicKey 2, PublicKey 3, PublicKey 4]"]
      quorum_waiter_exact [of mp_four "PublicKey 1" "[PublicKey 4]" "[7]" "[PublicKey 2, PublicKey 3, PublicKey 4]"]
      quorum [of "[PublicKey 4, PublicKey 2]"] quorum [of "[PublicKey 4]"] by simp
qed

section \<open>From clients and peers to the consensus\<close>

text \<open>C8. The mempool hands the consensus only digests of batches it has: in any interleaving of its
  tasks, a digest sent to the consensus is the hash of the bytes the store holds under it, which
  deserialize as a batch (unless the consensus itself wrote to that key). Its own batches, those the
  quorum waiter and its processor get, are never empty and hold only transactions that decode as
  client requests.\<close>

theorem digests_available:
  assumes "rocks_ok E" and "mempool_bincode_ok E" and "Mempool_spawn name com par db = Ok st"
  shows "(\<forall>d \<in> set (mt_digests (mempool_run E steps st)). Digest_to_vec d \<notin> foreign_keys steps \<longrightarrow>
        (\<exists>s. Store_read E (mt_db (mempool_run E steps st)) (Digest_to_vec d) = Ok (Some s)
          \<and> sha_digest E s = d \<and> any_batch E s))
    \<and> (\<forall>s \<in> fst ` set (mt_quorum_waiter (mempool_run E steps st)) \<union> set (mt_processor (mempool_run E steps st)).
        own_batch E s)"
proof -
  have "flow_ok E (foreign_keys steps) st" using Mempool_spawn_Ok [OF assms(3)] by blast
  from flow_run [OF assms(1,2) this order.refl] show ?thesis by (auto simp: flow_ok_def digest_stored_def)
qed

definition toy_par :: MpParameters where
  "toy_par = MpParameters_default\<lparr>mp_batch_size := 5\<rparr>"

definition toy_steps :: "MempoolStep list" where
  "toy_steps = [MtClient [0, 1, 0], MtClient [0], MtBatchMaker, MtBatchTimer, MtQuorumWaiter [PublicKey 2, PublicKey 3],
     MtProcessor]"

definition toy_mempool :: MempoolTasks where
  "toy_mempool = (case (Mempool_spawn (PublicKey 1) mp_four toy_par [] :: (string, _) outcome) of Ok st \<Rightarrow> st)"

lemma toy_mempool: "Mempool_spawn (PublicKey 1) mp_four toy_par [] = Ok toy_mempool"
  by (simp add: toy_mempool_def Mempool_spawn_def Let_def handle_clients_transactions_def handle_mempool_messages_def)

lemmas mempool_eval = toy_mempool_def Mempool_spawn_def Let_def handle_clients_transactions_def
  handle_mempool_messages_def handle_consensus_messages_def toy_par_def MpParameters_default_def
  BatchMaker_new_def mempool_run_def tx_dispatch_def run_batch_maker_def seal_def
  quorum_waiter_step_def processor_step_def mempool_dispatch_def

theorem digests_available_witness:
  "mt_digests (mempool_run node_toy toy_steps toy_mempool) = [toy_digest 4]
   \<and> (\<exists>s. Store_read node_toy (mt_db (mempool_run node_toy toy_steps toy_mempool)) (Digest_to_vec (toy_digest 4)) = Ok (Some s))"
proof -
  have d: "mt_digests (mempool_run node_toy toy_steps toy_mempool) = [toy_digest 4]"
    by (simp add: mempool_eval toy_steps_def tx_code_def)
  have "foreign_keys toy_steps = {}" by (simp add: foreign_keys_def toy_steps_def)
  with digests_available [OF node_toy_ok(1,3) toy_mempool, of toy_steps] d show ?thesis by fastforce
qed

section \<open>Missing batches\<close>

lemma ms_step_frame:
  "ms_committee (ms_step E pick ev st) = ms_committee st \<and> ms_name (ms_step E pick ev st) = ms_name st
   \<and> ms_gc_depth (ms_step E pick ev st) = ms_gc_depth st"
proof (cases "(E, pick, ev, st)" rule: ms_step.cases)
  case (1 E' pick' now digests target st')
  obtain missing st1 where r: "register_missing now digests [] st = (missing, st1)"
    by (cases "register_missing now digests [] st")
  with register_missing_frame [OF r] 1 show ?thesis by (simp add: ms_synchronize_def split: option.split)
qed (simp_all add: ms_cleanup_def ms_timer_def ms_finish_def Let_def split: option.split)

lemma ms_run_frame:
  "ms_committee (ms_run E pick evs st) = ms_committee st \<and> ms_name (ms_run E pick evs st) = ms_name st
   \<and> ms_gc_depth (ms_run E pick evs st) = ms_gc_depth st"
  unfolding ms_run_def by (induction evs arbitrary: st) (simp_all add: ms_step_frame)

text \<open>C17. The mempool's synchronizer asks the block's author, in one message, for exactly the batches it
  does not already wait for, each once, and then waits for all of them; a batch that arrived is no
  longer waited for; and a cleanup at a round forgets the requests made at or below the round the
  garbage collection depth before it.\<close>

theorem missing_batches_requested:
  assumes "ms_run E pick evs (MempoolSync_new name com gc delay nodes) = st"
  shows "(\<forall>a. mp_mempool_address com target = Some a \<longrightarrow>
      (\<exists>missing. ms_out (ms_step E pick (MsMessage now (Synchronize digests target)) st)
            = ms_out st @ [MpSend a (ser_mempool E (MBatchRequest missing name))]
          \<and> distinct missing \<and> set missing = set digests - hm_keys (ms_pending st)
          \<and> hm_keys (ms_pending (ms_step E pick (MsMessage now (Synchronize digests target)) st))
            = hm_keys (ms_pending st) \<union> set digests))
    \<and> (\<forall>i d. map_of (ms_waiting st) i = Some d \<longrightarrow> d \<notin> hm_keys (ms_pending (ms_step E pick (MsRead i) st)))
    \<and> (\<forall>round. gc \<le> round \<longrightarrow>
        (\<forall>(d, r, i, t) \<in> set (ms_pending (ms_step E pick (MsMessage now (MempoolCleanup round)) st)). round - gc < r))"
proof (intro conjI allI impI)
  have frame: "ms_committee st = com" "ms_name st = name" "ms_gc_depth st = gc"
    using ms_run_frame [of E pick evs "MempoolSync_new name com gc delay nodes"] assms
    by (simp_all add: MempoolSync_new_def)
  fix a assume a: "mp_mempool_address com target = Some a"
  obtain missing st1 where r: "register_missing now digests [] st = (missing, st1)"
    by (cases "register_missing now digests [] st")
  from register_missing_frame [OF r] register_missing_missing [OF r] a frame r
  show "\<exists>missing. ms_out (ms_step E pick (MsMessage now (Synchronize digests target)) st)
            = ms_out st @ [MpSend a (ser_mempool E (MBatchRequest missing name))]
          \<and> distinct missing \<and> set missing = set digests - hm_keys (ms_pending st)
          \<and> hm_keys (ms_pending (ms_step E pick (MsMessage now (Synchronize digests target)) st))
            = hm_keys (ms_pending st) \<union> set digests"
    by (intro exI [of _ missing]) (simp add: ms_synchronize_def)
next
  fix i d assume "map_of (ms_waiting st) i = Some d"
  then show "d \<notin> hm_keys (ms_pending (ms_step E pick (MsRead i) st))" by (simp add: Let_def ms_finish_def)
next
  fix round assume "gc \<le> round"
  moreover have "ms_gc_depth st = gc"
    using ms_run_frame [of E pick evs "MempoolSync_new name com gc delay nodes"] assms
    by (simp add: MempoolSync_new_def)
  ultimately show "\<forall>(d, r, i, t) \<in> set (ms_pending (ms_step E pick (MsMessage now (MempoolCleanup round)) st)).
      round - gc < r"
    by (auto simp: ms_cleanup_def Let_def)
qed

theorem missing_batches_requested_witness:
  "ms_out (ms_run node_toy (\<lambda>as. as)
     [MsMessage 5 (Synchronize [toy_digest 7, toy_digest 8] (PublicKey 2)),
      MsMessage 6 (Synchronize [toy_digest 8, toy_digest 9] (PublicKey 2))]
     (MempoolSync_new (PublicKey 1) mp_four 50 5000 3))
   = [MpSend (port 12) (ser_toy (MBatchRequest [toy_digest 7, toy_digest 8] (PublicKey 1))),
      MpSend (port 12) (ser_toy (MBatchRequest [toy_digest 9] (PublicKey 1)))]"
proof -
  let ?new = "MempoolSync_new (PublicKey 1) mp_four 50 5000 3"
  let ?st = "ms_run node_toy (\<lambda>as. as) [MsMessage 5 (Synchronize [toy_digest 7, toy_digest 8] (PublicKey 2))] ?new"
  let ?ev = "MsMessage 6 (Synchronize [toy_digest 8, toy_digest 9] (PublicKey 2))"
  have st: "ms_out ?st = [MpSend (port 12) (ser_toy (MBatchRequest [toy_digest 7, toy_digest 8] (PublicKey 1)))]"
    "hm_keys (ms_pending ?st) = {toy_digest 7, toy_digest 8}"
    by (auto simp: ms_run_def ms_synchronize_def MempoolSync_new_def simp del: ser_toy.simps)
  obtain missing where m: "ms_out (ms_step node_toy (\<lambda>as. as) ?ev ?st)
      = ms_out ?st @ [MpSend (port 12) (ser_toy (MBatchRequest missing (PublicKey 1)))]"
    "distinct missing" "set missing = {toy_digest 8, toy_digest 9} - hm_keys (ms_pending ?st)"
    using missing_batches_requested [of node_toy "\<lambda>as. as" _ "PublicKey 1" mp_four 50 5000 3 ?st "PublicKey 2" 6
        "[toy_digest 8, toy_digest 9]", OF refl] mp_four_facts(5) by auto
  then have "set missing = {toy_digest 9}" using st(2) by auto
  with m(2) have "missing = [toy_digest 9]" by (cases missing) (auto simp: subset_singleton_iff)
  moreover have "ms_run node_toy (\<lambda>as. as) [MsMessage 5 (Synchronize [toy_digest 7, toy_digest 8] (PublicKey 2)), ?ev] ?new
      = ms_step node_toy (\<lambda>as. as) ?ev ?st"
    by (simp add: ms_run_def)
  ultimately show ?thesis using m(1) st(1) by (simp del: ser_toy.simps ms_step.simps)
qed

section \<open>A request and its answer\<close>

lemma mp_helper_exact:
  assumes "rocks_ok E"
  shows "mp_helper_digests E db address digests
    = Ok (map (MpSend address) (List.map_filter (\<lambda>d. case Store_read E db (Digest_to_vec d) of Ok v \<Rightarrow> v | _ \<Rightarrow> None) digests))"
proof (induction digests)
  case (Cons d ds)
  from db.kv_total [OF assms] obtain r where "Store_read E db (Digest_to_vec d) = Ok r" by blast
  with Cons show ?case by (cases r) (simp_all add: List.map_filter_simps)
qed (simp add: List.map_filter_simps)

text \<open>A frame on the mempool port that is a batch, and the processor's step on it.\<close>

definition deliver :: "SerializedBatchMessage \<Rightarrow> MempoolStep list" where
  "deliver s = [MtPeer True s, MtPeerProcessor]"

lemma deliver_batch:
  assumes "any_batch E s" "mt_peer_processor st = []"
  shows "mempool_run E (deliver s) st = st\<lparr>mt_sent := mt_sent st @ [MpReply ''Ack''],
    mt_db := Store_write (Digest_to_vec (sha_digest E s)) s (mt_db st), mt_digests := mt_digests st @ [sha_digest E s]\<rparr>"
  using assms by (auto simp: deliver_def mempool_run_def any_batch_def mempool_dispatch_def processor_step_def Let_def)

lemma digest_stored_write:
  assumes "rocks_ok E" "any_batch E s"
  shows "digest_stored E {} db d \<or> d = sha_digest E s \<Longrightarrow>
    digest_stored E {} (Store_write (Digest_to_vec (sha_digest E s)) s db) d"
  using db.kv_same [OF assms(1)] db.kv_other [OF assms(1)] assms(2)
  by (cases "d = sha_digest E s") (auto simp: digest_stored_def)

lemma deliver_batches:
  assumes "rocks_ok E" "\<forall>s \<in> set frames. any_batch E s" "mt_peer_processor st = []"
  shows "(\<forall>d. d \<in> sha_digest E ` set frames \<or> digest_stored E {} (mt_db st) d \<longrightarrow>
      digest_stored E {} (mt_db (mempool_run E (concat (map deliver frames)) st)) d)
    \<and> mt_digests (mempool_run E (concat (map deliver frames)) st) = mt_digests st @ map (sha_digest E) frames"
  using assms(2,3)
proof (induction frames arbitrary: st)
  case (Cons s frames)
  let ?st = "mempool_run E (deliver s) st"
  have run: "mempool_run E (concat (map deliver (s # frames))) st = mempool_run E (concat (map deliver frames)) ?st"
    by (simp add: mempool_run_def)
  have st: "?st = st\<lparr>mt_sent := mt_sent st @ [MpReply ''Ack''],
      mt_db := Store_write (Digest_to_vec (sha_digest E s)) s (mt_db st), mt_digests := mt_digests st @ [sha_digest E s]\<rparr>"
    using Cons.prems by (intro deliver_batch) simp_all
  have "any_batch E s" using Cons.prems(1) by simp
  from Cons.IH [of ?st] digest_stored_write [OF assms(1) this, of "mt_db st"] Cons.prems
  show ?case unfolding run by (auto simp: st)
qed (simp_all add: mempool_run_def)

text \<open>C16. Requests for missing batches are served: if the helper of a peer has them, it sends them all to
  the requester's mempool address, and when these frames have arrived there, each batch asked for is in
  the requester's store under its digest, and the consensus has been told of it.\<close>

theorem requested_batches_arrive:
  assumes "rocks_ok E" and "mp_mempool_address com requestor = Some address"
    and "\<forall>d \<in> set missing. digest_stored E {} db d" and "mt_peer_processor st = []"
    and "mp_helper_request E com db (missing, requestor) = Ok es"
  shows "\<exists>frames. es = map (MpSend address) frames
    \<and> (\<forall>d \<in> set missing. digest_stored E {} (mt_db (mempool_run E (concat (map deliver frames)) st)) d
        \<and> d \<in> set (mt_digests (mempool_run E (concat (map deliver frames)) st)))"
proof -
  let ?get = "\<lambda>d. case Store_read E db (Digest_to_vec d) of Ok v \<Rightarrow> v | _ \<Rightarrow> None"
  let ?frames = "List.map_filter ?get missing"
  have es: "es = map (MpSend address) ?frames"
    using assms(5) mp_helper_exact [OF assms(1)] by (simp add: mp_helper_request_def assms(2))
  have got: "\<exists>s. ?get d = Some s \<and> sha_digest E s = d \<and> any_batch E s" if "d \<in> set missing" for d
    using assms(3) that by (fastforce simp: digest_stored_def)
  have frames: "set ?frames = {s. \<exists>d \<in> set missing. ?get d = Some s}"
    by (force simp: List.map_filter_def)
  have "\<forall>s \<in> set ?frames. any_batch E s" using got unfolding frames by fastforce
  moreover have "d \<in> sha_digest E ` set ?frames" if "d \<in> set missing" for d
    using got [OF that] that unfolding frames by force
  ultimately show ?thesis
    using deliver_batches [OF assms(1) _ assms(4), of ?frames] es by (intro exI [of _ ?frames]) auto
qed

theorem requested_batches_arrive_witness:
  "\<exists>frames. length frames = 1
     \<and> toy_digest 4 \<in> set (mt_digests (mempool_run node_toy (concat (map deliver frames)) toy_mempool))"
proof -
  let ?db = "[(Digest_to_vec (toy_digest 4), ser_toy (MBatch [[0, 1, 0]]))]"
  have req: "mp_helper_request node_toy mp_four ?db ([toy_digest 4], PublicKey 2)
      = Ok [MpSend (port 12) (ser_toy (MBatch [[0, 1, 0]]))]"
    by (simp add: mp_helper_request_def del: ser_toy.simps)
  have "any_batch node_toy (ser_toy (MBatch [[0, 1, 0]]))" by (simp add: any_batch_def del: ser_toy.simps)
  then have stored: "\<forall>d \<in> set [toy_digest 4]. digest_stored node_toy {} ?db d"
    by (simp add: digest_stored_def tx_code_def)
  have peer: "mt_peer_processor toy_mempool = []" by (simp add: mempool_eval)
  obtain frames
    where frames: "[MpSend (port 12) (ser_toy (MBatch [[0, 1, 0]]))] = map (MpSend (port 12)) frames"
      and told: "\<forall>d \<in> set [toy_digest 4].
        digest_stored node_toy {} (mt_db (mempool_run node_toy (concat (map deliver frames)) toy_mempool)) d
        \<and> d \<in> set (mt_digests (mempool_run node_toy (concat (map deliver frames)) toy_mempool))"
    using requested_batches_arrive [OF node_toy_ok(1) mp_four_facts(5) stored peer req]
    by (elim exE conjE) (rule that)
  have "length frames = 1" using arg_cong [OF frames, of length] by simp
  with told show ?thesis by (intro exI [of _ frames]) simp
qed

end
