(* ===== verification/Node_Properties.thy ===== *)
theory Node_Properties
  imports Mempool_Properties
begin

text \<open>
  Properties of the node: it refines the epoch machine, replicas that apply the same blocks agree, an
  epoch ends with a quorum of distinct votes, and what stops it.
\<close>

section \<open>Refinement\<close>

definition EpochState_init :: "nat \<Rightarrow> EpochState" where
  "EpochState_init q = \<lparr>ep_quorum = q, ep_id = 0, ep_weights = Map.empty, ep_voted = {}, ep_last = (- 1, Map.empty)\<rparr>"

lemma node_abs_new: "node_abs (Node_new q) = EpochState_init q"
  by (simp add: node_abs_def Node_new_def DeflDatabank_new_def EpochState_init_def)

text \<open>C7. The node refines the epoch machine. Over any interleaving of the transactions of committed
  blocks with Obsido's requests, the banks, the epoch and the votes are what the specification makes of
  the decodable client requests, in order; contacts, senders, UUIDs and failed answers do not matter.
  And the invariant holds: fewer votes than the quorum are held, the published bank is that of the epoch
  before, and a client has one entry in a bank.\<close>

theorem node_refines:
  "node_abs (node_run E evs (Node_new q))
     = fold apply_request (concat (map (event_requests E) evs)) (EpochState_init q)
   \<and> node_inv (node_run E evs (Node_new q))"
  using node_machine.run_refines [OF node_inv_new, of E evs q] node_machine.run_valid [OF node_inv_new, of E evs q]
  by (simp add: node_run_def node_abs_new)

section \<open>Replicas\<close>

text \<open>The store answers the digests of a payload, if at all, with bytes of \<open>S\<close> that hash to them.\<close>

definition content_ok :: "'a node_env_scheme \<Rightarrow> byte list set \<Rightarrow> (nat \<Rightarrow> puts) \<Rightarrow> Digest list \<Rightarrow> bool" where
  "content_ok E S dbs payload \<longleftrightarrow> (\<forall>n. \<forall>d \<in> set payload. \<forall>s.
     Store_read E (dbs n) (Digest_to_vec d) = Ok (Some s) \<longrightarrow> s \<in> S \<and> sha_digest E s = d)"

lemma analyze_payload_reads:
  assumes "analyze_payload E dbs (d # payload) st = (Ok (), st1)"
  obtains s st2 where "Store_read E (dbs 0) (Digest_to_vec d) = Ok (Some s)"
    "analyze_payload E (\<lambda>n. dbs (Suc n)) payload st2 = (Ok (), st1)"
  using assms by (auto simp: then_ok_Ok_iff split: outcome.splits option.splits sum.splits MempoolMessage.splits)

lemma payload_txs_agree:
  assumes "inj_on (sha_digest E) S"
    and "analyze_payload E dbs payload st = (Ok (), st1)" "analyze_payload E dbs' payload st' = (Ok (), st1')"
    and "content_ok E S dbs payload" "content_ok E S dbs' payload"
  shows "payload_txs E dbs payload = payload_txs E dbs' payload"
  using assms(2-5)
proof (induction payload arbitrary: dbs dbs' st st')
  case (Cons d payload)
  obtain s st2 where s: "Store_read E (dbs 0) (Digest_to_vec d) = Ok (Some s)"
    "analyze_payload E (\<lambda>n. dbs (Suc n)) payload st2 = (Ok (), st1)"
    using analyze_payload_reads [OF Cons.prems(1)] .
  obtain s' st2' where s': "Store_read E (dbs' 0) (Digest_to_vec d) = Ok (Some s')"
    "analyze_payload E (\<lambda>n. dbs' (Suc n)) payload st2' = (Ok (), st1')"
    using analyze_payload_reads [OF Cons.prems(2)] .
  have "s \<in> S" "sha_digest E s = d" "s' \<in> S" "sha_digest E s' = d"
    using Cons.prems(3,4) s(1) s'(1) by (auto simp: content_ok_def)
  then have "s' = s" using assms(1) by (auto dest: inj_onD)
  moreover have "content_ok E S (\<lambda>n. dbs (Suc n)) payload" "content_ok E S (\<lambda>n. dbs' (Suc n)) payload"
    using Cons.prems(3,4) by (auto simp: content_ok_def)
  ultimately show ?case using Cons.IH [OF s(2) s'(2)] s(1) s'(1) by (simp add: batch_of_def)
qed simp

lemma blocks_txs_agree:
  assumes "inj_on (sha_digest E) S" and "map snd blocks = map snd blocks'"
    and "analyze_blocks E blocks st = (Ok (), st1)" "analyze_blocks E blocks' st' = (Ok (), st1')"
    and "\<forall>(dbs, b) \<in> set blocks \<union> set blocks'. content_ok E S dbs (b_payload b)"
  shows "blocks_txs E blocks = blocks_txs E blocks'"
  using assms(2-5)
proof (induction blocks arbitrary: blocks' st st')
  case (Cons x blocks)
  obtain dbs b where x: "x = (dbs, b)" by (cases x)
  obtain dbs' rest where b': "blocks' = (dbs', b) # rest" "map snd blocks = map snd rest"
    using Cons.prems(1) x by (cases blocks') auto
  obtain sta where a: "(if b_payload b = [] then (Ok (), st) else analyze_payload E dbs (b_payload b) st) = (Ok (), sta)"
    "analyze_blocks E blocks sta = (Ok (), st1)"
    using Cons.prems(2) x by (auto simp: then_ok_Ok_iff)
  obtain stb where b: "(if b_payload b = [] then (Ok (), st') else analyze_payload E dbs' (b_payload b) st') = (Ok (), stb)"
    "analyze_blocks E rest stb = (Ok (), st1')"
    using Cons.prems(3) b' by (auto simp: then_ok_Ok_iff)
  have "payload_txs E dbs (b_payload b) = payload_txs E dbs' (b_payload b)"
    using payload_txs_agree [OF assms(1), of dbs "b_payload b" st sta dbs' st' stb] a(1) b(1) Cons.prems(4) x b'
    by (cases "b_payload b = []") auto
  moreover have "blocks_txs E blocks = blocks_txs E rest"
    using Cons.IH [OF b'(2) a(2) b(2)] Cons.prems(4) b' x by auto
  ultimately show ?case using x b' by (simp add: blocks_txs_def)
qed (simp add: blocks_txs_def)

text \<open>C2. Replicas agree. Two nodes in the same epoch state that go through the same committed blocks end
  in the same epoch state, whatever contacts they have and whenever each got the batches, as long as what
  their stores hold under a digest hashes to it and no two of these batches collide.\<close>

theorem replicas_agree:
  assumes "node_inv st" "node_inv st'" "node_abs st = node_abs st'"
    and "map snd blocks = map snd blocks'"
    and "analyze_blocks E blocks st = (Ok (), st1)" "analyze_blocks E blocks' st' = (Ok (), st1')"
    and "inj_on (sha_digest E) S"
    and "\<forall>(dbs, b) \<in> set blocks \<union> set blocks'. content_ok E S dbs (b_payload b)"
  shows "node_abs st1 = node_abs st1'"
proof -
  have "blocks_txs E blocks = blocks_txs E blocks'"
    using blocks_txs_agree [OF assms(7,4,5,6,8)] .
  then show ?thesis
    using analyze_blocks_Ok [OF assms(5)] analyze_blocks_Ok [OF assms(6)]
      node_machine.runs_agree [OF assms(1-3), of "E" "map NdTransaction (blocks_txs E blocks)"
        "map NdTransaction (blocks_txs E blocks')"]
    by (simp add: node_run_def)
qed

definition vote_batch :: SerializedBatchMessage where
  "vote_batch = ser_toy (MBatch [[1, 97, 0], [0, 97, 0, 5]])"

definition vote_db :: puts where
  "vote_db = [(Digest_to_vec (toy_digest 207), vote_batch)]"

definition votes_block :: Block where
  "votes_block = toy_block QC_genesis 1 [toy_digest 207]"

lemma vote_batch_digest: "sum_list vote_batch = 207"
  by (simp add: vote_batch_def tx_code_def)

lemmas node_eval = votes_block_def analyze_transaction_def get_responses_def new_epoch_vote_def upd_weights_def
  ClientMethod_from_i32_def draw_uuid_def enter_epoch_def answer_client_def answer_all_def respond_to_client_def
  respond_to_all_client_def client_register_def Let_def Node_new_def DeflDatabank_new_def

text \<open>The second node has a registered client and its store a batch more.\<close>

theorem replicas_agree_witness:
  "\<exists>st1 st1'. analyze_blocks node_toy [(\<lambda>_. vote_db, votes_block)] (Node_new 2) = (Ok (), st1)
     \<and> analyze_blocks node_toy [(\<lambda>_. (Digest_to_vec (toy_digest 3), [0]) # vote_db, votes_block)]
         (node_run node_toy [NdObsido [1, 98, 0]] (Node_new 2)) = (Ok (), st1')
     \<and> node_abs st1 = node_abs st1'"
proof -
  let ?st' = "node_run node_toy [NdObsido [1, 98, 0]] (Node_new 2)"
  let ?blocks = "[(\<lambda>_. vote_db, votes_block)]"
  let ?blocks' = "[(\<lambda>_. (Digest_to_vec (toy_digest 3), [0]) # vote_db, votes_block)]"
  have de: "de_toy vote_batch = Inr (MBatch [[1, 97, 0], [0, 97, 0, 5]])"
    unfolding vote_batch_def by (rule de_toy_ser_toy)
  have inv: "node_inv (Node_new 2)" "node_inv ?st'" "node_abs (Node_new 2) = node_abs ?st'"
    using node_refines [of node_toy "[NdObsido [1, 98, 0]]" 2] by (simp_all add: event_requests_def node_abs_new)
  obtain st1 where r1: "analyze_blocks node_toy ?blocks (Node_new 2) = (Ok (), st1)"
    by (simp add: vote_db_def de node_eval)
  obtain st1' where r2: "analyze_blocks node_toy ?blocks' ?st' = (Ok (), st1')"
    by (simp add: vote_db_def de node_eval node_run_def obsido_handle_def ObsidoMethod_from_i32_def)
  have content: "\<forall>(dbs, b) \<in> set ?blocks \<union> set ?blocks'. content_ok node_toy {vote_batch} dbs (b_payload b)"
    by (auto simp: content_ok_def vote_db_def votes_block_def vote_batch_digest)
  have "node_abs st1 = node_abs st1'"
    by (rule replicas_agree [OF inv _ r1 r2 _ content]) simp_all
  with r1 r2 show ?thesis by blast
qed

section \<open>The end of an epoch\<close>

text \<open>The clients whose votes for epoch \<open>e\<close> are among the events.\<close>

definition voters :: "i64 \<Rightarrow> ClientRequest list \<Rightarrow> string set" where
  "voters e requests = {rq_client_name r | r. r \<in> set requests \<and> rq_method r = 1 \<and> rq_target_epoch_id r = e}"

lemma voters_snoc: "voters e (requests @ [r]) =
  (if rq_method r = 1 \<and> rq_target_epoch_id r = e then insert (rq_client_name r) (voters e requests) else voters e requests)"
  by (auto simp: voters_def)

lemma finite_voters [simp]: "finite (voters e requests)"
proof -
  have "voters e requests \<subseteq> rq_client_name ` set requests" by (auto simp: voters_def)
  then show ?thesis by (rule finite_subset) simp
qed

lemma apply_request_vote:
  "rq_method r = 1 \<Longrightarrow> rq_target_epoch_id r = ep_id s \<Longrightarrow> apply_request r s = apply_vote (rq_client_name r) s"
  by (simp add: apply_request_def)

lemma apply_request_other:
  "\<not> (rq_method r = 1 \<and> rq_target_epoch_id r = ep_id s) \<Longrightarrow>
   ep_id (apply_request r s) = ep_id s \<and> ep_voted (apply_request r s) = ep_voted s
   \<and> ep_quorum (apply_request r s) = ep_quorum s \<and> ep_last (apply_request r s) = ep_last s"
  by (auto simp: apply_request_def apply_update_def split: option.split)

lemma requests_collect_votes:
  assumes "ep_voted s = {}" "card (voters (ep_id s) requests) < ep_quorum s"
  shows "ep_id (fold apply_request requests s) = ep_id s
    \<and> ep_voted (fold apply_request requests s) = voters (ep_id s) requests
    \<and> ep_quorum (fold apply_request requests s) = ep_quorum s
    \<and> ep_last (fold apply_request requests s) = ep_last s"
  using assms(2)
proof (induction requests rule: rev_induct)
  case Nil
  then show ?case using assms(1) by (simp add: voters_def)
next
  case (snoc r requests)
  let ?s = "fold apply_request requests s"
  have "voters (ep_id s) requests \<subseteq> voters (ep_id s) (requests @ [r])" by (auto simp: voters_def)
  then have "card (voters (ep_id s) requests) \<le> card (voters (ep_id s) (requests @ [r]))"
    by (intro card_mono) simp_all
  with snoc have IH: "ep_id ?s = ep_id s" "ep_voted ?s = voters (ep_id s) requests" "ep_quorum ?s = ep_quorum s"
    "ep_last ?s = ep_last s"
    by simp_all
  show ?case
  proof (cases "rq_target_epoch_id r = ep_id s \<and> rq_method r = 1")
    case True
    have "insert (rq_client_name r) (voters (ep_id s) requests) = voters (ep_id s) (requests @ [r])"
      using True by (simp add: voters_snoc)
    with snoc.prems have "rq_client_name r \<in> voters (ep_id s) requests
        \<or> Suc (card (voters (ep_id s) requests)) < ep_quorum s"
      by (metis card_insert_disjoint finite_voters)
    then show ?thesis
      using IH True apply_request_vote [of r ?s] by (auto simp: apply_vote_def voters_snoc)
  next
    case False
    then have "voters (ep_id s) (requests @ [r]) = voters (ep_id s) requests" by (auto simp: voters_snoc)
    then show ?thesis using IH False apply_request_other [of r ?s] by auto
  qed
qed

text \<open>C9. The epoch ends with the quorum. From a node that holds no vote, while fewer than the quorum of
  distinct clients have voted for its epoch the node stays in it, publishes nothing new, and holds exactly
  their votes, repeated votes and votes for other epochs not counted. The vote of one more client that
  makes the quorum publishes the bank of the epoch and opens the next, with no votes and no weights.\<close>

theorem epoch_ends_with_quorum:
  assumes "node_inv st" and "nd_voted st = {}"
    and "requests = concat (map (event_requests E) evs)"
    and "card (voters (dk_epoch_id (nd_cur st)) requests) < nd_quorum st"
  shows "dk_epoch_id (nd_cur (node_run E evs st)) = dk_epoch_id (nd_cur st)
    \<and> nd_voted (node_run E evs st) = voters (dk_epoch_id (nd_cur st)) requests
    \<and> (\<forall>tx r. decode_client E tx = Inr r \<and> rq_method r = 1 \<and> rq_target_epoch_id r = dk_epoch_id (nd_cur st)
          \<and> rq_client_name r \<notin> voters (dk_epoch_id (nd_cur st)) requests
          \<and> Suc (card (voters (dk_epoch_id (nd_cur st)) requests)) = nd_quorum st \<longrightarrow>
        node_abs (node_run E (evs @ [NdTransaction tx]) st) = next_epoch (node_abs (node_run E evs st)))"
proof (intro conjI allI impI)
  let ?e = "dk_epoch_id (nd_cur st)"
  have run: "node_abs (node_run E evs st) = fold apply_request requests (node_abs st)"
    using node_machine.run_refines [OF assms(1), of E evs] assms(3) by (simp add: node_run_def)
  have votes: "ep_id (node_abs (node_run E evs st)) = ?e" "ep_voted (node_abs (node_run E evs st)) = voters ?e requests"
    "ep_quorum (node_abs (node_run E evs st)) = nd_quorum st"
    using requests_collect_votes [of "node_abs st" requests] assms(2,4) unfolding run by (simp_all add: node_abs_def)
  then show "dk_epoch_id (nd_cur (node_run E evs st)) = ?e" "nd_voted (node_run E evs st) = voters ?e requests"
    by (simp_all add: node_abs_def)
  fix tx r
  assume r: "decode_client E tx = Inr r \<and> rq_method r = 1 \<and> rq_target_epoch_id r = ?e
    \<and> rq_client_name r \<notin> voters ?e requests \<and> Suc (card (voters ?e requests)) = nd_quorum st"
  have "node_inv (node_run E evs st)"
    using node_machine.run_valid [OF assms(1), of E evs] by (simp add: node_run_def)
  from node_machine.run_refines [OF this, of E "[NdTransaction tx]"]
  have "node_abs (node_run E (evs @ [NdTransaction tx]) st) = apply_request r (node_abs (node_run E evs st))"
    using r by (simp add: node_run_append event_requests_def) (simp add: node_run_def)
  then show "node_abs (node_run E (evs @ [NdTransaction tx]) st) = next_epoch (node_abs (node_run E evs st))"
    using r votes by (simp add: apply_request_def apply_vote_def)
qed

text \<open>Client a sends its weights and votes twice, then client b votes.\<close>

theorem epoch_ends_with_quorum_witness:
  "dk_epoch_id (nd_cur (node_run node_toy
      [NdTransaction [0, 97, 0, 5], NdTransaction [1, 97, 0], NdTransaction [1, 97, 0]] (Node_new 2))) = 0
   \<and> ep_id (node_abs (node_run node_toy
      [NdTransaction [0, 97, 0, 5], NdTransaction [1, 97, 0], NdTransaction [1, 97, 0], NdTransaction [1, 98, 0]]
      (Node_new 2))) = 1"
proof -
  let ?evs = "[NdTransaction [0, 97, 0, 5], NdTransaction [1, 97, 0], NdTransaction [1, 97, 0]]"
  let ?rs = "concat (map (event_requests node_toy) ?evs)"
  have new: "nd_voted (Node_new 2) = {}" "dk_epoch_id (nd_cur (Node_new 2)) = 0" "nd_quorum (Node_new 2) = 2"
    by (simp_all add: Node_new_def DeflDatabank_new_def)
  have v: "voters 0 ?rs = {[char_of (97 :: nat)]}"
    by (simp add: voters_def event_requests_def conj_disj_distribL conj_disj_distribR ex_disj_distrib)
  then have c: "card (voters (dk_epoch_id (nd_cur (Node_new 2))) ?rs) < nd_quorum (Node_new 2)" by (simp add: new)
  obtain r where r: "decode_client node_toy [1, 98, 0] = Inr r" "rq_method r = 1" "rq_target_epoch_id r = 0"
    "rq_client_name r = [char_of (98 :: nat)]"
    by simp
  note ends = epoch_ends_with_quorum [OF node_inv_new new(1) refl c]
  have "node_abs (node_run node_toy (?evs @ [NdTransaction [1, 98, 0]]) (Node_new 2))
      = next_epoch (node_abs (node_run node_toy ?evs (Node_new 2)))"
    using ends r v unfolding new by auto
  moreover have e: "dk_epoch_id (nd_cur (node_run node_toy ?evs (Node_new 2))) = 0" using ends unfolding new by blast
  ultimately show ?thesis by (simp add: next_epoch_def) (simp add: node_abs_def)
qed

section \<open>What stops the node\<close>

text \<open>A decodable transaction is analyzed to the end, and leaves the contacts as they are.\<close>

lemma analyze_transaction_decodes:
  assumes "contacts_ok E (nd_contacts st)" and "decode_client E tx = Inr r"
  shows "\<exists>st'. analyze_transaction E tx st = (Ok (), st') \<and> nd_contacts st' = nd_contacts st"
proof -
  obtain response w st1 where g: "get_responses E r st = ((response, w), st1)"
    by (cases "get_responses E r st") auto
  have "nd_contacts (snd (get_responses E r st)) = nd_contacts st"
    by (auto simp: get_responses_state upd_weights_def new_epoch_vote_def enter_epoch_def draw_uuid_def Let_def
        split: option.split ClientMethod.split bool.split)
  then have st1: "nd_contacts st1 = nd_contacts st" using g by simp
  then have contacts: "contacts_ok E (nd_contacts st1)" using assms(1) by simp
  obtain a st2 where a: "answer_client E (rq_client_name r) response st1 = (a, st2)"
    by (cases "answer_client E (rq_client_name r) response st1")
  have a_Ok: "a = Ok ()" and st2: "nd_contacts st2 = nd_contacts st1"
    using respond_to_client_completes [OF contacts, of "rq_client_name r" response "nd_sender st1"] a
    by (auto simp: answer_client_def split: prod.splits)
      (cases "fst (respond_to_client E (rq_client_name r) response (nd_contacts st1) (nd_sender st1))"; simp)
  have "fst (answer_all E w st2) = Ok () \<and> nd_contacts (snd (answer_all E w st2)) = nd_contacts st2"
  proof (cases w)
    case (Some x)
    then show ?thesis
      using respond_to_all_Ok [of E "nd_contacts st2" x "nd_sender st2"] contacts st2
      by (auto simp: answer_all_def split: prod.splits)
  qed (simp add: answer_all_def)
  then obtain st3 where "answer_all E w st2 = (Ok (), st3)" "nd_contacts st3 = nd_contacts st2"
    by (metis prod.collapse)
  then show ?thesis using assms(2) g a a_Ok st1 st2 by (simp add: analyze_transaction_def)
qed

lemma analyze_batch_decodes:
  assumes "contacts_ok E (nd_contacts st)" and "\<And>tx. tx \<in> set txs \<Longrightarrow> \<exists>r. decode_client E tx = Inr r"
  shows "\<exists>st'. analyze_batch E txs st = (Ok (), st') \<and> nd_contacts st' = nd_contacts st"
  using assms
proof (induction txs arbitrary: st)
  case (Cons tx txs)
  obtain r where "decode_client E tx = Inr r" using Cons.prems(2) [of tx] by auto
  then obtain st1 where st1: "analyze_transaction E tx st = (Ok (), st1)" "nd_contacts st1 = nd_contacts st"
    using analyze_transaction_decodes [OF Cons.prems(1)] by blast
  obtain st2 where "analyze_batch E txs st1 = (Ok (), st2)" "nd_contacts st2 = nd_contacts st1"
    using Cons.IH [of st1] Cons.prems st1(2) by auto
  then show ?case using st1 by simp
qed simp

text \<open>
  A payload whose batches are in the store, with transactions that decode, is analyzed to the end.
\<close>

lemma analyze_payload_decodes:
  assumes "contacts_ok E (nd_contacts st)"
    and "\<And>n d. d \<in> set payload \<Longrightarrow> \<exists>v. Store_read E (dbs n) (Digest_to_vec d) = Ok (Some v)"
    and "\<And>n d v txs tx. d \<in> set payload \<Longrightarrow> Store_read E (dbs n) (Digest_to_vec d) = Ok (Some v) \<Longrightarrow>
      de_mempool E v = Inr (MBatch txs) \<Longrightarrow> tx \<in> set txs \<Longrightarrow> \<exists>r. decode_client E tx = Inr r"
  shows "\<exists>st'. analyze_payload E dbs payload st = (Ok (), st') \<and> nd_contacts st' = nd_contacts st"
  using assms
proof (induction payload arbitrary: dbs st)
  case (Cons d payload)
  have rest: "\<exists>st'. analyze_payload E (\<lambda>n. dbs (Suc n)) payload st1 = (Ok (), st') \<and> nd_contacts st' = nd_contacts st1"
    if "nd_contacts st1 = nd_contacts st" for st1
  proof (rule Cons.IH)
    show "contacts_ok E (nd_contacts st1)" using Cons.prems(1) that by simp
    show "\<exists>v. Store_read E (dbs (Suc n)) (Digest_to_vec x) = Ok (Some v)" if "x \<in> set payload" for n x
      using Cons.prems(2) [of x "Suc n"] that by simp
    show "\<exists>r. decode_client E tx = Inr r" if "x \<in> set payload" "Store_read E (dbs (Suc n)) (Digest_to_vec x) = Ok (Some v)"
      "de_mempool E v = Inr (MBatch txs)" "tx \<in> set txs" for n x v txs tx
      using Cons.prems(3) [of x "Suc n" v txs tx] that by simp
  qed
  obtain v where v: "Store_read E (dbs 0) (Digest_to_vec d) = Ok (Some v)" using Cons.prems(2) [of d 0] by auto
  show ?case
  proof (cases "\<exists>txs. de_mempool E v = Inr (MBatch txs)")
    case True
    then obtain txs where txs: "de_mempool E v = Inr (MBatch txs)" by blast
    have "\<exists>r. decode_client E tx = Inr r" if "tx \<in> set txs" for tx
      using Cons.prems(3) [of d 0 v txs tx] v txs that by simp
    then obtain st1 where "analyze_batch E txs st = (Ok (), st1)" "nd_contacts st1 = nd_contacts st"
      using analyze_batch_decodes [OF Cons.prems(1)] by blast
    then show ?thesis using v txs rest [of st1] by auto
  next
    case False
    then show ?thesis using v rest [of st] by (auto split: sum.split MempoolMessage.split)
  qed
qed simp

text \<open>C31. When the hosts of all contacts are IP addresses, the only thing in a transaction that stops the
  task of the node is that it does not decode: every decodable request is answered or its failure logged.\<close>

theorem transaction_completes_iff_decodes:
  assumes "contacts_ok E (nd_contacts st)"
  shows "completes (fst (analyze_transaction E tx st)) \<longleftrightarrow> (\<exists>r. decode_client E tx = Inr r)"
proof (cases "decode_client E tx")
  case (Inr r)
  then show ?thesis using analyze_transaction_decodes [OF assms] by fastforce
qed (simp add: analyze_transaction_def)

theorem transaction_completes_iff_decodes_witness:
  "completes (fst (analyze_transaction node_toy [1, 97, 0] (Node_new 2)))
   \<and> \<not> completes (fst (analyze_transaction node_toy [7] (Node_new 2)))"
proof -
  have c: "contacts_ok node_toy (nd_contacts (Node_new 2))" by (simp add: contacts_ok_def Node_new_def)
  show ?thesis
    using transaction_completes_iff_decodes [OF c, of "[1, 97, 0]"] transaction_completes_iff_decodes [OF c, of "[7]"]
    by simp
qed

text \<open>
  The analysis of blocks never returns an error: a failure is logged or a panic. So a transaction that
  does not decode is the end of the analysis of the blocks that hold it, wherever it stands.
\<close>

lemma logged_no_Err [simp]: "logged r \<noteq> Err e"
  by (cases r) simp_all

lemma analyze_no_Err:
  "fst (analyze_transaction E tx st) \<noteq> Err e" "fst (analyze_batch E txs st) \<noteq> Err e"
  "fst (analyze_payload E dbs payload st) \<noteq> Err e"
proof -
  have then_ok: "fst (then_ok m f) \<noteq> Err e" if "fst m \<noteq> Err e" "\<And>a s. fst (f a s) \<noteq> Err e"
    for m :: "(string, unit) outcome \<times> Node" and f :: "unit \<Rightarrow> Node \<Rightarrow> (string, unit) outcome \<times> Node"
    using that by (cases m; cases "fst m") auto
  have "fst (answer_client E n r st) \<noteq> Err e" "fst (answer_all E w st) \<noteq> Err e" for n r w st
    by (auto simp: answer_client_def answer_all_def split: prod.split option.split)
  note answers = this
  show tx: "fst (analyze_transaction E tx st) \<noteq> Err e" for tx st
  proof (cases "decode_client E tx")
    case (Inr r)
    obtain response w st1 where "get_responses E r st = ((response, w), st1)"
      by (cases "get_responses E r st") auto
    then show ?thesis using Inr then_ok answers by (simp add: analyze_transaction_def)
  qed (simp add: analyze_transaction_def)
  show batch: "fst (analyze_batch E txs st) \<noteq> Err e" for txs st
    by (induction txs arbitrary: st) (simp_all add: then_ok tx)
  show "fst (analyze_payload E dbs payload st) \<noteq> Err e"
    by (induction payload arbitrary: dbs st)
      (simp_all add: then_ok batch split: outcome.split option.split sum.split MempoolMessage.split)
qed

lemma then_ok_stops:
  assumes "\<And>e. fst m \<noteq> Err e" and "\<not> completes (fst m) \<or> (\<forall>a s. \<not> completes (fst (f a s)))"
  shows "\<not> completes (fst (then_ok m f))"
  using assms by (cases m; cases "fst m") auto

lemma undecodable_stops_batch:
  "tx \<in> set txs \<Longrightarrow> decode_client E tx = Inl e \<Longrightarrow> \<not> completes (fst (analyze_batch E txs st))"
proof (induction txs arbitrary: st)
  case (Cons t txs)
  have "\<not> completes (fst (analyze_transaction E t st)) \<or> (\<forall>a s. \<not> completes (fst (analyze_batch E txs s)))"
    using Cons by (cases "t = tx") (simp_all add: analyze_transaction_def)
  then show ?case by (simp add: then_ok_stops analyze_no_Err)
qed simp

lemma undecodable_stops_payload:
  assumes "d \<in> set payload" and "\<And>n. Store_read E (dbs n) (Digest_to_vec d) = Ok (Some s)"
    and "de_mempool E s = Inr (MBatch txs)" and "tx \<in> set txs" "decode_client E tx = Inl e"
  shows "\<not> completes (fst (analyze_payload E dbs payload st))"
  using assms(1,2)
proof (induction payload arbitrary: dbs st)
  case (Cons x payload)
  show ?case
  proof (cases "x = d")
    case True
    then show ?thesis
      using Cons.prems(2) [of 0] assms(3) undecodable_stops_batch [OF assms(4,5)]
      by (simp add: then_ok_stops analyze_no_Err)
  next
    case False
    then have stop: "\<not> completes (fst (analyze_payload E (\<lambda>n. dbs (Suc n)) payload st'))" for st'
      using Cons by simp
    then have "\<not> completes (fst (then_ok (analyze_batch E b st) (\<lambda>_. analyze_payload E (\<lambda>n. dbs (Suc n)) payload)))" for b
      by (intro then_ok_stops) (simp_all add: analyze_no_Err)
    then show ?thesis using stop by (auto split: outcome.split option.split sum.split MempoolMessage.split)
  qed
qed simp

lemma undecodable_stops_blocks:
  assumes "(dbs, b) \<in> set blocks" "d \<in> set (b_payload b)"
    and "\<And>n. Store_read E (dbs n) (Digest_to_vec d) = Ok (Some s)"
    and "de_mempool E s = Inr (MBatch txs)" and "tx \<in> set txs" "decode_client E tx = Inl e"
  shows "\<not> completes (fst (analyze_blocks E blocks st))"
  using assms(1)
proof (induction blocks arbitrary: st)
  case (Cons db blocks)
  obtain dbs' b' where db: "db = (dbs', b')" by (cases db)
  have "\<not> completes (fst (analyze_payload E dbs (b_payload b) st))" "b_payload b \<noteq> []"
    using undecodable_stops_payload [OF assms(2-6), where st = st] assms(2) by auto
  then have "\<not> completes (fst (if b_payload b' = [] then (Ok (), st) else analyze_payload E dbs' (b_payload b') st))
      \<or> (\<forall>a s. \<not> completes (fst (analyze_blocks E blocks s)))"
    using Cons db by (cases "db = (dbs, b)") auto
  then show ?case unfolding db by (simp add: then_ok_stops analyze_no_Err)
qed simp

text \<open>C39. Nothing checks the transactions of a peer's batch. A batch with one that does not decode passes the
  peer's port, is stored, and its digest goes to the consensus like any other; and the task of every node,
  in whatever state, stops at the blocks one of which carries that digest.\<close>

theorem peer_batch_stops_node:
  fixes E :: "'a node_env_scheme"
  assumes "rocks_ok E" and "mempool_bincode_ok E" and "mt_peer_processor m = []"
    and "tx \<in> set txs" and "decode_client E tx = Inl e"
    and "m' = mempool_run E (deliver (ser_mempool E (MBatch txs))) m" and "d = sha_digest E (ser_mempool E (MBatch txs))"
  shows "mt_digests m' = mt_digests m @ [d]
    \<and> Store_read E (mt_db m') (Digest_to_vec d) = Ok (Some (ser_mempool E (MBatch txs)))
    \<and> (\<forall>blocks st. (\<exists>(dbs, b) \<in> set blocks. d \<in> set (b_payload b)
          \<and> (\<forall>n. Store_read E (dbs n) (Digest_to_vec d) = Ok (Some (ser_mempool E (MBatch txs)))))
        \<longrightarrow> \<not> completes (fst (analyze_blocks E blocks st)))"
proof -
  let ?s = "ser_mempool E (MBatch txs)"
  have de: "de_mempool E ?s = Inr (MBatch txs)" using assms(2) by (simp add: mempool_bincode_ok_def)
  then have "any_batch E ?s" by (simp add: any_batch_def)
  from deliver_batch [OF this assms(3)]
  have run: "mt_digests m' = mt_digests m @ [d]" "mt_db m' = Store_write (Digest_to_vec d) ?s (mt_db m)"
    unfolding assms(6,7) by simp_all
  have "\<not> completes (fst (analyze_blocks E blocks st))"
    if "(dbs, b) \<in> set blocks" "d \<in> set (b_payload b)" "\<forall>n. Store_read E (dbs n) (Digest_to_vec d) = Ok (Some ?s)"
    for blocks st dbs b
    using undecodable_stops_blocks [OF that(1,2) _ de assms(4,5)] that(3) by blast
  then show ?thesis using run db.kv_same [OF assms(1)] by auto
qed

theorem peer_batch_stops_node_witness:
  "\<not> completes (fst (analyze_blocks node_toy
      [(\<lambda>_. mt_db (mempool_run node_toy (deliver (ser_toy (MBatch [[9]]))) toy_mempool),
        toy_block QC_genesis 1 [toy_digest 10])] (Node_new 2)))"
proof -
  let ?m = "mempool_run node_toy (deliver (ser_mempool node_toy (MBatch [[9]]))) toy_mempool"
  have peer: "mt_peer_processor toy_mempool = []" by (simp add: mempool_eval)
  have "sum_list (ser_toy (MBatch [[9]])) = 10" by (simp add: tx_code_def)
  then have d: "toy_digest 10 = sha_digest node_toy (ser_mempool node_toy (MBatch [[9]]))" by (simp del: ser_toy.simps)
  obtain e where bad: "decode_client node_toy [9] = Inl e" by simp
  note stops = peer_batch_stops_node [OF node_toy_ok(1,3) peer _ bad refl d]
  let ?db = "mt_db (mempool_run node_toy (deliver (ser_toy (MBatch [[9]]))) toy_mempool)"
    and ?b = "toy_block QC_genesis 1 [toy_digest 10]"
  have "Store_read node_toy ?db (Digest_to_vec (toy_digest 10)) = Ok (Some (ser_toy (MBatch [[9]])))"
    "\<forall>blocks st. (\<exists>(dbs, b) \<in> set blocks. toy_digest 10 \<in> set (b_payload b)
        \<and> (\<forall>n. Store_read node_toy (dbs n) (Digest_to_vec (toy_digest 10)) = Ok (Some (ser_toy (MBatch [[9]])))))
      \<longrightarrow> \<not> completes (fst (analyze_blocks node_toy blocks st))"
    using stops by (simp_all del: ser_toy.simps analyze_blocks.simps)
  from this(2) [rule_format, of "[(\<lambda>_. ?db, ?b)]" "Node_new 2"] this(1) show ?thesis
    by (simp del: ser_toy.simps analyze_blocks.simps)
qed

text \<open>A host name is not an address. Any client may register with one (no request is authenticated),
  and from then on every fetch of the last weights panics in Obsido's task, and so does the node's task
  when it publishes the weights of an epoch, after it has entered the next.\<close>

theorem host_name_stops_answers:
  "fst (obsido_handle node_toy [0, 98, 0] (node_run node_toy [NdObsido [1, 97, 1]] (Node_new 1))) = Panic unwrap_message
   \<and> fst (analyze_transaction node_toy [1, 98, 0] (node_run node_toy [NdObsido [1, 97, 1]] (Node_new 1)))
      = Panic unwrap_message
   \<and> \<not> contacts_ok node_toy (nd_contacts (node_run node_toy [NdObsido [1, 97, 1]] (Node_new 1)))"
proof -
  let ?info = "\<lparr>sr_host = ''localhost'', sr_port = 9000, sr_pasv_host = ''localhost'', sr_pasv_port = 9001\<rparr>"
  have parse: "parse_ip node_toy ''localhost'' = None"
    by (simp add: parse_ip_def parse_ipv4_def parse_octet_def digit_value_def)
  have st: "node_run node_toy [NdObsido [1, 97, 1]] (Node_new 1) = (Node_new 1)\<lparr>nd_contacts := [([char_of (97 :: nat)], ?info)]\<rparr>"
    by (simp add: node_run_def obsido_handle_def ObsidoMethod_from_i32_def client_register_def RegisterInfo_into_def
        Node_new_def Let_def)
  show ?thesis
    unfolding st by (simp add: obsido_handle_def ObsidoMethod_from_i32_def fetch_w_last_def node_eval parse
        contacts_ok_def reachable_contact_def)
qed

end
