(* ===== verification/Delivery_Properties.thy ===== *)
theory Delivery_Properties
  imports Cluster_Properties Consensus_Payload Node_Properties
begin

text \<open>
  From the consensus to the application: the batches of a committed block are in the store, so the
  node's task analyzes the block to its end.
\<close>

text \<open>C6. A committed block is analyzed to the end. The node's task finds every batch of the block's
  payload in the store (its panic ``Digest not in block_store.'' cannot occur), now and at any later
  time, whichever way the block came in: as a proposal, from the synchronizer or the payload waiter, or
  from the own proposer. When in addition the transactions of these batches decode and the hosts of
  all contacts are IP addresses, the analysis of the block completes. (\<open>N\<close> is the environment of the
  node, with the store of the consensus; the digests the mempool hands over are those of stored batches.)\<close>

theorem committed_blocks_analyzed:
  assumes "progress_env E S com sk"
    and "(Consensus_spawn name com par sk [] :: (ConfigError, _) outcome) = Ok tasks"
    and "consensus_run E (\<lambda>ev s. fair_input E S ev s \<and> stocked E ev s) tasks s"
    and "ToCommit b \<in> set (c_out (cs_core s))"
    and "\<And>db k. Store_read N db k = Store_read E db k"
    and "\<And>n. \<exists>ps. dbs n = ps @ c_db (cs_core s)"
  shows "(\<forall>d \<in> set (b_payload b). \<forall>n. \<exists>v. Store_read N (dbs n) (Digest_to_vec d) = Ok (Some v))
    \<and> (contacts_ok N (nd_contacts st) \<longrightarrow>
        (\<forall>d \<in> set (b_payload b). \<forall>n v txs. Store_read N (dbs n) (Digest_to_vec d) = Ok (Some v) \<longrightarrow>
           de_mempool N v = Inr (MBatch txs) \<longrightarrow> (\<forall>tx \<in> set txs. \<exists>r. decode_client N tx = Inr r)) \<longrightarrow>
        fst (analyze_blocks N [(dbs, b)] st) = Ok ())"
proof -
  have r: "rocks_ok E" using assms(1) by (simp add: progress_env_def)
  have "payload_in E (c_db (cs_core s)) b"
    using consensus_run_avail [OF assms(1-3)] assms(4) by (simp add: tasks_avail_def avail_inv_def)
  then have "payload_in E (dbs n) b" for n
    using payload_later [OF r] assms(6) [of n] by auto
  then have found: "\<exists>v. Store_read N (dbs n) (Digest_to_vec d) = Ok (Some v)" if "d \<in> set (b_payload b)" for d n
    using that by (auto simp: payload_in_def db.present_def assms(5))
  moreover have "fst (analyze_blocks N [(dbs, b)] st) = Ok ()"
    if "contacts_ok N (nd_contacts st)"
      and dec: "\<forall>d \<in> set (b_payload b). \<forall>n v txs. Store_read N (dbs n) (Digest_to_vec d) = Ok (Some v) \<longrightarrow>
           de_mempool N v = Inr (MBatch txs) \<longrightarrow> (\<forall>tx \<in> set txs. \<exists>r. decode_client N tx = Inr r)"
  proof -
    have "\<exists>st'. analyze_payload N dbs (b_payload b) st = (Ok (), st') \<and> nd_contacts st' = nd_contacts st"
      by (rule analyze_payload_decodes [OF that(1) found]) (use dec in blast)+
    then show ?thesis by auto
  qed
  ultimately show ?thesis by blast
qed

section \<open>A committed batch\<close>

text \<open>
  The committee of one node again, with a batch in the block of round 1: the mempool stores the batch,
  the block is proposed, and the blocks of rounds 2 and 3 commit it.
\<close>

definition P1 :: Block where
  "P1 = toy_block QC_genesis 1 [toy_digest 9]"

definition pay_ser :: "Block \<Rightarrow> byte list" where
  "pay_ser b = (if b = P1 then [1] else if b = B2 then [2] else if b = B3 then [3] else [])"

definition pay_de :: "byte list \<Rightarrow> string + Block" where
  "pay_de bs = (if bs = [1] then Inr P1 else if bs = [2] then Inr B2 else if bs = [3] then Inr B3
     else Inl ''unknown block'')"

definition pay_env :: env where
  "pay_env = toy_env\<lparr>ser_block := pay_ser, de_block := pay_de\<rparr>"

definition pay_batch :: "byte list" where
  "pay_batch = ser_toy (MBatch [[1, 97, 0]])"

lemma pay_sha [simp]: "sha_digest pay_env bs = toy_digest (if length bs > 32 then bs ! 32 + 1 else 1)"
  using toy_sha [of bs] by (simp add: sha_digest_def pay_env_def)

lemma pay_fields [simp]:
  "Store_read pay_env db k = Ok (map_of db k)" "ser_block pay_env = pay_ser" "de_block pay_env = pay_de"
  "rocks_ok pay_env" "rocks_fresh pay_env" "batch_complete pay_env"
  by (simp_all add: Store_read_def rocks_ok_def rocks_fresh_def batch_complete_def pay_env_def toy_env_def)

lemma pay_digests [simp]:
  "Block_digest pay_env b = toy_digest (ucast (b_round b) + 1)" "Vote_digest pay_env v = toy_digest (ucast (v_round v) + 1)"
  using toy_Block_digest [of b] toy_Vote_digest [of v] by (simp_all add: Block_digest_def Vote_digest_def)

lemma pay_signatures [simp]:
  "Signature_verify pay_env s d pk = Ok ()" "request_signature pay_env sk d = Ok toy_signature"
  using toy_request [of sk d]
  by (simp_all add: Signature_verify_iff request_signature_def Signature_new_def pay_env_def toy_env_def)

lemma pay_batch_verify [simp]: "Signature_verify_batch pay_env d votes = Ok ()"
  by (rule Signature_verify_batch_ok) auto

lemma pay_verify [simp]:
  "QC_verify pay_env (toy_qc d r) solo = Ok ()" "Block_verify pay_env P1 solo = Ok ()"
  "Block_verify pay_env B2 solo = Ok ()" "Block_verify pay_env B3 solo = Ok ()"
  "v_author v = PublicKey 1 \<Longrightarrow> Vote_verify pay_env v solo = Ok ()"
  by (simp_all add: QC_verify_Ok_iff names_weight_def Block_verify_Ok_iff Vote_verify_Ok_iff P1_def)

lemma pay_Vote_new [simp]:
  "Vote_new pay_env b author sk = Ok \<lparr>v_hash = toy_digest (ucast (b_round b) + 1), v_round = b_round b,
     v_author = author, v_signature = toy_signature\<rparr>"
  by (simp add: Vote_new_def Let_def)

lemma P1_sel [simp]:
  "b_qc P1 = QC_genesis" "b_round P1 = 1" "b_payload P1 = [toy_digest 9]" "b_tc P1 = None" "b_author P1 = PublicKey 1"
  by (simp_all add: P1_def)

lemma pay_serial [simp]:
  "pay_ser P1 = [1]" "pay_ser B2 = [2]" "pay_ser B3 = [3]" "pay_de [1] = Inr P1" "pay_de [2] = Inr B2" "pay_de [3] = Inr B3"
  "pay_de pay_batch = Inl ''unknown block''"
  by (simp_all add: pay_ser_def pay_de_def P1_def B2_def B3_def pay_batch_def tx_code_def)

definition pay_db0 :: puts where "pay_db0 = [(Digest_to_vec (toy_digest 9), pay_batch)]"
definition pay_db1 :: puts where "pay_db1 = (Digest_to_vec (toy_digest 2), [1]) # pay_db0"
definition pay_db2 :: puts where "pay_db2 = (Digest_to_vec (toy_digest 3), [2]) # pay_db1"
definition pay_db3 :: puts where "pay_db3 = (Digest_to_vec (toy_digest 4), [3]) # pay_db2"

definition pay_out1 :: "Effect list" where
  "pay_out1 = out0 @ [ToProposer (PCleanup [toy_digest 9]), CreatedVote (toy_vote 2 1), ResetTimer,
     ToProposer (PMake 2 (toy_qc 2 1) None)]"

definition pay_out2 :: "Effect list" where
  "pay_out2 = pay_out1 @ [ToProposer (PCleanup [toy_digest 9]), ToMempool (MempoolCleanup 0),
     ToPayloadWaiter (PWCleanup 0), CreatedVote (toy_vote 3 2), ResetTimer, ToProposer (PMake 3 (toy_qc 3 2) None)]"

definition pay_out3 :: "Effect list" where
  "pay_out3 = pay_out2 @ [ToProposer (PCleanup [toy_digest 9]), ToMempool (MempoolCleanup 1),
     ToPayloadWaiter (PWCleanup 1), ToCommit P1, CreatedVote (toy_vote 4 3), ResetTimer,
     ToProposer (PMake 4 (toy_qc 4 3) None)]"

lemma pay_steps:
  "handle_proposal pay_env P1 (solo_state 1 0 QC_genesis pay_db0 out0) = (Ok (), solo_state 2 0 (toy_qc 2 1) pay_db1 pay_out1)"
  "handle_proposal pay_env B2 (solo_state 2 0 (toy_qc 2 1) pay_db1 pay_out1) = (Ok (), solo_state 3 0 (toy_qc 3 2) pay_db2 pay_out2)"
  "handle_proposal pay_env B3 (solo_state 3 0 (toy_qc 3 2) pay_db2 pay_out2) = (Ok (), solo_state 4 1 (toy_qc 4 3) pay_db3 pay_out3)"
  by (simp_all add: core_eval solo_state_def pay_out1_def pay_out2_def pay_out3_def pay_db0_def pay_db1_def pay_db2_def
      pay_db3_def toy_qc_def [symmetric] commit_ancestors.simps)

lemma pay_progress: "progress_env pay_env {P1, B2, B3} solo (SecretKey 0)"
  by (simp add: progress_env_def collision_free_def)

lemma pay_run:
  "consensus_run pay_env (\<lambda>ev s. fair_input pay_env {P1, B2, B3} ev s \<and> stocked pay_env ev s) solo_tasks
     (solo_node (solo_state 4 1 (toy_qc 4 3) pay_db3 pay_out3) SyncTask_new 0)"
proof -
  let ?run = "\<lambda>c. consensus_run pay_env (\<lambda>ev s. fair_input pay_env {P1, B2, B3} ev s \<and> stocked pay_env ev s) solo_tasks
     (solo_node c SyncTask_new 0)"
  have 0: "?run (solo_state 1 0 QC_genesis [] out0)"
    using consensus_run.boot [OF solo_node_boot] by (simp add: solo_start_state)
  have stored: "consensus_step pay_env (StoreWritten (Digest_to_vec (toy_digest 9)) pay_batch)
      (solo_node (solo_state 1 0 QC_genesis [] out0) SyncTask_new 0)
    = (Ok (), solo_node (solo_state 1 0 QC_genesis pay_db0 out0) SyncTask_new 0)"
    by (simp add: core_turn_def pay_db0_def Store_write_def) (simp add: solo_state_def)
  have 1: "?run (solo_state 1 0 QC_genesis pay_db0 out0)"
    by (rule consensus_run.step [OF 0 _ stored]) (simp add: foreign_def)
  have s: "?run c'" if "?run c" "handle_proposal pay_env b c = (Ok (), c')" "b \<in> {P1, B2, B3}" for b c c'
    by (rule consensus_run.step [OF that(1) _ solo_receives [OF that(2)]]) (use that(3) in simp)
  from s [OF s [OF s [OF 1 pay_steps(1)] pay_steps(2)] pay_steps(3)] show ?thesis by simp
qed

theorem committed_blocks_analyzed_witness:
  "fst (analyze_blocks node_toy [(\<lambda>_. pay_db3, P1)] (Node_new 2)) = Ok ()"
proof -
  have commit: "ToCommit P1 \<in> set (c_out (cs_core (solo_node (solo_state 4 1 (toy_qc 4 3) pay_db3 pay_out3) SyncTask_new 0)))"
    by (simp add: pay_out3_def)
  have stored: "map_of pay_db3 (Digest_to_vec (toy_digest 9)) = Some pay_batch"
    by (simp add: pay_db0_def pay_db1_def pay_db2_def pay_db3_def)
  have contacts: "contacts_ok node_toy (nd_contacts (Node_new 2))" by (simp add: contacts_ok_def Node_new_def)
  have dec: "\<forall>d \<in> set (b_payload P1). \<forall>n v txs. Store_read node_toy ((\<lambda>_. pay_db3) n) (Digest_to_vec d) = Ok (Some v) \<longrightarrow>
      de_mempool node_toy v = Inr (MBatch txs) \<longrightarrow> (\<forall>tx \<in> set txs. \<exists>r. decode_client node_toy tx = Inr r)"
    using stored by (simp add: pay_batch_def del: ser_toy.simps)
  show ?thesis
    using committed_blocks_analyzed [OF pay_progress solo_spawn pay_run commit, of node_toy "\<lambda>_. pay_db3" "Node_new 2"]
      contacts dec by simp
qed

end
