(* ===== verification/Crate_Properties.thy ===== *)
theory Crate_Properties
  imports Concrete
begin

text \<open>
  What makes the small crates and the data of the consensus crate correct: keys and signatures,
  digests, stake and quorums, leaders, the store. Each property is applied to the environment and
  the committees of \<open>Concrete\<close>.
\<close>

section \<open>Keys and signatures\<close>

text \<open>A public key and a secret key survive the text form of the key files: decoding what
  \<open>encode_base64\<close> wrote gives the key back, whatever its bytes.\<close>

theorem key_files_round_trip:
  assumes "base64_inverse E"
  shows "PublicKey_decode_base64 E (PublicKey_encode_base64 E pk) = Ok pk
    \<and> SecretKey_decode_base64 E (SecretKey_encode_base64 E sk) = Ok sk"
proof -
  have "PublicKey (first32 (pk_bytes pk)) = pk" by (cases pk) (simp add: pk_bytes_def)
  moreover have "SecretKey (of_be_bytes (take 64 (sk_bytes sk))) = sk"
    by (cases sk) (simp add: sk_bytes_def of_be_bytes_be_bytes take_bit_word_eq_self)
  moreover have "length (sk_bytes sk) = 64" by (simp add: sk_bytes_def)
  ultimately show ?thesis
    using assms
    by (simp add: PublicKey_decode_base64_def PublicKey_encode_base64_def base64_inverse_def
        SecretKey_decode_base64_def SecretKey_encode_base64_def)
qed

lemma toy_base64 [simp]: "base64_inverse toy_env"
proof -
  have "of_char (char_of (unat b) :: char) = b" for b :: byte
  proof -
    have "unat b < 256" by (rule order_less_le_trans [OF unsigned_less]) simp
    then have h: "of_char (char_of (unat b)) = unat b" by simp
    have "(of_char (char_of (unat b) :: char) :: byte) = of_nat (of_char (char_of (unat b) :: char))"
      by (rule of_nat_of_char [symmetric])
    also have "\<dots> = b" unfolding h by simp
    finally show ?thesis .
  qed
  then show ?thesis by (simp add: base64_inverse_def toy_env_def comp_def)
qed

theorem key_files_round_trip_witness:
  "PublicKey_decode_base64 toy_env (PublicKey_encode_base64 toy_env (PublicKey 77)) = Ok (PublicKey 77)"
  using key_files_round_trip [OF toy_base64] by blast

text \<open>C29. What a member of the committee signs, the others accept: the votes, timeouts and blocks made
  with \<open>new\<close> pass \<open>verify\<close>, where the certificates they embed do (a block without a timeout
  certificate carries a payload from round 6 on).\<close>

theorem signed_messages_verify:
  assumes "sign_correct E sk author" and "committee_stake com author > 0"
    and "QC_eq qc QC_genesis \<or> QC_verify E qc com = Ok ()"
    and "case tc of Some tc \<Rightarrow> TC_verify E tc com = Ok () | None \<Rightarrow> round \<le> 5 \<or> payload \<noteq> []"
  shows "\<exists>v t b'. Vote_new E b author sk = Ok v \<and> Vote_verify E v com = Ok ()
    \<and> Timeout_new E qc round author sk = Ok t \<and> Timeout_verify E t com = Ok ()
    \<and> Block_new E qc tc author round payload sk = Ok b' \<and> Block_verify E b' com = Ok ()"
proof -
  obtain v where v: "Vote_new E b author sk = Ok v" "Vote_verify E v com = Ok ()"
    using Vote_new_verifies [OF assms(1,2)] by blast
  obtain t where t: "Timeout_new E qc round author sk = Ok t" "Timeout_verify E t com = Ok ()"
    using Timeout_new_verifies [OF assms(1,2,3)] by blast
  obtain b' where "Block_new E qc tc author round payload sk = Ok b'" "Block_verify E b' com = Ok ()"
    using Block_new_verifies [OF assms] by blast
  with v t show ?thesis by blast
qed

theorem signed_messages_verify_witness:
  "\<exists>b'. Block_new toy_env (toy_qc 4 3) None (PublicKey 1) 4 [] (SecretKey 0) = Ok b'
    \<and> Block_verify toy_env b' solo = Ok ()"
  using signed_messages_verify [where E = toy_env and sk = "SecretKey 0" and author = "PublicKey 1"
      and com = solo and qc = "toy_qc 4 3" and tc = None and round = 4 and payload = "[]"]
  by auto

text \<open>C28. What a signature covers. The bytes hashed for a block determine its author, round, payload and
  parent (and leave out its certificates' votes and its timeout certificate); a vote signs exactly
  the bytes of the certificate it counts for; and the bytes hashed for blocks, votes and timeouts
  are never the same, so a signature over one kind of message is none over another.\<close>

theorem signed_bytes_separate:
  "(Block_preimage b = Block_preimage b' \<longleftrightarrow>
      b_author b = b_author b' \<and> b_round b = b_round b' \<and> b_payload b = b_payload b'
      \<and> qc_hash (b_qc b) = qc_hash (b_qc b'))
   \<and> (Vote_preimage v = QC_preimage qc \<longleftrightarrow> v_hash v = qc_hash qc \<and> v_round v = qc_round qc)
   \<and> (timeout_preimage r q = timeout_preimage r' q' \<longleftrightarrow> r = r' \<and> q = q')
   \<and> Vote_preimage v \<noteq> Block_preimage b \<and> timeout_preimage r q \<noteq> Block_preimage b
   \<and> timeout_preimage r q \<noteq> Vote_preimage v"
proof -
  have "length (Vote_preimage v) \<noteq> length (Block_preimage b)"
    "length (timeout_preimage r q) \<noteq> length (Block_preimage b)"
    "length (timeout_preimage r q) \<noteq> length (Vote_preimage v)"
    by simp_all
  then have "Vote_preimage v \<noteq> Block_preimage b" "timeout_preimage r q \<noteq> Block_preimage b"
    "timeout_preimage r q \<noteq> Vote_preimage v"
    by metis+
  moreover have "timeout_preimage r q = timeout_preimage r' q' \<longleftrightarrow> r = r' \<and> q = q'"
    by (simp add: timeout_preimage_def)
  moreover have "Vote_preimage v = QC_preimage qc \<longleftrightarrow> v_hash v = qc_hash qc \<and> v_round v = qc_round qc"
    by (simp add: Vote_preimage_def QC_preimage_def)
  ultimately show ?thesis using Block_preimage_inject by blast
qed

section \<open>Stake and leaders\<close>

text \<open>C27. Without overflow the quorum threshold is what its comment says: for total stake \<open>N\<close> it is
  \<open>N - f\<close> with \<open>f\<close> the largest integer below a third of \<open>N\<close>, and distinct members reach it exactly
  when they hold more than two thirds of the stake.\<close>

theorem quorum_threshold_exact:
  assumes "committee_valid com" and "total_stake com > 0"
    and "distinct names" and "set names \<subseteq> committee_members com"
  shows "unat (quorum_threshold com) = total_stake com - (total_stake com - 1) div 3
    \<and> (quorum_threshold com \<le> names_weight com names
        \<longleftrightarrow> 2 * total_stake com < 3 * sum (stake_of com) (set names))"
proof -
  have "2 * n div 3 + 1 = n - (n - 1) div 3" if "n > 0" for n :: nat
    using that by (cases n) (simp, arith)
  then show ?thesis
    using assms(2) unat_quorum_threshold [OF assms(1)] names_quorum_iff [OF assms(1,3,4)]
      committee_quorums.quorum_iff [OF assms(1)] sum_members [OF assms(1)] assms(4) by simp
qed

theorem quorum_threshold_exact_witness: "unat (quorum_threshold solo) = 1 - (1 - 1) div 3"
  using quorum_threshold_exact [of solo "[]"] by simp

definition heavy :: Committee where
  "heavy = Committee_new [(PublicKey 1, 2 ^ 30, toy_address), (PublicKey 2, 2 ^ 30, toy_address)] 1"

text \<open>C40. The threshold is computed in 32 bits, where \<open>2 * N\<close> wraps from a total stake \<open>N\<close> of \<open>2 ^ 31\<close> on:
  it is a third of what is left, plus one. From there on it is at most half of the stake, so two
  certificates need not share a signer; with \<open>N = 2 ^ 31\<close> it is 1, and a certificate with the signature of
  one authority, whichever, passes \<open>QC::verify\<close>.\<close>

theorem quorum_threshold_overflows:
  assumes "total_stake com < 2 ^ 32"
  shows "unat (quorum_threshold com) = 2 * total_stake com mod 2 ^ 32 div 3 + 1
    \<and> (2 ^ 31 \<le> total_stake com \<longrightarrow> 2 * unat (quorum_threshold com) \<le> total_stake com)
    \<and> (total_stake com = 2 ^ 31 \<longrightarrow> quorum_threshold com = 1
        \<and> (\<forall>qc name s. qc_votes qc = [(name, s)] \<and> committee_stake com name > 0
              \<and> Signature_verify_batch E (QC_digest E qc) [(name, s)] = Ok () \<longrightarrow> QC_verify E qc com = Ok ()))"
proof -
  let ?n = "total_stake com"
  have "unat (2 * total_votes com) = 2 * ?n mod 2 ^ 32"
    using unat_total_votes_fits [OF assms] by (simp add: unat_word_ariths)
  moreover have "m < 4294967296 \<Longrightarrow> m div 3 + 1 < 4294967296" for m :: nat by linarith
  from this [of "2 * ?n mod 4294967296"] have "2 * ?n mod 2 ^ 32 div 3 + 1 < 2 ^ 32" by simp
  ultimately have t: "unat (quorum_threshold com) = 2 * ?n mod 2 ^ 32 div 3 + 1"
    by (simp add: quorum_threshold_def unat_word_ariths unat_div)
  have half: "2 * unat (quorum_threshold com) \<le> ?n" if "2 ^ 31 \<le> ?n"
  proof -
    have "2 * ?n mod 2 ^ 32 = 2 * ?n - 2 ^ 32"
      using that assms by (simp add: le_mod_geq)
    then show ?thesis using t that assms by simp
  qed
  have one: "quorum_threshold com = 1" if "?n = 2 ^ 31"
  proof -
    have "unat (quorum_threshold com) = unat (1 :: Stake)" using t that by simp
    then show ?thesis by (simp only: word_unat_eq_iff)
  qed
  have "QC_verify E qc com = Ok ()"
    if "?n = 2 ^ 31" "qc_votes qc = [(name, s)]" "committee_stake com name > 0"
      "Signature_verify_batch E (QC_digest E qc) [(name, s)] = Ok ()" for qc name s
  proof -
    have "(1 :: Stake) \<le> committee_stake com name" using that(3) by (simp add: word_le_nat_alt word_less_nat_alt)
    then show ?thesis using that one by (simp add: QC_verify_Ok_iff names_weight_def)
  qed
  then show ?thesis using t half one by blast
qed

theorem quorum_threshold_overflows_witness:
  "quorum_threshold heavy = 1 \<and> QC_verify toy_env (toy_qc 2 1) heavy = Ok ()"
proof -
  have "total_stake heavy = 2 ^ 31" "committee_stake heavy (PublicKey 1) > 0"
    by (simp_all add: heavy_def Committee_new_def total_stake_def committee_stake_def)
  then show ?thesis
    using quorum_threshold_overflows [of heavy toy_env] by (simp add: toy_qc_def)
qed

text \<open>C26. Two certificates that pass \<open>QC::verify\<close> share a signer outside every set of members that holds
  at most a third of the stake.\<close>

theorem certificates_share_correct_signer:
  assumes "committee_valid com" and "QC_verify E qc com = Ok ()" and "QC_verify E qc' com = Ok ()"
    and "B \<subseteq> committee_members com" and "3 * sum (stake_of com) B \<le> total_stake com"
  shows "\<exists>p. p \<in> qc_signers qc \<and> p \<in> qc_signers qc' \<and> p \<notin> B"
  using committee_quorums.correct_in_both [OF assms(1) QC_verify_quorum [OF assms(1,2)]
      QC_verify_quorum [OF assms(1,3)] assms(4)] assms(5) sum_members [OF assms(1)] by simp

theorem certificates_share_correct_signer_witness:
  "\<exists>p. p \<in> qc_signers (toy_qc 3 2) \<and> p \<in> qc_signers (toy_qc 4 3)"
  using certificates_share_correct_signer [of solo toy_env "toy_qc 3 2" "toy_qc 4 3" "{}"] by auto

lemma window_mod:
  fixes a n t :: nat
  assumes "t < n"
  shows "\<exists>!k. k < n \<and> (a + k) mod n = t"
proof -
  have n: "n > 0" using assms by simp
  let ?k = "(t + n - a mod n) mod n"
  have "(a + ?k) mod n = (a mod n + (t + n - a mod n)) mod n"
    by (simp add: mod_simps)
  also have "a mod n + (t + n - a mod n) = t + n" using mod_less_divisor [OF n, of a] by linarith
  finally have k: "(a + ?k) mod n = t" using assms by simp
  have inj: "k = k'" if "k < n" "k' < n" "(a + k) mod n = (a + k') mod n" for k k'
  proof -
    from that(3) obtain q1 q2 where "a + k + n * q1 = a + k' + n * q2"
      unfolding nat_mod_eq_iff by blast
    then have "k + n * q1 = k' + n * q2" by simp
    then have "k mod n = k' mod n" unfolding nat_mod_eq_iff by blast
    then show ?thesis using that by simp
  qed
  show ?thesis
  proof (rule ex1I [of _ ?k])
    show "?k < n \<and> (a + ?k) mod n = t" using k n by simp
  qed (use inj [of _ ?k] k n in auto)
qed

text \<open>C33. Leaders rotate: in any window of as many consecutive rounds as there are members, every member
  leads exactly once, and the order in which the hash map lists the authorities does not matter.\<close>

theorem leaders_rotate:
  assumes "distinct_keys (authorities com)" and "pk \<in> committee_members com"
    and "unat round + committee_size com \<le> 2 ^ 64"
    and "distinct_keys (authorities com')" and "set (authorities com') = set (authorities com)"
  shows "(\<exists>!k. k < committee_size com \<and> get_leader com (round + of_nat k) = (Ok pk :: (ConsensusError, _) outcome))
    \<and> (get_leader com' round :: (ConsensusError, _) outcome) = get_leader com round"
proof -
  let ?keys = "sort (map fst (authorities com))" and ?n = "committee_size com"
  have len: "length ?keys = ?n" and dist: "distinct ?keys" and set: "set ?keys = committee_members com"
    using assms(1) by (simp_all add: committee_size_def distinct_keys_def committee_members_def hm_keys_def)
  obtain t where t: "t < ?n" "?keys ! t = pk" using assms(2) set len by (metis in_set_conv_nth)
  have u: "unat (round + of_nat k) = unat round + k" if "k < ?n" for k
  proof -
    have "unat round + k < 2 ^ 64" using that assms(3) by simp
    then show ?thesis by (simp add: unat_word_ariths unat_of_nat)
  qed
  have lead: "get_leader com (round + of_nat k) = (Ok pk :: (ConsensusError, _) outcome)
      \<longleftrightarrow> (unat round + k) mod ?n = t" if "k < ?n" for k
  proof -
    have "(unat round + k) mod ?n < ?n" using that by simp
    then have "?keys ! ((unat round + k) mod ?n) = pk \<longleftrightarrow> (unat round + k) mod ?n = t"
      using t dist len nth_eq_iff_index_eq by metis
    then show ?thesis using that u [OF that] by (simp add: get_leader_def Let_def)
  qed
  from window_mod [OF t(1), of "unat round"] lead
  have "\<exists>!k. k < ?n \<and> get_leader com (round + of_nat k) = (Ok pk :: (ConsensusError, _) outcome)"
    by metis
  moreover have "sort (map fst (authorities com')) = ?keys"
    using sort_perm_eq [of com' com] assms(1,4,5) by (simp add: distinct_keys_def)
  moreover have "committee_size com' = ?n"
    using calculation(2) by (metis committee_size_def length_map length_sort)
  ultimately show ?thesis by (simp add: get_leader_def)
qed

theorem leaders_rotate_witness:
  "\<exists>!k. k < 1 \<and> get_leader solo (9 + of_nat k) = (Ok (PublicKey 1) :: (ConsensusError, _) outcome)"
  using leaders_rotate [of solo "PublicKey 1" 9 solo] by simp

section \<open>The store\<close>

text \<open>Two senders wait for the key \<open>[1]\<close> and are answered by the write, in order; a third waits for \<open>[2]\<close>.\<close>

theorem notify_read_exactly_once_witness:
  "asked [NotifyRead [1] 10, NotifyRead [1] 11, Write [1] [7], NotifyRead [2] 12] = {#10, 11#} + {#12#}
   \<and> db_get toy_env [([1], [7])] [2] = Inr None"
proof -
  let ?cs = "[NotifyRead [1] 10, NotifyRead [1] 11, Write [1] [7], NotifyRead [2] 12]"
  obtain rs st where run: "store_run toy_env ?cs Store_new = (rs, st)" by fastforce
  then have st: "rs = [NotifyReply 10 (Inr [7]), NotifyReply 11 (Inr [7])]"
    "st_db st = [([1], [7])]" "st_obligations st = [([2], [12])]"
    by (auto simp: Store_new_def toy_env_def hm_entry_def Let_def)
  from notify_read_exactly_once [OF toy_rocks(1) run] st show ?thesis
    by (auto simp: waiting_senders_def hm_keys_def)
qed

end
