(* ===== verification/Task_Properties.thy ===== *)
theory Task_Properties
  imports Core_Properties Proposer_Model
begin

text \<open>
  Properties of the tasks around the core: the payload check and its waiter, the synchronizer, the
  proposer and the helper.
\<close>

section \<open>Payloads\<close>

text \<open>The payload check answers true exactly when every batch of the block is in the store, with no
  effect; otherwise it asks the mempool for the missing batches, no others, from the block's author
  and registers the block with the payload waiter under the same list.\<close>

theorem payload_check:
  assumes "rocks_ok E"
  shows "MempoolDriver_verify E db b =
    (let missing = filter (\<lambda>x. \<not> db.present E db (Digest_to_vec x)) (b_payload b)
     in if missing = [] then (Ok True, [])
        else (Ok False, [ToMempool (Synchronize missing (b_author b)), ToPayloadWaiter (PWait missing b)]))"
  using MempoolDriver_verify_eq [OF assms] .

definition loaded :: Block where
  "loaded = toy_block (toy_qc 4 3) 4 [toy_digest 2, toy_digest 9]"

theorem payload_check_witness:
  "MempoolDriver_verify toy_env db3 loaded
   = (Ok False, [ToMempool (Synchronize [toy_digest 9] (PublicKey 1)),
                 ToPayloadWaiter (PWait [toy_digest 9] loaded)])"
  using payload_check [OF toy_rocks(1), of db3 loaded]
  by (simp add: loaded_def db.present_def db3_def db2_def db1_def Let_def)

definition pw_blocks :: "PayloadWaiter \<Rightarrow> Block set" where
  "pw_blocks st = set (pw_loopback st) \<union> snd ` snd ` set (pw_waiting st)"

lemma pw_run_blocks:
  "pw_inv E st \<Longrightarrow> pw_inv E (pw_run E evs st) \<and> pw_blocks (pw_run E evs st) \<subseteq> pw_blocks st \<union> set (pw_asked evs)"
proof (induction evs arbitrary: st)
  case (Cons ev evs)
  have run: "pw_run E (ev # evs) st = pw_run E evs (pw_step E ev st)" by (simp add: pw_run_def)
  have "pw_blocks (pw_step E ev st) \<subseteq> pw_blocks st \<union> set (pw_asked [ev])"
    unfolding pw_blocks_def by (rule pw_step_blocks)
  with Cons.IH [OF pw_step_inv [OF Cons.prems]] show ?case
    unfolding run pw_asked_Cons [of ev evs] set_append by blast
qed (simp add: pw_run_def)

text \<open>
  A future is live while the table of pending blocks holds its channel. \<open>cleaned\<close>: a cleanup has passed
  the round of the block; \<open>returned\<close>: a block with its digest has been handed back.
\<close>

definition pw_live :: "'a env_scheme \<Rightarrow> PayloadWaiter \<Rightarrow> nat \<Rightarrow> Block \<Rightarrow> bool" where
  "pw_live E st i b \<longleftrightarrow> pw_block st i = Some b \<and> (Block_digest E b, b_round b, i) \<in> set (pw_pending st)"

definition cleaned :: "PayloadWaiterEvent list \<Rightarrow> Block \<Rightarrow> bool" where
  "cleaned evs b \<longleftrightarrow> (\<exists>round. PwMessage (PWCleanup round) \<in> set evs \<and> b_round b \<le> round)"

definition returned :: "'a env_scheme \<Rightarrow> PayloadWaiter \<Rightarrow> Block \<Rightarrow> bool" where
  "returned E st b \<longleftrightarrow> (\<exists>b' \<in> set (pw_loopback st). Block_digest E b' = Block_digest E b)"

text \<open>
  While the store answers, the pending entries and the live futures are the same; a future that is not
  live was cancelled by a cleanup, or its block has come back; and every block asked for is waited for,
  has come back or was given up by a cleanup (it, or a block with its digest).
\<close>

definition pw_exact :: "'a env_scheme \<Rightarrow> PayloadWaiterEvent list \<Rightarrow> PayloadWaiter \<Rightarrow> bool" where
  "pw_exact E evs st \<longleftrightarrow>
     (\<forall>(d, r, i) \<in> set (pw_pending st). \<exists>b. pw_live E st i b \<and> d = Block_digest E b \<and> r = b_round b)
     \<and> (\<forall>i b. pw_block st i = Some b \<longrightarrow> pw_live E st i b \<or> cleaned evs b \<or> returned E st b)
     \<and> (\<forall>b \<in> set (pw_asked evs). \<exists>b'. Block_digest E b' = Block_digest E b
          \<and> ((\<exists>i. pw_live E st i b') \<or> cleaned evs b' \<or> returned E st b'))"

text \<open>What has to be checked of a step.\<close>

lemma pw_exact_keep:
  assumes ex: "pw_exact E evs st"
    and live: "\<And>i b. pw_live E st i b \<Longrightarrow> pw_live E st' i b \<or> cleaned (evs @ [ev]) b \<or> returned E st' b"
    and ret: "set (pw_loopback st) \<subseteq> set (pw_loopback st')"
    and blk: "\<And>i b. pw_block st' i = Some b \<Longrightarrow> pw_block st i = Some b \<or> pw_live E st' i b"
    and pend: "\<And>d r i. (d, r, i) \<in> set (pw_pending st') \<Longrightarrow> \<exists>b. pw_live E st' i b \<and> d = Block_digest E b \<and> r = b_round b"
    and ask: "\<And>b. b \<in> set (pw_asked [ev]) \<Longrightarrow> \<exists>b' i. Block_digest E b' = Block_digest E b \<and> pw_live E st' i b'"
  shows "pw_exact E (evs @ [ev]) st'"
proof -
  have asked: "set (pw_asked (evs @ [ev])) = set (pw_asked evs) \<union> set (pw_asked [ev])"
  proof (induction evs)
    case (Cons e es)
    then show ?case using pw_asked_Cons [of e es] pw_asked_Cons [of e "es @ [ev]"] by auto
  qed simp
  have later: "returned E st b \<Longrightarrow> returned E st' b" "cleaned evs b \<Longrightarrow> cleaned (evs @ [ev]) b" for b
    using ret by (auto simp: returned_def cleaned_def)
  show ?thesis
    unfolding pw_exact_def
  proof (intro conjI)
    show "\<forall>(d, r, i) \<in> set (pw_pending st'). \<exists>b. pw_live E st' i b \<and> d = Block_digest E b \<and> r = b_round b"
      using pend by blast
    show "\<forall>i b. pw_block st' i = Some b \<longrightarrow> pw_live E st' i b \<or> cleaned (evs @ [ev]) b \<or> returned E st' b"
      using ex blk live later unfolding pw_exact_def by meson
    show "\<forall>b \<in> set (pw_asked (evs @ [ev])). \<exists>b'. Block_digest E b' = Block_digest E b
        \<and> ((\<exists>i. pw_live E st' i b') \<or> cleaned (evs @ [ev]) b' \<or> returned E st' b')"
      using ex ask live later unfolding asked pw_exact_def by (meson UnE)
  qed
qed

lemma pw_pendingD:
  "pw_exact E evs st \<Longrightarrow> (d, r, i) \<in> set (pw_pending st) \<Longrightarrow> \<exists>b. pw_live E st i b \<and> d = Block_digest E b \<and> r = b_round b"
  unfolding pw_exact_def by blast

lemma pw_exact_wait:
  assumes inv: "pw_inv E st" and ex: "pw_exact E evs st"
  shows "pw_exact E (evs @ [PwMessage (PWait missing block)]) (pw_step E (PwMessage (PWait missing block)) st)"
proof (cases "Block_digest E block \<in> hm_keys (pw_pending st)")
  case True
  then obtain r i where "(Block_digest E block, r, i) \<in> set (pw_pending st)" by (auto simp: hm_keys_def)
  from pw_pendingD [OF ex this] obtain b where "pw_live E st i b" "Block_digest E b = Block_digest E block" by auto
  then show ?thesis using True pw_pendingD [OF ex] by (intro pw_exact_keep [OF ex]) auto
next
  case False
  let ?st = "pw_step E (PwMessage (PWait missing block)) st"
  have fresh: "pw_next st \<notin> hm_keys (pw_waiting st)" using inv by (auto simp: pw_inv_def)
  then have none: "map_of (pw_waiting st) (pw_next st) = None" by simp
  have blk: "pw_block ?st j = (if j = pw_next st then Some block else pw_block st j)" for j
    using False none by (simp add: pw_block_def map_add_def del: hm_keys_None split: option.split)
  have pend: "set (pw_pending ?st) = insert (Block_digest E block, b_round block, pw_next st) (set (pw_pending st))"
    using False by (simp add: AList_update_fresh)
  have old: "i \<noteq> pw_next st" if "pw_block st i = Some b" for i b
    using that none by (auto simp: pw_block_def simp del: hm_keys_None)
  have live: "pw_live E ?st i b" if "pw_live E st i b" for i b
    using that old unfolding pw_live_def pend blk by auto
  have new: "pw_live E ?st (pw_next st) block" unfolding pw_live_def pend blk by simp
  show ?thesis
  proof (rule pw_exact_keep [OF ex])
    fix d r i
    assume "(d, r, i) \<in> set (pw_pending ?st)"
    then show "\<exists>b. pw_live E ?st i b \<and> d = Block_digest E b \<and> r = b_round b"
      using new live pw_pendingD [OF ex] unfolding pend by blast
  next
    fix i b
    assume "pw_block ?st i = Some b"
    then show "pw_block st i = Some b \<or> pw_live E ?st i b" using new unfolding blk by (auto split: if_splits)
  qed (use live new False in auto)
qed

lemma pw_exact_step:
  assumes inv: "pw_inv E st" and ex: "pw_exact E evs st" and ok: "\<And>i. ev \<noteq> PwError i"
  shows "pw_exact E (evs @ [ev]) (pw_step E ev st)"
  using ok
proof (cases "(E, ev, st)" rule: pw_step.cases)
  case (1 E' missing block st')
  then show ?thesis using pw_exact_wait [OF inv ex] by simp
next
  case (2 E' round st')
  let ?st = "pw_step E ev st"
  have pend: "set (pw_pending ?st) = {(d, r, i) \<in> set (pw_pending st). r > round}" and blk: "pw_block ?st i = pw_block st i" for i
    using 2 by (auto simp: pw_block_simps)
  have live: "pw_live E ?st i b \<longleftrightarrow> pw_live E st i b \<and> b_round b > round" for i b
    unfolding pw_live_def pend blk by auto
  show ?thesis
  proof (rule pw_exact_keep [OF ex])
    fix i b
    assume "pw_live E st i b"
    then show "pw_live E ?st i b \<or> cleaned (evs @ [ev]) b \<or> returned E ?st b"
      using 2 unfolding live cleaned_def by auto
  next
    fix d r i
    assume "(d, r, i) \<in> set (pw_pending ?st)"
    then show "\<exists>b. pw_live E ?st i b \<and> d = Block_digest E b \<and> r = b_round b"
      using pw_pendingD [OF ex] unfolding pend live by blast
  qed (use 2 blk in auto)
next
  case (3 E' i st')
  let ?st = "pw_step E ev st"
  show ?thesis
  proof (cases "pw_block st i")
    case (Some b)
    have pend: "set (pw_pending ?st) = {(d, r, j) \<in> set (pw_pending st). d \<noteq> Block_digest E b}"
      using 3 Some by (auto simp: Let_def AList.delete_eq)
    have blk: "pw_block ?st j = (if j = i then None else pw_block st j)" for j
      using 3 Some by (simp add: Let_def pw_block_simps)
    have ret: "pw_loopback ?st = pw_loopback st @ [b]" using 3 Some by (simp add: Let_def)
    have live: "pw_live E ?st j x" if "pw_live E st j x" "Block_digest E x \<noteq> Block_digest E b" for j x
      using that Some unfolding pw_live_def pend blk by auto
    show ?thesis
    proof (rule pw_exact_keep [OF ex])
      fix j x
      assume "pw_live E st j x"
      then show "pw_live E ?st j x \<or> cleaned (evs @ [ev]) x \<or> returned E ?st x"
        using live unfolding returned_def ret by auto
    next
      fix d r j
      assume "(d, r, j) \<in> set (pw_pending ?st)"
      then have "(d, r, j) \<in> set (pw_pending st)" "d \<noteq> Block_digest E b" unfolding pend by auto
      then show "\<exists>x. pw_live E ?st j x \<and> d = Block_digest E x \<and> r = b_round x"
        using pw_pendingD [OF ex] live by blast
    qed (use 3 blk ret in \<open>auto split: if_splits\<close>)
  next
    case None
    then have same: "pw_step E ev st = st" using 3 by simp
    show ?thesis unfolding same by (rule pw_exact_keep [OF ex]) (use 3 pw_pendingD [OF ex] in auto)
  qed
next
  case (4 E' i st')
  let ?st = "pw_step E ev st"
  have same: "pw_pending ?st = pw_pending st" "pw_loopback ?st = pw_loopback st"
    using 4 by auto
  have blk: "pw_block ?st j = Some b \<longleftrightarrow> pw_block st j = Some b \<and> (j \<noteq> i \<or> (\<exists>(d, r, k) \<in> set (pw_pending st). k = i))" for j b
    using 4 by (auto simp: pw_block_simps)
  have live: "pw_live E ?st j b \<longleftrightarrow> pw_live E st j b" for j b
    unfolding pw_live_def blk same by auto
  show ?thesis
  proof (rule pw_exact_keep [OF ex])
    fix d r j
    assume "(d, r, j) \<in> set (pw_pending ?st)"
    then show "\<exists>b. pw_live E ?st j b \<and> d = Block_digest E b \<and> r = b_round b"
      using pw_pendingD [OF ex] unfolding same live by blast
  qed (use 4 live blk same in auto)
qed simp_all

lemma pw_run_exact:
  assumes "\<And>i. PwError i \<notin> set evs"
  shows "pw_exact E evs (pw_run E evs PayloadWaiter_new)"
  using assms
proof (induction evs rule: rev_induct)
  case Nil
  show ?case by (simp add: pw_exact_def pw_run_def PayloadWaiter_new_def pw_block_def)
next
  case (snoc ev evs)
  have "pw_inv E PayloadWaiter_new" by (simp add: pw_inv_def PayloadWaiter_new_def)
  then have "pw_inv E (pw_run E evs PayloadWaiter_new)" using pw_run_blocks by blast
  moreover have "pw_exact E evs (pw_run E evs PayloadWaiter_new)" "\<And>i. ev \<noteq> PwError i"
    using snoc by (simp, metis in_set_conv_decomp)
  ultimately have "pw_exact E (evs @ [ev]) (pw_step E ev (pw_run E evs PayloadWaiter_new))" by (rule pw_exact_step)
  then show ?case by (simp add: pw_run_def)
qed

text \<open>C22. The payload waiter hands back only blocks it was given. While the store answers, it keeps exact
  accounts: its table of pending blocks and its live futures are the same, each entry at the round and
  under the digest of the block its future waits for; a future that is no longer in the table was
  cancelled by a cleanup, or its block has come back; and no block it was given is forgotten: it is waited
  for, has been handed back, or was given up by a cleanup at or above its round (it, or a block with its
  digest). A future that a cleanup has cancelled may still hand its block back, if its batches arrive
  before it sees the cancellation.\<close>

theorem payload_waiter_sound:
  assumes "pw_run E evs PayloadWaiter_new = st" and "\<And>i. PwError i \<notin> set evs"
  shows "set (pw_loopback st) \<subseteq> set (pw_asked evs)
    \<and> (\<forall>d r i. (d, r, i) \<in> set (pw_pending st) \<longrightarrow>
         (\<exists>b. pw_block st i = Some b \<and> d = Block_digest E b \<and> r = b_round b))
    \<and> (\<forall>i b. pw_block st i = Some b \<longrightarrow>
         (Block_digest E b, b_round b, i) \<in> set (pw_pending st) \<or> cleaned evs b \<or> returned E st b)
    \<and> (\<forall>b \<in> set (pw_asked evs). \<exists>b'. Block_digest E b' = Block_digest E b
         \<and> ((\<exists>i. pw_live E st i b') \<or> cleaned evs b' \<or> returned E st b'))"
proof -
  have "pw_inv E PayloadWaiter_new" by (simp add: pw_inv_def PayloadWaiter_new_def)
  from pw_run_blocks [OF this, of evs] assms(1) have "set (pw_loopback st) \<subseteq> set (pw_asked evs)"
    by (auto simp: PayloadWaiter_new_def pw_blocks_def)
  moreover have ex: "pw_exact E evs st" using pw_run_exact [OF assms(2)] assms(1) by blast
  ultimately show ?thesis
    using pw_pendingD [OF ex] unfolding pw_exact_def pw_live_def by (intro conjI) (assumption | blast)+
qed

text \<open>A block is waited for, given up by a cleanup, and asked for again; then its batch arrives.\<close>

definition waiter_trace :: "PayloadWaiterEvent list" where
  "waiter_trace = [PwMessage (PWait [toy_digest 9] loaded), PwMessage (PWait [toy_digest 9] loaded),
     PwMessage (PWCleanup 4), PwMessage (PWait [toy_digest 9] loaded), PwCancelled 0, PwJoined 1]"

theorem payload_waiter_sound_witness:
  "pw_loopback (pw_run toy_env waiter_trace PayloadWaiter_new) = [loaded]
   \<and> set [loaded] \<subseteq> set (pw_asked waiter_trace)
   \<and> (\<exists>b. pw_block (pw_run toy_env (take 4 waiter_trace) PayloadWaiter_new) 1 = Some b)"
proof -
  have run: "pw_loopback (pw_run toy_env waiter_trace PayloadWaiter_new) = [loaded]"
    "pw_pending (pw_run toy_env (take 4 waiter_trace) PayloadWaiter_new) = [(Block_digest toy_env loaded, 4, 1)]"
    by (simp_all add: waiter_trace_def pw_run_def PayloadWaiter_new_def pw_block_def pw_remove_def Let_def,
        simp_all add: loaded_def)
  have "PwError i \<notin> set waiter_trace" "PwError i \<notin> set (take 4 waiter_trace)" for i by (simp_all add: waiter_trace_def)
  note sound = payload_waiter_sound [OF refl this(1), of toy_env] payload_waiter_sound [OF refl this(2), of toy_env]
  obtain b where "pw_block (pw_run toy_env (take 4 waiter_trace) PayloadWaiter_new) 1 = Some b"
    using sound(2) run(2) by auto
  then show ?thesis using sound(1) run(1) by auto
qed

section \<open>The synchronizer\<close>

text \<open>C21. The synchronizer's task hands back only blocks it was given. While the store answers without
  an error none is lost: each is waiting for its parent or has been handed back (or a block with the
  same digest is), and no block waits twice.\<close>

theorem synchronizer_delivers:
  assumes "sync_run E name com delay evs SyncTask_new = (Ok (), st)"
    and "\<And>w e. SyncDone w (Inl e) \<notin> set evs"
  shows "looped (sy_out st) \<subseteq> set (received_blocks evs)
    \<and> (\<forall>b \<in> set (received_blocks evs). sync_covers E st b)
    \<and> distinct (map (Block_digest E \<circ> snd) (sy_waiting st))"
proof -
  have "sync_full E SyncTask_new" by (simp add: sync_full_def) (simp add: SyncTask_new_def)
  from sync_run_full [OF this assms] sync_run_inv [OF sync_inv_new assms(1)]
  show ?thesis by (auto simp: sync_inv_def SyncTask_new_def)
qed

theorem synchronizer_delivers_witness:
  "looped (sy_out (snd (sync_run toy_env (PublicKey 1) solo 10
     [SyncBlock 7 B3, SyncBlock 8 B2, SyncDone (toy_digest 3, B3) (Inr [2])] SyncTask_new))) = {B3}"
proof -
  let ?evs = "[SyncBlock 7 B3, SyncBlock 8 B2, SyncDone (toy_digest 3, B3) (Inr [2])]"
  have addr: "committee_address solo (PublicKey 1) = Some toy_address" by (simp add: committee_address_def)
  obtain st where run: "sync_run toy_env (PublicKey 1) solo 10 ?evs SyncTask_new = (Ok (), st)"
    "sy_out st = [TSend toy_address (MSyncRequest (toy_digest 3) (PublicKey 1)),
       TSend toy_address (MSyncRequest (toy_digest 2) (PublicKey 1)), TLoopback B3]"
    by (simp add: sync_block_def SyncTask_new_def addr Block_parent_def Let_def)
  have "SyncDone w (Inl e) \<notin> set ?evs" for w e by simp
  from synchronizer_delivers [OF run(1) this] run show ?thesis by simp
qed

section \<open>The proposer\<close>

text \<open>C23. Proposer and verifier agree. Asked to propose on certificates that verify, the proposer either
  makes nothing (a round above 5, nothing to propose and no timeout certificate) or a block that
  carries its whole buffer and passes \<open>Block::verify\<close>; the block goes to the network and to the core
  before the proposer waits for acknowledgements.\<close>

theorem proposals_accepted:
  assumes "make_block E round qc tc acks p = (Ok (), p')"
    and "sign_correct E (pr_secret p) (pr_name p)" and "committee_stake com (pr_name p) > 0"
    and "QC_eq qc QC_genesis \<or> QC_verify E qc com = Ok ()"
    and "\<And>t. tc = Some t \<Longrightarrow> TC_verify E t com = Ok ()"
  shows "(p' = p \<and> round > 5 \<and> pr_buffer p = [] \<and> tc = None)
    \<or> (\<exists>b. proposed (pr_out p') = proposed (pr_out p) @ [b] \<and> pr_buffer p' = []
        \<and> b_payload b = pr_buffer p \<and> b_round b = round \<and> b_author b = pr_name p
        \<and> Block_verify E b com = Ok ())"
proof (cases "round > 5 \<and> pr_buffer p = [] \<and> tc = None")
  case True
  then show ?thesis using assms(1) by (simp add: make_block_def)
next
  case False
  then obtain b where b: "proposed (pr_out p') = proposed (pr_out p) @ [b]" "b_payload b = pr_buffer p"
    "b_round b = round" "b_author b = pr_name p" "pr_buffer p' = []"
    and new: "Block_new E qc tc (pr_name p) round (pr_buffer p) (pr_secret p) = Ok b"
    using make_block_proposes [OF assms(1)] by auto
  have "case tc of Some t \<Rightarrow> TC_verify E t com = Ok () | None \<Rightarrow> round \<le> 5 \<or> pr_buffer p \<noteq> []"
    using False assms(5) by (auto split: option.split)
  then obtain b' where "Block_new E qc tc (pr_name p) round (pr_buffer p) (pr_secret p) = Ok b'"
    "Block_verify E b' com = Ok ()"
    using Block_new_verifies [OF assms(2-4)] by blast
  then show ?thesis using b new by auto
qed

theorem proposals_accepted_witness:
  "\<exists>b. b_round b = 4 \<and> b_payload b = [toy_digest 9] \<and> Block_verify toy_env b solo = Ok ()"
proof -
  let ?p = "\<lparr>pr_name = PublicKey 1, pr_committee = solo, pr_secret = SecretKey 0,
    pr_buffer = [toy_digest 9], pr_out = []\<rparr>"
  have "fst (make_block toy_env 4 (toy_qc 4 3) None [] ?p) = Ok ()"
    by (simp add: make_block_def Block_new_def Let_def broadcast_addresses_def)
  then obtain p' where run: "make_block toy_env 4 (toy_qc 4 3) None [] ?p = (Ok (), p')"
    by (cases "make_block toy_env 4 (toy_qc 4 3) None [] ?p") simp
  from proposals_accepted [OF run, of solo] show ?thesis by auto
qed

section \<open>The helper\<close>

text \<open>The helper shares the store with the mempool, and a member that asks it for the digest of a
  batch stops it: the batch does not deserialize as a block, and the task panics. Every other request is
  served: an unknown origin and an unknown digest are passed over, and a stored block is sent.\<close>

theorem batch_request_stops_helper:
  assumes "rocks_ok E" and "hp_requests h = request # requests"
  shows "if no_block E (hp_committee h) db request
    then fst (helper_step E db h) = (Panic ''Failed to deserialize our own block'' :: ('e, unit) outcome)
    else fst (helper_step E db h) = (Ok () :: ('e, unit) outcome)"
  using helper_request_result [OF assms(1) refl, of "hp_committee h" db request, where 'e = 'e] assms(2)
  by (auto simp: helper_step_def split: if_splits)

theorem batch_request_stops_helper_witness:
  "fst (helper_step toy_env ((Digest_to_vec (toy_digest 9), [0, 0, 0, 0]) # db3)
     (Helper_new solo\<lparr>hp_requests := [(toy_digest 9, PublicKey 1), (toy_digest 3, PublicKey 1)]\<rparr>))
   = (Panic ''Failed to deserialize our own block'' :: (ConsensusError, unit) outcome)"
proof -
  let ?h = "Helper_new solo\<lparr>hp_requests := [(toy_digest 9, PublicKey 1), (toy_digest 3, PublicKey 1)]\<rparr>"
  have "toy_de [0, 0, 0, 0] = Inl ''unknown block''" by (simp add: toy_de_def)
  then have "no_block toy_env (hp_committee ?h) ((Digest_to_vec (toy_digest 9), [0, 0, 0, 0]) # db3) (toy_digest 9, PublicKey 1)"
    by (simp add: no_block_def Helper_new_def)
  then show ?thesis
    using batch_request_stops_helper [OF toy_rocks(1), of ?h, where 'e = ConsensusError] by simp
qed

end
