(* ===== verification/Network_Properties.thy ===== *)
theory Network_Properties
  imports Network_Model Consensus_Channels
begin

text \<open>
  Properties of the network crate: the reliable connection loses and reorders nothing, its phases and
  its backoff, and the isolation of the runners of a receiver.
\<close>

section \<open>The reliable connection\<close>

text \<open>C18. A connection of the reliable sender loses no message and invents none: after any run of
  connection failures, broken writes, lost links and replies, each message it took is acknowledged, waits
  for its reply, waits to be sent, or was dropped, and only messages whose caller had cancelled them by then
  are dropped. The messages that are left are in the order in which they were given.\<close>

theorem connection_conserves:
  assumes "conn_run evs (Connection_new address) = c"
  shows "mset (map fst (co_acked c) @ map snd (co_pending c) @ map snd (co_buffer c) @ map snd (co_dropped c))
      = mset (conn_given evs (Connection_new address))
    \<and> (\<forall>m \<in> set (co_dropped c). \<exists>(ev, closed, sent) \<in> set evs. snd m \<in> closed)
    \<and> subseq (map fst (co_acked c) @ map snd (co_pending c) @ map snd (co_buffer c))
        (conn_given evs (Connection_new address))"
proof -
  have new: "co_dropped (Connection_new address) = []" by (simp add: Connection_new_def)
  have "\<exists>(ev, closed, sent) \<in> set evs. snd m \<in> closed" if "m \<in> set (co_dropped c)" for m
    using conn_run_dropped [of m evs "Connection_new address"] that assms new by simp
  then show ?thesis
    using conn_run_moves [of "Connection_new address" evs] assms
    by (simp add: conn_moves_def conn_holds_def conn_queue_def Connection_new_def ac_simps)
qed

abbreviation loopback :: SocketAddr where
  "loopback \<equiv> SocketAddr (V4 0x7F000001) 9000"

text \<open>The second write fails, the link comes back, and both messages are sent again and acknowledged.\<close>

definition bad_link :: ConnTrace where
  "bad_link = [(Connected, {}, []), (Incoming ([1], 0), {}, [None]), (Incoming ([2], 1), {}, [Some ''reset'']),
     (ConnectFailed ''refused'', {}, []), (Incoming ([3], 2), {2}, []), (RetryTimer, {}, []), (Connected, {}, []),
     (Response (Some [65]), {}, []), (Response (Some [65]), {}, [])]"

lemmas conn_eval = bad_link_def Connection_new_def co_flush_def co_fail_def requeue_eq taken_def Let_def

theorem connection_conserves_witness:
  "map fst (co_acked (conn_run bad_link (Connection_new loopback))) = [0, 1]
   \<and> map snd (co_dropped (conn_run bad_link (Connection_new loopback))) = [2]
   \<and> mset [0, 1, 2] = mset (conn_given bad_link (Connection_new loopback))
   \<and> subseq [0, 1] (conn_given bad_link (Connection_new loopback))"
proof -
  have "map fst (co_acked (conn_run bad_link (Connection_new loopback))) = [0, 1]
    \<and> map snd (co_dropped (conn_run bad_link (Connection_new loopback))) = [2]
    \<and> co_pending (conn_run bad_link (Connection_new loopback)) = []
    \<and> co_buffer (conn_run bad_link (Connection_new loopback)) = []"
    by (simp add: conn_eval)
  then show ?thesis using connection_conserves [of bad_link loopback, OF refl] by simp
qed

text \<open>
  The phases: only a linked connection waits for replies, and it waits with an empty buffer; the delay
  is in its bounds.
\<close>

definition conn_phase_ok :: "Connection \<Rightarrow> bool" where
  "conn_phase_ok c \<longleftrightarrow> (if co_phase c = Linked then co_buffer c = [] else co_pending c = [])"

lemma send_buffer_empties:
  "send_buffer closed sent buffer pending dropped = (None, buffer', pending', dropped') \<Longrightarrow> buffer' = []"
  by (induction closed sent buffer pending dropped rule: send_buffer.induct)
    (auto split: if_splits list.splits option.splits)

lemma co_fail_phase [simp]: "conn_phase_ok (co_fail e c)"
  by (simp add: conn_phase_ok_def co_fail_def)

lemma co_flush_phase:
  assumes "co_phase c = Linked"
  shows "conn_phase_ok (co_flush closed sent c)"
proof -
  obtain r b p d where s: "send_buffer closed sent (co_buffer c) (co_pending c) (co_dropped c) = (r, b, p, d)"
    by (cases "send_buffer closed sent (co_buffer c) (co_pending c) (co_dropped c)")
  then show ?thesis
    using send_buffer_empties [of closed sent "co_buffer c" "co_pending c" "co_dropped c" b p d] assms
    by (cases r) (simp_all add: co_flush_def, simp_all add: conn_phase_ok_def)
qed

lemma conn_step_phase:
  assumes "conn_phase_ok c"
  shows "conn_phase_ok (conn_step ev closed sent c)"
proof (cases ev)
  case (Incoming m)
  then show ?thesis
    using assms co_flush_phase [of "c\<lparr>co_buffer := co_buffer c @ [m]\<rparr>" closed sent]
    by (cases "co_phase c") (simp_all add: Let_def, simp_all add: conn_phase_ok_def)
next
  case (Response r)
  then show ?thesis using assms by (cases r) (auto intro: co_flush_phase split: list.split)
qed (use assms co_flush_phase in \<open>auto simp: conn_phase_ok_def\<close>)

lemma conn_run_phase: "conn_phase_ok c \<Longrightarrow> conn_phase_ok (conn_run evs c)"
  by (induction evs c rule: conn_run.induct) (auto intro: conn_step_phase)

text \<open>The phases of a connection: linked, it has nothing left to send when it waits; connecting or
  waiting to try again, it owes no reply (the messages without one are back in the buffer). The retry
  delay is always between 200 milliseconds and a minute.\<close>

theorem connection_phases:
  assumes "conn_run evs (Connection_new address) = c"
  shows "(co_phase c = Linked \<longrightarrow> co_buffer c = []) \<and> (co_phase c \<noteq> Linked \<longrightarrow> co_pending c = [])
    \<and> 200 \<le> co_delay c \<and> co_delay c \<le> 60000"
proof -
  have "conn_phase_ok (Connection_new address)" by (simp add: conn_phase_ok_def Connection_new_def)
  from conn_run_phase [OF this, of evs] conn_run_delay [OF delay_ok_new, of evs address] assms
  show ?thesis by (auto simp: conn_phase_ok_def delay_ok_def split: if_splits)
qed

theorem connection_phases_witness:
  "co_buffer (conn_run (take 2 bad_link) (Connection_new loopback)) = []
   \<and> co_pending (conn_run (take 5 bad_link) (Connection_new loopback)) = []"
proof -
  have "co_phase (conn_run (take 2 bad_link) (Connection_new loopback)) = Linked"
    "co_phase (conn_run (take 5 bad_link) (Connection_new loopback)) = Waiting"
    by (simp_all add: conn_eval)
  then show ?thesis
    using connection_phases [of "take 2 bad_link" loopback, OF refl]
      connection_phases [of "take 5 bad_link" loopback, OF refl] by simp
qed

section \<open>Backoff\<close>

definition failed_attempts :: "string \<Rightarrow> nat \<Rightarrow> ConnTrace" where
  "failed_attempts e k = concat (replicate k [(ConnectFailed e, {}, []), (RetryTimer, {}, [])])"

lemma conn_run_append: "conn_run (xs @ ys) c = conn_run ys (conn_run xs c)"
  by (induction xs c rule: conn_run.induct) simp_all

lemma failed_attempts_Suc: "failed_attempts e (Suc k) = failed_attempts e k @ [(ConnectFailed e, {}, []), (RetryTimer, {}, [])]"
  by (simp add: failed_attempts_def replicate_append_same [symmetric] del: replicate_append_same)

lemma double_delay_eq:
  assumes "unat (d :: u64) \<le> 60000"
  shows "unat (min (2 * d) 60000) = min (2 * unat d) 60000"
proof -
  have "unat (2 * d) = 2 * unat d" using assms by (simp add: unat_word_ariths)
  then show ?thesis by (auto simp: min_def word_le_nat_alt)
qed

text \<open>C34. The backoff: after k failed attempts in a row the connection waits the smaller of 200 times 2
  to the k and 60000 milliseconds, and tries again; a success resets the delay. The attempts are counted
  in 16 bits: the count is k modulo 65536.\<close>

theorem retry_backoff:
  "unat (co_delay (conn_run (failed_attempts e k) (Connection_new address))) = min (200 * 2 ^ k) 60000
   \<and> co_retry (conn_run (failed_attempts e k) (Connection_new address)) = of_nat k
   \<and> co_phase (conn_run (failed_attempts e k) (Connection_new address)) = Connecting
   \<and> co_delay (conn_run (failed_attempts e k @ [(Connected, {}, [])]) (Connection_new address)) = 200"
proof -
  have base: "unat (co_delay (conn_run (failed_attempts e k) (Connection_new address))) = min (200 * 2 ^ k) 60000
   \<and> co_retry (conn_run (failed_attempts e k) (Connection_new address)) = of_nat k
   \<and> co_phase (conn_run (failed_attempts e k) (Connection_new address)) = Connecting
   \<and> co_buffer (conn_run (failed_attempts e k) (Connection_new address)) = []
   \<and> co_retry_delay (conn_run (failed_attempts e k) (Connection_new address)) = 200"
  proof (induction k)
    case 0
    show ?case by (simp add: failed_attempts_def Connection_new_def)
  next
    case (Suc k)
    let ?c = "conn_run (failed_attempts e k) (Connection_new address)"
    from Suc have "unat (co_delay ?c) \<le> 60000" by simp
    from double_delay_eq [OF this] Suc have "unat (min (2 * co_delay ?c) 60000) = min (200 * 2 ^ Suc k) 60000"
      by (simp add: min_def)
    then show ?case using Suc by (simp add: failed_attempts_Suc conn_run_append)
  qed
  then show ?thesis by (simp add: conn_run_append co_flush_def)
qed

section \<open>The runners of a receiver\<close>

definition opened :: "nat \<Rightarrow> 's \<Rightarrow> 's ReceiverTask" where
  "opened n s = \<lparr>rx_open = {..<n}, rx_next = n, rx_errors = [], rx_state = s\<rparr>"

lemma receiver_run_opened:
  "receiver_run dispatch True (replicate n RxAccept @ evs) s = (Ok (), fold (receiver_step dispatch) evs (opened n s))"
proof -
  have "fold (receiver_step dispatch) (replicate n RxAccept) \<lparr>rx_open = {}, rx_next = 0, rx_errors = [], rx_state = s\<rparr>
      = opened n s"
    by (induction n) (simp_all add: opened_def replicate_append_same [symmetric] lessThan_Suc del: replicate_append_same)
  then show ?thesis by (simp add: receiver_run_def)
qed

lemma dispatched_closed:
  "i \<notin> rx_open rx \<Longrightarrow> i < rx_next rx \<Longrightarrow> dispatched dispatch i evs rx = []"
proof (induction evs arbitrary: rx)
  case (Cons ev evs)
  have "i \<notin> rx_open (receiver_step dispatch ev rx)" "i < rx_next (receiver_step dispatch ev rx)"
    using Cons.prems by (cases ev; auto simp: rx_close_def split: sum.splits prod.splits outcome.splits)+
  with Cons show ?case by (auto simp: dispatch_now_def split: ReceiverEvent.split sum.split)
qed simp

text \<open>What is called on a connection that is open: all its unbroken messages, up to the first that fails.\<close>

lemma dispatched_open:
  assumes "i \<in> rx_open rx" "i < rx_next rx"
  shows "\<exists>ms. unbroken (frames_of i evs) = map fst (dispatched dispatch i evs rx) @ ms
    \<and> list_all snd (butlast (dispatched dispatch i evs rx))
    \<and> (ms \<noteq> [] \<longrightarrow> dispatched dispatch i evs rx \<noteq> [] \<and> \<not> snd (last (dispatched dispatch i evs rx)))"
  using assms
proof (induction evs arbitrary: rx)
  case (Cons ev evs)
  let ?rx = "receiver_step dispatch ev rx"
  have n: "i < rx_next ?rx"
    using Cons.prems by (cases ev) (auto simp: rx_close_def split: sum.splits prod.splits outcome.splits)
  show ?case
  proof (cases "i \<in> rx_open ?rx")
    case True
    then have own: "frames_of i (ev # evs) = frames_of i evs \<and> dispatch_now dispatch i ev rx = []
        \<or> (\<exists>m. frames_of i (ev # evs) = Inr m # frames_of i evs \<and> dispatch_now dispatch i ev rx = [(m, True)])"
      using Cons.prems
      by (cases ev) (auto simp: rx_close_def dispatch_now_def split: sum.splits prod.splits outcome.splits if_splits)
    obtain ms where "unbroken (frames_of i evs) = map fst (dispatched dispatch i evs ?rx) @ ms"
      "list_all snd (butlast (dispatched dispatch i evs ?rx))"
      "ms \<noteq> [] \<longrightarrow> dispatched dispatch i evs ?rx \<noteq> [] \<and> \<not> snd (last (dispatched dispatch i evs ?rx))"
      using Cons.IH [OF True n] by blast
    then show ?thesis using own by (intro exI [of _ ms]) auto
  next
    case False
    note closed = dispatched_closed [OF False n, of dispatch evs]
    have "frames_of i (ev # evs) = [] \<and> dispatch_now dispatch i ev rx = []
        \<or> (\<exists>e. frames_of i (ev # evs) = Inl e # frames_of i evs \<and> dispatch_now dispatch i ev rx = [])
        \<or> (\<exists>m. frames_of i (ev # evs) = Inr m # frames_of i evs \<and> dispatch_now dispatch i ev rx = [(m, False)])"
      using Cons.prems False
      by (cases ev) (auto simp: rx_close_def dispatch_now_def split: sum.splits prod.splits outcome.splits if_splits)
    then show ?thesis using closed by auto
  qed
qed simp

text \<open>C32. What the other connections of a receiver send, and how they end, takes nothing from a connection
  and ends it not: with any handler, the handler is called on the messages of the connection in order, all
  of them up to the end of its stream or its first broken frame, unless a call on one of its own messages
  does not return \<open>Ok\<close>, which is then the last. (That call may fail for a cause that lies elsewhere, such as
  a channel that a stopped task has closed: the handlers of the connections share their channels.)\<close>

theorem connections_isolated:
  fixes dispatch :: "'m \<Rightarrow> 's \<Rightarrow> ('e, unit) outcome \<times> 's"
  assumes "i < n" and "dispatched dispatch i evs (opened n s) = calls"
  shows "fst (receiver_run dispatch True (replicate n RxAccept @ evs) s) = Ok ()
    \<and> (\<exists>ms. unbroken (frames_of i evs) = map fst calls @ ms
        \<and> (ms \<noteq> [] \<longrightarrow> calls \<noteq> [] \<and> \<not> snd (last calls)))
    \<and> list_all snd (butlast calls)"
  using dispatched_open [of i "opened n s" evs dispatch] assms by (auto simp: opened_def receiver_run_opened)

text \<open>
  The consensus port of a node whose helper has stopped: a sync request ends connection 0, and what comes
  after it there is not read; connection 1 goes on.
\<close>

definition stopped_helper :: HandlerChannels where
  "stopped_helper = \<lparr>hc_core = Some [], hc_helper = None\<rparr>"

abbreviation some_timeout :: ConsensusMessage where
  "some_timeout \<equiv> MTC \<lparr>tc_round = 3, tc_votes = []\<rparr>"

definition two_peers :: "(string + ConsensusMessage) ReceiverEvent list" where
  "two_peers = [RxFrame 1 loopback (Inr (Inr some_timeout)),
     RxFrame 0 loopback (Inr (Inr (MSyncRequest Digest_default (PublicKey 1)))),
     RxFrame 0 loopback (Inr (Inr some_timeout)), RxFrame 1 loopback (Inr (Inr some_timeout)), RxEnd 1]"

theorem connections_isolated_witness:
  "dispatched handler_dispatch 0 two_peers (opened 2 stopped_helper)
   = [(Inr (MSyncRequest Digest_default (PublicKey 1)), False)]
   \<and> unbroken (frames_of 1 two_peers) = map fst (dispatched handler_dispatch 1 two_peers (opened 2 stopped_helper))"
proof -
  let ?d = "\<lambda>i. dispatched handler_dispatch i two_peers (opened 2 stopped_helper)"
  have d0: "?d 0 = [(Inr (MSyncRequest Digest_default (PublicKey 1)), False)]"
    and d1: "?d 1 = [(Inr some_timeout, True), (Inr some_timeout, True)]"
    by (simp_all add: two_peers_def dispatch_now_def opened_def handler_dispatch_def stopped_helper_def rx_close_def)
  show ?thesis
    using connections_isolated [of 1 2 handler_dispatch two_peers stopped_helper "?d 1", OF _ refl] d0 d1 by auto
qed

end
