(* ===== verification/Client_Model.thy ===== *)
theory Client_Model
  imports Node_Boot
begin

text \<open>
  The benchmark client (\<open>node/src/client.rs\<close>): its arguments, the transactions of a burst and the loop
  that sends them. The parser of socket addresses is an argument; the socket is the environment.
\<close>

section \<open>Arguments\<close>

record Client =
  cl_target :: SocketAddr
  cl_size :: nat
  cl_rate :: u64
  cl_timeout :: u64
  cl_nodes :: "SocketAddr list"

record ClientArgs =
  ca_addr :: "string option"
  ca_size :: "string option"
  ca_rate :: "string option"
  ca_timeout :: "string option"
  ca_nodes :: "string list option"

definition context_err :: "'e \<Rightarrow> 'a option \<Rightarrow> ('e, 'a) outcome" where
  "context_err e r = (case r of None \<Rightarrow> Err e | Some a \<Rightarrow> Ok a)"

fun parse_all :: "('b \<Rightarrow> 'a option) \<Rightarrow> 'b list \<Rightarrow> 'a list option" where
  "parse_all parse [] = Some []"
| "parse_all parse (x # xs) =
     (case parse x of
        None \<Rightarrow> None
      | Some a \<Rightarrow> map_option ((#) a) (parse_all parse xs))"

definition client_args :: "(string \<Rightarrow> SocketAddr option) \<Rightarrow> ClientArgs \<Rightarrow> (string, Client) outcome" where
  "client_args parse_addr args =
     and_then (value_of (ca_addr args)) (\<lambda>addr.
     and_then (context_err ''Invalid socket address format'' (parse_addr addr)) (\<lambda>target.
     and_then (value_of (ca_size args)) (\<lambda>size_arg.
     and_then (context_err ''The size of transactions must be a non-negative integer'' (parse_unsigned 64 size_arg))
       (\<lambda>size_value.
     and_then (value_of (ca_rate args)) (\<lambda>rate_arg.
     and_then (context_err ''The rate of transactions must be a non-negative integer'' (parse_unsigned 64 rate_arg))
       (\<lambda>rate_value.
     and_then (value_of (ca_timeout args)) (\<lambda>timeout_arg.
     and_then (context_err ''The timeout value must be a non-negative integer'' (parse_unsigned 64 timeout_arg))
       (\<lambda>timeout_value.
     and_then (context_err ''Invalid socket address format''
                 (parse_all parse_addr (case ca_nodes args of None \<Rightarrow> [] | Some ns \<Rightarrow> ns))) (\<lambda>nodes.
       Ok \<lparr>cl_target = target, cl_size = size_value, cl_rate = of_nat rate_value,
           cl_timeout = of_nat timeout_value, cl_nodes = nodes\<rparr>)))))))))"

section \<open>Transactions\<close>

definition PRECISION :: u64 where "PRECISION = 20"
definition BURST_DURATION :: u64 where "BURST_DURATION = 1000 div PRECISION"

text \<open>\<open>put_u64\<close> is big-endian; \<open>resize\<close> truncates or pads with zeros.\<close>

definition put_u64 :: "u64 \<Rightarrow> byte list" where
  "put_u64 x = be_bytes 8 x"

definition resize_bytes :: "nat \<Rightarrow> byte list \<Rightarrow> byte list" where
  "resize_bytes n bs = take n bs @ replicate (n - length bs) 0"

definition client_tx :: "nat \<Rightarrow> u64 \<Rightarrow> byte list" where
  "client_tx size_value r =
     resize_bytes size_value ([1] @ put_u64 r @ put_u64 (r * r + r) @ put_u64 (r * r * r - r))"

text \<open>
  The sends of one burst: the counter is incremented before each transaction; \<open>sent\<close> says whether each
  send succeeds. The result is what was sent, the counter, and whether a send failed.
\<close>

fun burst_loop :: "nat \<Rightarrow> nat \<Rightarrow> u64 \<Rightarrow> bool list \<Rightarrow> byte list list \<Rightarrow> byte list list \<times> u64 \<times> bool" where
  "burst_loop size_value 0 r sent out = (out, r, False)"
| "burst_loop size_value (Suc n) r sent out =
     (let r = r + 1;
          bytes = client_tx size_value r
      in case sent of
           False # _ \<Rightarrow> (out, r, True)
         | True # sent' \<Rightarrow> burst_loop size_value n r sent' (out @ [bytes])
         | [] \<Rightarrow> burst_loop size_value n r [] (out @ [bytes]))"

text \<open>The main loop over the ticks of the interval; it ends when a send fails.\<close>

fun client_loop :: "Client \<Rightarrow> u64 \<Rightarrow> bool list list \<Rightarrow> byte list list \<Rightarrow> byte list list" where
  "client_loop c r [] out = out"
| "client_loop c r (sent # ticks) out =
     (case burst_loop (cl_size c) (unat (cl_rate c div PRECISION)) r sent out of
        (out, r, failed) \<Rightarrow> if failed then out else client_loop c r ticks out)"

text \<open>\<open>send\<close>: \<open>connected\<close> is the outcome of the connection, \<open>r\<close> the first random number.\<close>

definition client_send ::
  "Client \<Rightarrow> string option \<Rightarrow> u64 \<Rightarrow> bool list list \<Rightarrow> (string, byte list list) outcome" where
  "client_send c connected r ticks =
     (if cl_size c < 9 then Err ''Transaction size must be at least 9 bytes''
      else case connected of
             Some e \<Rightarrow> Err ''failed to connect''
           | None \<Rightarrow> Ok (client_loop c r ticks []))"

text \<open>
  \<open>wait\<close>: a node is polled until it accepts a connection; the list says which attempts succeed. \<open>Hang\<close>
  stands for a node that never does. Then the client sleeps twice the timeout.
\<close>

fun wait_node :: "bool list \<Rightarrow> ('e, nat) outcome" where
  "wait_node [] = Hang"
| "wait_node (connects # attempts) =
     (if connects then Ok 0 else and_then (wait_node attempts) (\<lambda>ms. Ok (10 + ms)))"

fun wait_nodes :: "bool list list \<Rightarrow> ('e, nat) outcome" where
  "wait_nodes [] = Ok 0"
| "wait_nodes (node # nodes) =
     and_then (wait_node node) (\<lambda>ms. and_then (wait_nodes nodes) (\<lambda>ms'. Ok (max ms ms')))"

definition client_wait :: "Client \<Rightarrow> bool list list \<Rightarrow> ('e, nat) outcome" where
  "client_wait c nodes = and_then (wait_nodes nodes) (\<lambda>ms. Ok (ms + unat (2 * cl_timeout c)))"

section \<open>Distinct transactions\<close>

lemma put_u64_inject [simp]: "put_u64 x = put_u64 y \<longleftrightarrow> x = y"
proof
  assume "put_u64 x = put_u64 y"
  then have "of_be_bytes (be_bytes 8 x) = (of_be_bytes (be_bytes 8 y) :: u64)" by (simp add: put_u64_def)
  then show "x = y" by (simp add: of_be_bytes_be_bytes take_bit_word_eq_self)
qed simp

lemma client_tx_length [simp]: "length (client_tx n r) = n"
  by (auto simp: client_tx_def resize_bytes_def put_u64_def)

lemma client_tx_take: "9 \<le> n \<Longrightarrow> take 9 (client_tx n r) = 1 # put_u64 r"
  by (simp add: client_tx_def resize_bytes_def put_u64_def min_def)

lemma client_tx_inject:
  assumes "9 \<le> n" and "client_tx n r = client_tx n r'"
  shows "r = r'"
proof -
  have "1 # put_u64 r = take 9 (client_tx n r)" using client_tx_take [OF assms(1)] by simp
  also have "\<dots> = 1 # put_u64 r'" using client_tx_take [OF assms(1)] assms(2) by simp
  finally show ?thesis by simp
qed

lemma upt_shift: "map f [1..<Suc (Suc m)] = f 1 # map (\<lambda>i. f (Suc i)) [1..<Suc m]"
proof -
  have "[1..<Suc (Suc m)] = 1 # map Suc [1..<Suc m]"
    by (simp only: map_Suc_upt) (simp add: upt_conv_Cons del: upt_Suc)
  then show ?thesis by (simp add: comp_def del: upt_Suc)
qed

text \<open>What a burst sends: the transactions of the numbers after the counter, in order.\<close>

lemma burst_loop_sent:
  "burst_loop n k r sent out = (out', r', failed) \<Longrightarrow>
   \<exists>m \<le> k. out' = out @ map (\<lambda>i. client_tx n (r + of_nat i)) [1..<Suc m] \<and> (\<not> failed \<longrightarrow> m = k \<and> r' = r + of_nat k)"
proof (induction k arbitrary: r sent out)
  case (Suc k)
  have step: ?case if "burst_loop n k (r + 1) rest (out @ [client_tx n (r + 1)]) = (out', r', failed)" for rest
  proof -
    from Suc.IH [OF that] obtain m where m: "m \<le> k" "\<not> failed \<longrightarrow> m = k \<and> r' = r + 1 + of_nat k"
      "out' = (out @ [client_tx n (r + 1)]) @ map (\<lambda>i. client_tx n (r + 1 + of_nat i)) [1..<Suc m]"
      by blast
    then have "out' = out @ map (\<lambda>i. client_tx n (r + of_nat i)) [1..<Suc (Suc m)]"
      by (simp only: upt_shift) (simp add: ac_simps del: upt_Suc)
    then show ?thesis using m by (intro exI [of _ "Suc m"]) (simp add: ac_simps del: upt_Suc)
  qed
  show ?case
  proof (cases sent)
    case Nil
    then show ?thesis using Suc.prems step [of "[]"] by (simp add: Let_def)
  next
    case (Cons b rest)
    then show ?thesis using Suc.prems step [of rest] by (cases b) (auto simp: Let_def intro: exI [of _ 0])
  qed
qed simp

lemma upt_split: "map f [1..<Suc (m + l)] = map f [1..<Suc m] @ map (\<lambda>i. f (m + i)) [1..<Suc l]"
  by (induction l) simp_all

lemma client_loop_sent:
  "\<exists>l. client_loop c r ticks out = out @ map (\<lambda>i. client_tx (cl_size c) (r + of_nat i)) [1..<Suc l]"
proof (induction ticks arbitrary: r out)
  case Nil
  show ?case by (intro exI [of _ 0]) simp
next
  case (Cons sent ticks)
  let ?tx = "client_tx (cl_size c)"
  obtain out' r' failed
    where b: "burst_loop (cl_size c) (unat (cl_rate c div PRECISION)) r sent out = (out', r', failed)"
    by (cases "burst_loop (cl_size c) (unat (cl_rate c div PRECISION)) r sent out")
  from burst_loop_sent [OF b] obtain m where m: "out' = out @ map (\<lambda>i. ?tx (r + of_nat i)) [1..<Suc m]"
    "\<not> failed \<longrightarrow> r' = r + of_nat m" by blast
  show ?case
  proof (cases failed)
    case False
    obtain l where "client_loop c r' ticks out' = out' @ map (\<lambda>i. ?tx (r' + of_nat i)) [1..<Suc l]"
      using Cons.IH by blast
    then have "client_loop c r (sent # ticks) out = out @ map (\<lambda>i. ?tx (r + of_nat i)) [1..<Suc (m + l)]"
      using b m False by (simp only: upt_split) (simp add: ac_simps del: upt_Suc)
    then show ?thesis by blast
  qed (use b m in auto)
qed

lemma of_nat_distinct:
  assumes "l \<le> 2 ^ 64"
  shows "inj_on (\<lambda>i. r + of_nat i :: u64) (set [1..<Suc l])"
proof (rule inj_onI)
  fix i j
  assume i: "i \<in> set [1..<Suc l]" and j: "j \<in> set [1..<Suc l]" and eq: "r + of_nat i = (r + of_nat j :: u64)"
  have "unat (of_nat i :: u64) = unat (of_nat j :: u64)" using eq by simp
  then have mod_eq: "i mod 2 ^ 64 = j mod 2 ^ 64" by (simp only: unat_of_nat) simp
  have range: "0 < i" "i \<le> 2 ^ 64" "0 < j" "j \<le> 2 ^ 64" using i j assms by auto
  have top: "k mod 2 ^ 64 = (if k = 2 ^ 64 then 0 else k)" if "k \<le> 2 ^ 64" for k :: nat
    using that by simp
  show "i = j"
    using mod_eq range unfolding top [OF range(2)] top [OF range(4)] by (auto split: if_splits)
qed

end
