(* ===== verification/Boot_Properties.thy ===== *)
theory Boot_Properties
  imports Client_Model Node_Properties Core_Properties
begin

text \<open>
  Properties of the start of a node: its configuration files, the answer of the signature service, and
  what \<open>Node::new\<close> leaves behind.
\<close>

section \<open>Configuration files\<close>

text \<open>C35. A configuration written to a path reads back when the path held nothing or no more bytes than
  are written. The file is not truncated: if it held more, the tail stays behind the new bytes, and the
  reader gets both.\<close>

theorem config_round_trip:
  assumes "write_error E path = None" and "read_error E path = None"
    and "\<And>x. from_slice (pretty x @ [10]) = Ok x"
    and "Export_write E pretty x files path = (Ok (), files')"
  shows "(length (hm_entry files path []) \<le> Suc (length (pretty x)) \<longrightarrow> Export_read E from_slice files' path = Ok x)
    \<and> map_of files' path = Some (pretty x @ 10 # drop (Suc (length (pretty x))) (hm_entry files path []))"
proof -
  have "map_of files' path = Some (pretty x @ 10 # drop (Suc (length (pretty x))) (hm_entry files path []))"
    using assms(1,4) by (auto simp: Export_write_def Let_def update_conv')
  then show ?thesis
    using Export_read_written [OF assms(1,2,4), of from_slice] assms(3) [of x] by simp
qed

text \<open>A codec of truth values: 7 and 1, 0, 0; written the short after the long one.\<close>

definition pretty_bool :: "bool \<Rightarrow> byte list" where
  "pretty_bool b = (if b then [55] else [49, 48, 48])"

definition slice_bool :: "byte list \<Rightarrow> (string, bool) outcome" where
  "slice_bool bs = (if bs = [55, 10] then Ok True else if bs = [49, 48, 48, 10] then Ok False
     else Err ''trailing characters'')"

definition boot_toy :: "(byte list \<Rightarrow> (string, NodeCommittee) outcome) \<Rightarrow> (byte list \<Rightarrow> (string, Secret) outcome) \<Rightarrow> boot_env" where
  "boot_toy committee secret = node_env.extend node_toy
     \<lparr>json_committee = committee, json_parameters = (\<lambda>bs. Err ''no parameters''), json_secret = secret,
      pretty_secret = (\<lambda>s. pk_bytes (sc_name s)), read_error = (\<lambda>p. None), write_error = (\<lambda>p. None),
      store_opens = (\<lambda>p. True), os_keypair = (\<lambda>n. ((replicate 32 1, replicate 32 2), Suc n)),
      seed_keypair = (\<lambda>s. ((s, s), s))\<rparr>"

lemma boot_toy_sel [simp]:
  "read_error (boot_toy c s) p = None" "write_error (boot_toy c s) p = None" "store_opens (boot_toy c s) p"
  "json_committee (boot_toy c s) = c" "json_secret (boot_toy c s) = s"
  by (simp_all add: boot_toy_def node_env.defs)

abbreviation boot_files :: boot_env where
  "boot_files \<equiv> boot_toy (\<lambda>_. Err []) (\<lambda>_. Err [])"

theorem config_round_trip_witness:
  "Export_read boot_files slice_bool (snd (Export_write boot_files pretty_bool False [] ''f'')) ''f'' = Ok False
   \<and> Export_read boot_files slice_bool
       (snd (Export_write boot_files pretty_bool True
         (snd (Export_write boot_files pretty_bool False [] ''f'')) ''f'')) ''f''
     = Err (ReadError ''f'' ''trailing characters'')"
proof -
  have codec: "slice_bool (pretty_bool x @ [10]) = Ok x" for x by (simp add: slice_bool_def pretty_bool_def)
  obtain files1 where f1: "Export_write boot_files pretty_bool False [] ''f'' = (Ok (), files1)"
    by (simp add: Export_write_def Let_def)
  obtain files2 where f2: "Export_write boot_files pretty_bool True files1 ''f'' = (Ok (), files2)"
    by (simp add: Export_write_def Let_def)
  note r1 = config_round_trip [OF boot_toy_sel(2,1) codec f1]
  note r2 = config_round_trip [OF boot_toy_sel(2,1) codec f2]
  have "map_of files1 ''f'' = Some [49, 48, 48, 10]" using r1 by (simp add: pretty_bool_def hm_entry_def)
  then have "map_of files2 ''f'' = Some [55, 10, 48, 10]" using r2 by (simp add: pretty_bool_def hm_entry_def)
  then have "Export_read boot_files slice_bool files2 ''f'' = Err (ReadError ''f'' ''trailing characters'')"
    by (simp add: Export_read_def fs_read_def slice_bool_def)
  then show ?thesis using r1 f1 f2 by (simp add: hm_entry_def)
qed

section \<open>The signature service\<close>

text \<open>C36. The signature service gives a requester the signature of its own digest under the node's key,
  whoever else has requests queued: awaiting the answer yields what \<open>request_signature\<close> yields. Where
  the key does not load, the service dies and the requester panics.\<close>

theorem signature_service_exact:
  assumes "sv_alive sv" and "\<forall>(d, n) \<in> set (sv_queue sv). Signature_new E d (sv_secret sv) = Ok (sig d)"
    and "receiver \<notin> fst ` set (sv_answers sv) \<union> snd ` set (sv_queue sv)"
    and "service_send digest receiver sv = (Ok (), sv')"
  shows "service_await receiver ((service_step E ^^ length (sv_queue sv')) sv') =
    (case request_signature E (sv_secret sv) digest of
       Ok s \<Rightarrow> Ok s | _ \<Rightarrow> Panic ''Failed to receive signature from Signature Service'')"
  unfolding request_signature_def by (rule service_answers_last [OF assms])

theorem signature_service_exact_witness:
  "service_await 1 ((service_step toy_env ^^ 2)
     (snd (service_send (toy_digest 4) 1 (snd (service_send (toy_digest 3) 0 (SignatureService_new (SecretKey 0)))))))
   = Ok toy_signature"
proof -
  let ?sv = "\<lparr>sv_secret = SecretKey 0, sv_alive = True, sv_queue = [(toy_digest 3, 0)], sv_answers = []\<rparr>"
  let ?sv' = "\<lparr>sv_secret = SecretKey 0, sv_alive = True, sv_queue = [(toy_digest 3, 0), (toy_digest 4, 1)], sv_answers = []\<rparr>"
  have signs: "Signature_new toy_env d sk = Ok toy_signature" for d sk
    using toy_request [of sk d] by (simp add: request_signature_def)
  have send: "service_send (toy_digest 4) 1 ?sv = (Ok (), ?sv')" by (simp add: service_send_def)
  have "service_await 1 ((service_step toy_env ^^ length (sv_queue ?sv')) ?sv') = Ok toy_signature"
    using signature_service_exact [OF _ _ _ send, of toy_env "\<lambda>_. toy_signature"] signs by simp
  then show ?thesis by (simp add: service_send_def SignatureService_new_def numeral_2_eq_2)
qed

section \<open>Booting\<close>

text \<open>C30. Once its files have been read and the store opens, a node boots exactly when its name is in both
  committees of the committee file, and panics otherwise. A booted node starts from the initial states the
  invariants of this development hold of: an empty mempool with its own stake, a fresh core whose key is the
  one of the key file, an idle signature service of the same key, and epoch 0 without votes.\<close>

theorem node_boots:
  assumes "Export_read E (json_committee E) files committee_file = Ok com"
    and "Export_read E (json_secret E) files key_file = Ok sec"
    and "(case parameters of Some filename \<Rightarrow> Export_read E (json_parameters E) files filename
          | None \<Rightarrow> Ok NodeParameters_default) = Ok par"
    and "store_opens E store_path"
  shows "(if sc_name sec \<in> mp_members (nc_mempool com) \<and> sc_name sec \<in> committee_members (nc_consensus com)
     then \<exists>n. Node_boot E files committee_file key_file store_path parameters quorum obsido_port = Ok n
        \<and> flow_ok E {} (bn_mempool n) \<and> mt_digests (bn_mempool n) = []
        \<and> mt_stake (bn_mempool n) = mp_stake (nc_mempool com) (sc_name sec)
        \<and> ct_core (bn_consensus n) = Core_new (sc_name sec) (nc_consensus com) (sc_secret sec) []
        \<and> bn_service n = SignatureService_new (sc_secret sec)
        \<and> node_abs (bn_node n) = EpochState_init quorum \<and> node_inv (bn_node n)
     else Node_boot E files committee_file key_file store_path parameters quorum obsido_port
        = Panic own_committee_message)"
proof -
  let ?name = "sc_name sec"
  have boot: "Node_boot E files committee_file key_file store_path parameters quorum obsido_port
    = and_then (Mempool_spawn ?name (nc_mempool com) (np_mempool par) []) (\<lambda>mempool.
      and_then (Consensus_spawn ?name (nc_consensus com) (np_consensus par) (sc_secret sec) []) (\<lambda>consensus.
        Ok \<lparr>bn_name = ?name, bn_service = SignatureService_new (sc_secret sec), bn_mempool = mempool,
            bn_obsido_address = Obsido_spawn obsido_port, bn_consensus = consensus, bn_node = Node_new quorum\<rparr>))"
    using assms by (simp add: Node_boot_def Let_def)
  show ?thesis
  proof (cases "?name \<in> mp_members (nc_mempool com)")
    case True
    then obtain st where m: "(Mempool_spawn ?name (nc_mempool com) (np_mempool par) [] :: (ConfigError, _) outcome) = Ok st"
      using Mempool_spawn_member(1) by blast
    note st = Mempool_spawn_Ok [OF m, of E "{}"]
    show ?thesis
    proof (cases "?name \<in> committee_members (nc_consensus com)")
      case in_consensus: True
      then obtain ct where "(Consensus_spawn ?name (nc_consensus com) (np_consensus par) (sc_secret sec) []
          :: (ConfigError, _) outcome) = Ok ct" "ct_core ct = Core_new ?name (nc_consensus com) (sc_secret sec) []"
        using Consensus_spawn_member(2) by blast
      then show ?thesis using True in_consensus st m by (simp add: boot node_abs_new)
    qed (simp add: boot m Consensus_spawn_member)
  qed (simp add: boot Mempool_spawn_member)
qed

definition toy_secret :: Secret where
  "toy_secret = \<lparr>sc_name = PublicKey 1, sc_secret = SecretKey 0\<rparr>"

theorem node_boots_witness:
  "\<exists>n. Node_boot (boot_toy (\<lambda>_. Ok \<lparr>nc_consensus = solo, nc_mempool = mp_four\<rparr>) (\<lambda>_. Ok toy_secret))
     [(''c'', []), (''k'', [])] ''c'' ''k'' ''db'' None 1 7000 = Ok n
     \<and> node_abs (bn_node n) = EpochState_init 1"
proof -
  let ?E = "boot_toy (\<lambda>_. Ok \<lparr>nc_consensus = solo, nc_mempool = mp_four\<rparr>) (\<lambda>_. Ok toy_secret)"
  have "Export_read ?E (json_committee ?E) [(''c'', []), (''k'', [])] ''c''
      = Ok \<lparr>nc_consensus = solo, nc_mempool = mp_four\<rparr>"
    and "Export_read ?E (json_secret ?E) [(''c'', []), (''k'', [])] ''k'' = Ok toy_secret"
    by (simp_all add: Export_read_def fs_read_def)
  from node_boots [OF this, of None NodeParameters_default "''db''" 1 7000] show ?thesis
    by (auto simp: toy_secret_def)
qed

section \<open>The benchmark client\<close>

text \<open>C37. With a transaction size of at least 9, up to 2 to the 64 transactions of a run of the benchmark
  client are all different and of that size, whatever the first random number, the rate and the failures;
  with a smaller size the client refuses to send.\<close>

theorem client_transactions_distinct:
  "(case client_send c connected r ticks of
      Ok txs \<Rightarrow> 9 \<le> cl_size c \<and> connected = None \<and> (\<forall>tx \<in> set txs. length tx = cl_size c)
        \<and> (length txs \<le> 2 ^ 64 \<longrightarrow> distinct txs)
    | Err e \<Rightarrow> cl_size c < 9 \<or> connected \<noteq> None
    | _ \<Rightarrow> False)"
proof (cases "client_send c connected r ticks")
  case (Ok txs)
  then have size_ok: "9 \<le> cl_size c" and con: "connected = None" and txs: "txs = client_loop c r ticks []"
    by (auto simp: client_send_def split: if_splits option.splits)
  obtain l where l: "txs = map (\<lambda>i. client_tx (cl_size c) (r + of_nat i)) [1..<Suc l]"
    using client_loop_sent [of c r ticks "[]"] txs by auto
  have "distinct txs" if "length txs \<le> 2 ^ 64"
  proof -
    have "inj_on (\<lambda>i. r + of_nat i) (set [1..<Suc l])" using that l by (intro of_nat_distinct) (simp del: upt_Suc)
    moreover have "inj_on (client_tx (cl_size c)) S" for S
      using client_tx_inject [OF size_ok] by (rule inj_onI)
    ultimately have "inj_on (client_tx (cl_size c) \<circ> (\<lambda>i. r + of_nat i)) (set [1..<Suc l])"
      by (rule comp_inj_on)
    then show ?thesis unfolding l by (simp add: distinct_map comp_def del: upt_Suc)
  qed
  moreover have "\<forall>tx \<in> set txs. length tx = cl_size c" unfolding l by simp
  ultimately show ?thesis using Ok size_ok con by simp
qed (auto simp: client_send_def split: if_splits option.splits)

theorem client_transactions_distinct_witness:
  "distinct (client_loop \<lparr>cl_target = toy_address, cl_size = 9, cl_rate = 20, cl_timeout = 0, cl_nodes = []\<rparr> 7 [[], []] [])"
proof -
  let ?c = "\<lparr>cl_target = toy_address, cl_size = 9, cl_rate = 20, cl_timeout = 0, cl_nodes = []\<rparr>"
  have "client_send ?c None 7 [[], []] = Ok (client_loop ?c 7 [[], []] [])" by (simp add: client_send_def)
  moreover have "length (client_loop ?c 7 [[], []] []) \<le> 2 ^ 64"
    by (simp add: PRECISION_def Let_def)
  ultimately show ?thesis using client_transactions_distinct [of ?c None 7 "[[], []]"] by simp
qed

end
