(* ===== verification/Spec2Isabelle.thy ===== *)
theory Spec2Isabelle
  imports Delivery_Properties Crate_Properties Task_Properties Network_Properties Boot_Properties
begin

text \<open>
  A model of the DeFL node, a Rust workspace in which HotStuff consensus orders the requests of
  federated-learning clients and every node applies them to a bank of model weights.

  \<^bold>\<open>The program.\<close> Clients send requests to the mempool of a node (\<open>mempool/src\<close>), which packs them
  into batches, broadcasts these, stores them and hands their digests to the consensus
  (\<open>consensus/src\<close>) once a quorum has acknowledged them. Leaders propose blocks of digests; the core
  votes, aggregates certificates, times out, synchronizes missing ancestors and batches, and commits.
  The node (\<open>node/src/node.rs\<close>) reads the batches of committed blocks from the store (\<open>store/src\<close>)
  and applies their requests: weight updates and votes for the end of the epoch. Obsido
  (\<open>obsido/src\<close>) registers clients and publishes the weights of the last epoch. All parts talk over
  \<open>network/src\<close>, sign with \<open>crypto/src\<close>, and answer clients with \<open>proto/src\<close>.

  \<^bold>\<open>Theories and sources.\<close>
  \<^item> \<open>Prelude\<close>: outcomes (\<open>Ok\<close>, \<open>Err\<close>, \<open>Panic\<close>, \<open>Hang\<close>: a wait or loop that never ends), hash maps as
    association lists with distinct keys, machine integers, byte encodings.
  \<^item> \<open>Crypto_Model\<close>, \<open>Crypto_Service\<close> (\<open>crypto/src/lib.rs\<close>): digests, keys, signatures, text forms,
    the task of the signature service.
  \<^item> \<open>Store_Model\<close> (\<open>store/src/lib.rs\<close>): the store task with its obligations; the locale \<open>kv_store\<close> is
    the contract its clients use. The database is the list of puts.
  \<^item> \<open>Quorum_System\<close>: the locale \<open>quorum_system\<close>, interpreted by the consensus committee
    (\<open>Committee_Model\<close>: \<open>consensus/src/config.rs\<close>, \<open>leader.rs\<close>) and by the mempool's.
  \<^item> \<open>Messages\<close> (\<open>messages.rs\<close>, \<open>error.rs\<close>), \<open>Cert_Maker\<close> and \<open>Aggregator_Model\<close>
    (\<open>aggregator.rs\<close>), \<open>Consensus_Channels\<close> (the channels' messages and the receiver's dispatch),
    \<open>Mempool_Driver\<close> (\<open>consensus/src/mempool.rs\<close>), \<open>Synchronizer_Model\<close> (\<open>synchronizer.rs\<close>),
    \<open>Core_Model\<close> (\<open>core.rs\<close>): one function per method of the core, \<open>core_handle\<close> for one message
    and \<open>core_run\<close> for the loop.
  \<^item> \<open>Consensus_Tasks\<close>, \<open>Ack_Quorum\<close>, \<open>Proposer_Model\<close>: the tasks around the core (synchronizer,
    payload waiter, proposer, helper, timer). \<open>Consensus_System\<close>: the consensus of a node as
    \<open>Consensus::spawn\<close> wires it, the core and its tasks with the channels between them, one turn of one
    task per step; \<open>Consensus_Runs\<close> its fair runs; \<open>Cluster\<close> the nodes of a committee.
  \<^item> \<open>Mempool_Model\<close>, \<open>Mempool_Sync\<close>, \<open>Mempool_Tasks\<close> (\<open>mempool/src\<close>): the mempool's tasks, and their
    interleaving over the channels that \<open>Mempool::spawn\<close> creates.
  \<^item> \<open>Network_Model\<close> (\<open>network/src\<close>): the reliable connection as a state machine over socket events,
    the simple sender, the receiver with its runners.
  \<^item> \<open>Defl_Sender\<close> (\<open>proto/src\<close>), \<open>Node_Model\<close> (\<open>node.rs\<close>, \<open>obsido/src/lib.rs\<close>), \<open>Epoch_Machine\<close>: the
    specification of the node, and the locale \<open>replicated_machine\<close> through which the node refines it.
  \<^item> \<open>Node_Boot\<close> (\<open>node/src/config.rs\<close>, \<open>main.rs\<close>, the spawn functions), \<open>Client_Model\<close>
    (\<open>node/src/client.rs\<close>).
  \<^item> \<open>Concrete\<close>, \<open>Concrete_Node\<close>: an environment and committees for the witnesses.

  \<^bold>\<open>Lemmas and properties.\<close> \<open>Core_Relation\<close>, \<open>Core_Invariants\<close> and \<open>Core_Lock\<close> show what every step of
  the core preserves; \<open>Safety\<close> and \<open>Agreement\<close> derive from it that two correct cores never commit
  conflicting blocks when at most a third of the stake is faulty. \<open>Core_Progress\<close> shows that in fair
  runs every handler of the core completes (of the tasks of a node only the helper can stop, see
  \<open>Cluster_Properties\<close>). Both assume that only blocks that were asked for, and own proposals,
  are handed back to a core. \<open>Consensus_System\<close> proves this of the tasks that hand them back, so that
  the runs of whole nodes simulate the runs of cores (\<open>Consensus_Runs\<close>, \<open>Cluster\<close>); the properties of
  whole nodes are in \<open>Cluster_Properties\<close>. \<open>Consensus_Payload\<close> follows the batches of a block through
  the core and its tasks, and \<open>Delivery_Properties\<close> to the node's task. The other properties are in
  \<open>Consensus_Properties\<close>, \<open>Core_Properties\<close>, \<open>Task_Properties\<close>, \<open>Crate_Properties\<close>,
  \<open>Network_Properties\<close>, \<open>Mempool_Properties\<close>, \<open>Node_Properties\<close>, \<open>Boot_Properties\<close> and
  \<open>Store_Model\<close>; each is numbered C1 to C40
  in the text before it. They compose along the life of a request: a digest the mempool announces has
  its batch in the store, committed blocks agree between nodes, nodes that analyze the same blocks
  agree on the epoch state, and an epoch ends with a quorum of distinct votes.

  \<^bold>\<open>Third-party code\<close> is a parameter, a field of the records \<open>crypto_env\<close>, \<open>env\<close>, \<open>mp_env\<close>,
  \<open>node_env\<close> and \<open>boot_env\<close>: ed25519, SHA-512, base64, RocksDB, bincode, prost, serde_json, UUIDs, the
  parser of IPv6 addresses, the file system's refusals. What the code relies on is a named hypothesis:
  \<open>rocks_ok\<close> (a read answers the last put), \<open>mempool_bincode_ok\<close> and \<open>base64_inverse\<close> (decoding
  inverts encoding), \<open>batch_complete\<close> and \<open>sign_correct\<close> (signatures verify). Hash
  collisions are excluded only on the finite sets a theorem names. Each property with a hypothesis has a
  witness that applies it in the concrete environment.

  \<^bold>\<open>Bounds and loops.\<close> There is no fuel. Integers have the width of the code and wrap as in a release
  build; \<open>committee_valid\<close> is the condition under which stake does not wrap. The walk of \<open>commit\<close> is a
  \<open>partial_function (option)\<close>, and \<open>Core_Progress\<close> proves that it ends in fair runs. Instants, counts of
  messages and handler numbers are natural numbers. The iteration order of a hash map is the order of
  its association list, and theorems do not depend on it except where they say so.

  \<^bold>\<open>Concurrency.\<close> A task is a step function; a run is a list of events that says which task moves, what
  arrives, and how operations on sockets, futures and the store turn out. Channels are unbounded queues:
  that a full channel blocks its sender is not modelled.

  \<^bold>\<open>Not modelled.\<close> The code under the feature \<open>benchmark\<close> (log lines for measurements; in \<open>client.rs\<close> it
  does not compile), logging, the declaration of the command line to clap, tokio's scheduler and timers
  beyond their firing, TCP framing (\<open>LengthDelimitedCodec\<close>), \<open>Debug\<close> texts of messages, module
  declarations and the protobuf build script, and the tests.
\<close>

end
